(* ===== verification/Prelude.thy ===== *)
theory Prelude
  imports Main "HOL-Library.Sublist" "HOL-Library.Multiset"
begin

text \<open>
  Shared vocabulary of the development: Go error values, the result of a Go call, and
  the generic lemmas on lists, options and strings the component theories use.

  A Go function that returns a value and an \<open>error\<close>, and that may also panic, returns an
  \<open>outcome\<close>: \<open>Ok\<close> carries the value of a call whose error is nil, \<open>Err\<close> the error of a
  failed call (no caller in the program reads the other results of a failed call), and
  \<open>Panic\<close> the run-time panic that unwinds the goroutine. Every early return of the source
  is a branch on these three cases.
\<close>

section \<open>Errors and outcomes\<close>

text \<open>
  \<open>Errorf fmt args\<close> is \<open>errors.New\<close> or \<open>fmt.Errorf\<close> without a wrapped error: the format
  string and the arguments as text. \<open>Wrapf fmt args e\<close> is \<open>fmt.Errorf\<close> with a \<open>%w\<close> verb.
  \<open>NotFound group resource name\<close> is the API error of \<open>apierrors.NewNotFound\<close>, and
  \<open>External what\<close> any other error a third-party call hands back.
\<close>

datatype go_error =
    Errorf string "string list"
  | Wrapf string "string list" go_error
  | NotFound string string string
  | External string

datatype 'a outcome = Ok 'a | Err go_error | Panic string

text \<open>The panic of a read or write through a nil pointer.\<close>

definition nil_dereference :: string where
  "nil_dereference = ''invalid memory address or nil pointer dereference''"

text \<open>\<open>apierrors.IsNotFound\<close> looks through wrapped errors.\<close>

fun is_NotFound :: "go_error \<Rightarrow> bool" where
  "is_NotFound (NotFound g r n) = True"
| "is_NotFound (Wrapf f a e) = is_NotFound e"
| "is_NotFound (Errorf f a) = False"
| "is_NotFound (External s) = False"

definition is_Ok :: "'a outcome \<Rightarrow> bool" where
  "is_Ok r \<longleftrightarrow> (case r of Ok _ \<Rightarrow> True | _ \<Rightarrow> False)"

definition panics :: "'a outcome \<Rightarrow> bool" where
  "panics r \<longleftrightarrow> (case r of Panic _ \<Rightarrow> True | _ \<Rightarrow> False)"

lemma is_Ok_simps [simp]:
  "is_Ok (Ok x)" "\<not> is_Ok (Err e)" "\<not> is_Ok (Panic s)"
  by (simp_all add: is_Ok_def)

lemma panics_simps [simp]:
  "\<not> panics (Ok x)" "\<not> panics (Err e)" "panics (Panic s)"
  by (simp_all add: panics_def)

lemma is_OkE: "is_Ok r \<Longrightarrow> \<exists>x. r = Ok x"
  by (cases r) auto

section \<open>Collections of rewrite rules\<close>

named_theorems go_defs \<open>definitions of the operations of the program\<close>
named_theorems go_keys \<open>facts about the string keys of the program\<close>

section \<open>Lists\<close>

lemma append_eq_sep:
  assumes "xs @ c # ys = xs' @ c # ys'" and "c \<notin> set xs" and "c \<notin> set xs'"
  shows "xs = xs' \<and> ys = ys'"
  using assms by (induction xs arbitrary: xs') (auto simp: Cons_eq_append_conv append_eq_Cons_conv)

lemma takeWhile_sep [simp]:
  "c \<notin> set xs \<Longrightarrow> takeWhile (\<lambda>x. x \<noteq> c) (xs @ c # ys) = xs"
  by (induction xs) auto

lemma dropWhile_sep [simp]:
  "c \<notin> set xs \<Longrightarrow> dropWhile (\<lambda>x. x \<noteq> c) (xs @ c # ys) = c # ys"
  by (induction xs) auto

lemma dropWhile_absent [simp]:
  "c \<notin> set xs \<Longrightarrow> dropWhile (\<lambda>x. x \<noteq> c) xs = []"
  by (induction xs) auto

lemma sep_in_append:
  assumes "xs @ c # ys = zs" and "c \<notin> set zs"
  shows False
  using assms by auto

lemma take_filter_append:
  "n \<le> length (filter P xs) \<Longrightarrow> take n (filter P (xs @ ys)) = take n (filter P xs)"
  by simp

lemma mset_filter_eq_set:
  "mset xs = mset ys \<Longrightarrow> set (filter P xs) = set (filter P ys)"
  by (metis mset_filter set_mset_mset)

lemma mset_eq_set: "mset xs = mset ys \<Longrightarrow> set xs = set ys"
  by (metis set_mset_mset)

lemma split_append_snoc:
  "xs @ [e] = pre @ x # post \<Longrightarrow>
     (post = [] \<and> x = e \<and> pre = xs) \<or> (\<exists>post'. post = post' @ [e] \<and> xs = pre @ x # post')"
  by (cases post rule: rev_cases) auto

lemma find_SomeD: "find P xs = Some x \<Longrightarrow> x \<in> set xs \<and> P x"
  by (induction xs) (auto split: if_splits)

lemma find_NoneD: "find P xs = None \<Longrightarrow> x \<in> set xs \<Longrightarrow> \<not> P x"
  by (auto simp: find_None_iff)

lemma map_le_Some: "f \<subseteq>\<^sub>m g \<Longrightarrow> f x = Some y \<Longrightarrow> g x = Some y"
  by (metis domI map_le_def)

end
