(* ===== verification/Objects.thy ===== *)
theory Objects
  imports Prelude
begin

text \<open>
  The Kubernetes object model the provider works on, as far as its code looks at it: the
  dynamic Go type of an object, its GroupVersionKind, its metadata, and the values that
  travel through informers as \<open>any\<close>. The functions of third-party packages the program
  calls are the fields of the record \<open>kcp_lib\<close>, an argument of the definitions that use
  them.
\<close>

section \<open>Types and metadata\<close>

text \<open>\<open>schema.GroupVersionKind\<close>.\<close>

record gvk =
  Group :: string
  Version :: string
  Kind :: string

text \<open>
  The dynamic Go type of a runtime object. The code tells apart the unstructured types
  (both implement \<open>runtime.Unstructured\<close>), the metadata-only types of
  \<open>metav1\<close>, and every other pointer type, which is named by its type string.
\<close>

datatype go_type =
    UnstructuredT
  | UnstructuredListT
  | PartialObjectMetadataT
  | PartialObjectMetadataListT
  | TypedT string

text \<open>\<open>apimeta.RESTScopeName\<close>: namespaced or root (cluster) scoped.\<close>

datatype scope = NamespaceScope | RootScope

text \<open>The part of \<open>metav1.ObjectMeta\<close> the program reads.\<close>

record objmeta =
  mname :: string
  mnamespace :: string
  mlabels :: "string \<rightharpoonup> string"
  mannotations :: "string \<rightharpoonup> string"

text \<open>
  A \<open>runtime.Object\<close>: its type, its TypeMeta, the object metadata where the type has some
  (then it is a \<open>client.Object\<close>), and the remaining content.
\<close>

record object =
  otype :: go_type
  ogvk :: gvk
  ometa :: "objmeta option"
  odata :: string

text \<open>A \<open>client.ObjectList\<close>.\<close>

record objlist =
  ltype :: go_type
  lgvk :: gvk
  litems :: "object list"

text \<open>
  A value of type \<open>any\<close> handed out by an informer or an indexer, by the interfaces it
  implements: a runtime object, bare metadata (\<open>*metav1.ObjectMeta\<close>, a \<open>metav1.Object\<close> that
  is no runtime object), the tombstone \<open>DeletedFinalStateUnknown\<close> with its key and object,
  or a value of any other type.
\<close>

datatype any =
    Obj object
  | Meta objmeta
  | Tombstone string any
  | Other string

text \<open>The type assertions \<open>x.(runtime.Object)\<close> and \<open>x.(client.Object)\<close>.\<close>

fun as_runtime_Object :: "any \<Rightarrow> object option" where
  "as_runtime_Object (Obj o1) = Some o1"
| "as_runtime_Object (Meta m) = None"
| "as_runtime_Object (Tombstone k a) = None"
| "as_runtime_Object (Other s) = None"

text \<open>The metadata of a value that is a \<open>client.Object\<close>, \<open>None\<close> where the assertion fails.\<close>

fun as_client_Object :: "any \<Rightarrow> objmeta option" where
  "as_client_Object (Obj o1) = ometa o1"
| "as_client_Object (Meta m) = None"
| "as_client_Object (Tombstone k a) = None"
| "as_client_Object (Other s) = None"

text \<open>
  \<open>meta.Accessor\<close>: the metadata of a value that implements \<open>metav1.Object\<close>, an error for
  every other value.
\<close>

definition errNotObject :: go_error where
  "errNotObject = External ''object does not implement the Object interfaces''"

fun Accessor :: "any \<Rightarrow> objmeta outcome" where
  "Accessor (Obj o1) = (case ometa o1 of Some m \<Rightarrow> Ok m | None \<Rightarrow> Err errNotObject)"
| "Accessor (Meta m) = Ok m"
| "Accessor (Tombstone k a) = Err errNotObject"
| "Accessor (Other s) = Err errNotObject"

lemma Accessor_client [simp]: "as_client_Object a = Some m \<Longrightarrow> Accessor a = Ok m"
  by (cases a) auto

lemma as_client_ObjectD: "as_client_Object a = Some m \<Longrightarrow> \<exists>o1. a = Obj o1 \<and> ometa o1 = Some m"
  by (cases a) auto

lemma Accessor_no_panic: "\<not> panics (Accessor a)"
  by (cases a) (auto split: option.splits)

section \<open>Third-party functions\<close>

text \<open>
  What the code calls outside its own repository and the Go standard library, as a record
  of functions. \<open>lc_From\<close> is \<open>logicalcluster.From\<close>, the logical cluster an object lives in
  (\<open>logicalcluster.Name\<close> is a string type, so names are strings and \<open>Empty\<close> compares with
  the empty one); \<open>lc_RequestPath\<close> is \<open>Name.Path().RequestPath()\<close>. The three index names
  are the constants of kcp's and client-go's cache packages, and \<open>kc_ClusterIndexKey\<close>,
  \<open>kc_ClusterAndNamespaceIndexKey\<close> the key functions of kcp's cache package (the program
  has its own copies of these two beside them). \<open>apimeta_SetList\<close> stores items in a list.
\<close>

record kcp_lib =
  lc_From :: "objmeta \<Rightarrow> string"
  lc_RequestPath :: "string \<Rightarrow> string"
  ClusterIndexName :: string
  ClusterAndNamespaceIndexName :: string
  NamespaceIndex :: string
  kc_ClusterIndexKey :: "string \<Rightarrow> string"
  kc_ClusterAndNamespaceIndexKey :: "string \<Rightarrow> string \<Rightarrow> string"
  apimeta_SetList :: "objlist \<Rightarrow> object list \<Rightarrow> objlist outcome"

text \<open>
  The documented behaviour of these functions: a hypothesis of the theorems that need it.
  \<open>documented_lib\<close> is a concrete record that satisfies it, used by the witnesses.
\<close>

definition lib_ok :: "kcp_lib \<Rightarrow> bool" where
  "lib_ok L \<longleftrightarrow>
     ClusterIndexName L \<noteq> ClusterAndNamespaceIndexName L \<and>
     kc_ClusterIndexKey L = (\<lambda>c. c) \<and>
     kc_ClusterAndNamespaceIndexKey L = (\<lambda>c ns. c @ ''/'' @ ns) \<and>
     apimeta_SetList L = (\<lambda>out xs. Ok (out\<lparr>litems := xs\<rparr>))"

definition annotation_From :: "objmeta \<Rightarrow> string" where
  "annotation_From m = (case mannotations m ''kcp.io/cluster'' of Some c \<Rightarrow> c | None \<Rightarrow> '''')"

definition documented_lib :: kcp_lib where
  "documented_lib =
     \<lparr>lc_From = annotation_From,
      lc_RequestPath = (\<lambda>c. ''/clusters/'' @ c),
      ClusterIndexName = ''cluster'',
      ClusterAndNamespaceIndexName = ''cluster-and-namespace'',
      NamespaceIndex = ''namespace'',
      kc_ClusterIndexKey = (\<lambda>c. c),
      kc_ClusterAndNamespaceIndexKey = (\<lambda>c ns. c @ ''/'' @ ns),
      apimeta_SetList = (\<lambda>out xs. Ok (out\<lparr>litems := xs\<rparr>))\<rparr>"

lemma documented_lib_ok: "lib_ok documented_lib"
  by (simp add: lib_ok_def documented_lib_def)

lemma documented_lib_sel [simp]:
  "lc_From documented_lib = annotation_From"
  "lc_RequestPath documented_lib = (\<lambda>c. ''/clusters/'' @ c)"
  "ClusterIndexName documented_lib = ''cluster''"
  "ClusterAndNamespaceIndexName documented_lib = ''cluster-and-namespace''"
  "NamespaceIndex documented_lib = ''namespace''"
  "kc_ClusterIndexKey documented_lib = (\<lambda>c. c)"
  "kc_ClusterAndNamespaceIndexKey documented_lib = (\<lambda>c ns. c @ ''/'' @ ns)"
  "apimeta_SetList documented_lib = (\<lambda>out xs. Ok (out\<lparr>litems := xs\<rparr>))"
  by (simp_all add: documented_lib_def)

section \<open>Sample objects\<close>

text \<open>A ConfigMap of a logical cluster, as the witnesses use it.\<close>

definition configmap_gvk :: gvk where
  "configmap_gvk = \<lparr>Group = '''', Version = ''v1'', Kind = ''ConfigMap''\<rparr>"

definition sample_meta :: "string \<Rightarrow> string \<Rightarrow> string \<Rightarrow> objmeta" where
  "sample_meta c ns n =
     \<lparr>mname = n, mnamespace = ns, mlabels = Map.empty,
      mannotations = [''kcp.io/cluster'' \<mapsto> c]\<rparr>"

definition sample_object :: "string \<Rightarrow> string \<Rightarrow> string \<Rightarrow> object" where
  "sample_object c ns n =
     \<lparr>otype = TypedT ''*v1.ConfigMap'', ogvk = configmap_gvk,
      ometa = Some (sample_meta c ns n), odata = ''''\<rparr>"

lemma sample_From [simp]: "annotation_From (sample_meta c ns n) = c"
  by (simp add: annotation_From_def sample_meta_def)

lemma sample_object_meta [simp]: "ometa (sample_object c ns n) = Some (sample_meta c ns n)"
  by (simp add: sample_object_def)

end
