(* ===== verification/Index_Keys.thy ===== *)
theory Index_Keys
  imports Objects
begin

text \<open>
  The string keys of the cache and the functions that compute them: the index functions and
  index keys of \<open>virtualworkspace/indexes.go\<close> and the key functions at the end of
  \<open>virtualworkspace/forked_cache_reader.go\<close>. A key packs a cluster, a namespace and a name
  (or an indexed value) into one string; \<open>key_codec\<close> is the law that makes such a packing
  usable as a lookup key, and each packing of the program is an interpretation of it, with
  the names for which it is reversible as its domain.
\<close>

section \<open>indexes.go\<close>

definition ClusterIndexKey :: "string \<Rightarrow> string" where
  "ClusterIndexKey clusterName = clusterName"

definition ClusterIndexFunc :: "kcp_lib \<Rightarrow> any \<Rightarrow> string list outcome" where
  "ClusterIndexFunc L obj =
     (case Accessor obj of
        Err err \<Rightarrow> Err (Wrapf ''object has no meta: %w'' [] err)
      | Panic p \<Rightarrow> Panic p
      | Ok meta \<Rightarrow> Ok [ClusterIndexKey (lc_From L meta)])"

definition ClusterAndNamespaceIndexKey :: "string \<Rightarrow> string \<Rightarrow> string" where
  "ClusterAndNamespaceIndexKey clusterName namespace = clusterName @ ''/'' @ namespace"

definition ClusterAndNamespaceIndexFunc :: "kcp_lib \<Rightarrow> any \<Rightarrow> string list outcome" where
  "ClusterAndNamespaceIndexFunc L obj =
     (case Accessor obj of
        Err err \<Rightarrow> Err (Wrapf ''object has no meta: %w'' [] err)
      | Panic p \<Rightarrow> Panic p
      | Ok meta \<Rightarrow> Ok [ClusterAndNamespaceIndexKey (lc_From L meta) (mnamespace meta)])"

section \<open>Keys of the forked cache reader\<close>

text \<open>\<open>client.ObjectKey\<close>, a namespaced name.\<close>

record object_key =
  knamespace :: string
  kname :: string

definition objectKeyToStoreKey :: "object_key \<Rightarrow> string" where
  "objectKeyToStoreKey k =
     (if knamespace k = '''' then kname k else knamespace k @ ''/'' @ kname k)"

definition fieldIndexName :: "string \<Rightarrow> string" where
  "fieldIndexName field = ''field:'' @ field"

definition allNamespacesNamespace :: string where
  "allNamespacesNamespace = ''__all_namespaces''"

definition keyToNamespacedKey :: "string \<Rightarrow> string \<Rightarrow> string" where
  "keyToNamespacedKey ns baseKey =
     (if ns \<noteq> '''' then ns @ ''/'' @ baseKey
      else allNamespacesNamespace @ ''/'' @ baseKey)"

definition keyToClusteredKey :: "string \<Rightarrow> string \<Rightarrow> string \<Rightarrow> string" where
  "keyToClusteredKey clusterName ns baseKey = clusterName @ ''|'' @ keyToNamespacedKey ns baseKey"

text \<open>The store key of an object in a cluster-aware cache, as \<open>cacheReader.Get\<close> builds it.\<close>

definition clusteredStoreKey :: "string \<Rightarrow> object_key \<Rightarrow> string" where
  "clusteredStoreKey clusterName k = clusterName @ ''|'' @ objectKeyToStoreKey k"

section \<open>Reversible keys\<close>

locale key_codec =
  fixes enc :: "'a \<Rightarrow> string"
    and dec :: "string \<Rightarrow> 'a option"
    and dom_ok :: "'a \<Rightarrow> bool"
  assumes dec_enc: "dom_ok x \<Longrightarrow> dec (enc x) = Some x"
begin

lemma enc_inj: "dom_ok x \<Longrightarrow> dom_ok y \<Longrightarrow> enc x = enc y \<Longrightarrow> x = y"
  by (metis dec_enc option.inject)

lemma enc_inj_on: "inj_on enc (Collect dom_ok)"
  by (rule inj_onI) (auto intro: enc_inj)

lemma enc_eq_iff: "dom_ok x \<Longrightarrow> dom_ok y \<Longrightarrow> enc x = enc y \<longleftrightarrow> x = y"
  by (rule iffI, rule enc_inj) simp_all

end

text \<open>Cutting a string at the first occurrence of a separator (\<open>strings.Cut\<close>).\<close>

definition cut :: "char \<Rightarrow> string \<Rightarrow> (string \<times> string) option" where
  "cut c s = (case dropWhile (\<lambda>x. x \<noteq> c) s of
                [] \<Rightarrow> None
              | _ # rest \<Rightarrow> Some (takeWhile (\<lambda>x. x \<noteq> c) s, rest))"

lemma cut_sep [simp]: "c \<notin> set xs \<Longrightarrow> cut c (xs @ c # ys) = Some (xs, ys)"
  by (simp add: cut_def)

lemma cut_none [simp]: "c \<notin> set xs \<Longrightarrow> cut c xs = None"
  by (simp add: cut_def)

text \<open>Names for which the packings are reversible.\<close>

definition cluster_name_ok :: "string \<Rightarrow> bool" where
  "cluster_name_ok c \<longleftrightarrow> c \<noteq> '''' \<and> CHR ''/'' \<notin> set c \<and> CHR ''|'' \<notin> set c"

definition namespace_ok :: "string \<Rightarrow> bool" where
  "namespace_ok ns \<longleftrightarrow> CHR ''/'' \<notin> set ns \<and> ns \<noteq> allNamespacesNamespace"

definition object_key_ok :: "object_key \<Rightarrow> bool" where
  "object_key_ok k \<longleftrightarrow>
     CHR ''/'' \<notin> set (knamespace k) \<and> (knamespace k = '''' \<longrightarrow> CHR ''/'' \<notin> set (kname k))"

definition decStoreKey :: "string \<Rightarrow> object_key option" where
  "decStoreKey s =
     (case cut (CHR ''/'') s of
        None \<Rightarrow> Some \<lparr>knamespace = '''', kname = s\<rparr>
      | Some (ns, n) \<Rightarrow> Some \<lparr>knamespace = ns, kname = n\<rparr>)"

definition decNamespacedKey :: "string \<Rightarrow> (string \<times> string) option" where
  "decNamespacedKey s =
     map_option (\<lambda>(p, k). (if p = allNamespacesNamespace then '''' else p, k))
       (cut (CHR ''/'') s)"

definition decClusteredKey :: "string \<Rightarrow> (string \<times> string \<times> string) option" where
  "decClusteredKey s =
     (case cut (CHR ''|'') s of
        None \<Rightarrow> None
      | Some (c, r) \<Rightarrow> map_option (\<lambda>(ns, k). (c, ns, k)) (decNamespacedKey r))"

definition decClusteredStoreKey :: "string \<Rightarrow> (string \<times> object_key) option" where
  "decClusteredStoreKey s =
     (case cut (CHR ''|'') s of
        None \<Rightarrow> None
      | Some (c, r) \<Rightarrow> map_option (\<lambda>k. (c, k)) (decStoreKey r))"

lemma slash_allNamespaces [simp]: "CHR ''/'' \<notin> set allNamespacesNamespace"
  by (simp add: allNamespacesNamespace_def)

lemma decStoreKey_enc: "object_key_ok k \<Longrightarrow> decStoreKey (objectKeyToStoreKey k) = Some k"
  by (auto simp: object_key_ok_def decStoreKey_def objectKeyToStoreKey_def)

lemma decNamespacedKey_enc:
  "namespace_ok ns \<Longrightarrow> decNamespacedKey (keyToNamespacedKey ns k) = Some (ns, k)"
  by (auto simp: namespace_ok_def decNamespacedKey_def keyToNamespacedKey_def)

interpretation store_key: key_codec objectKeyToStoreKey decStoreKey object_key_ok
  by unfold_locales (rule decStoreKey_enc)

interpretation ns_key: key_codec "\<lambda>(ns, k). keyToNamespacedKey ns k" decNamespacedKey
    "\<lambda>(ns, k). namespace_ok ns"
  by unfold_locales (auto simp: decNamespacedKey_enc)

interpretation cluster_key: key_codec ClusterIndexKey Some "\<lambda>_. True"
  by unfold_locales (simp add: ClusterIndexKey_def)

interpretation cluster_ns_key: key_codec "\<lambda>(c, ns). ClusterAndNamespaceIndexKey c ns"
    "cut (CHR ''/'')" "\<lambda>(c, ns). cluster_name_ok c"
  by unfold_locales (auto simp: ClusterAndNamespaceIndexKey_def cluster_name_ok_def)

interpretation clustered_key: key_codec "\<lambda>(c, ns, k). keyToClusteredKey c ns k" decClusteredKey
    "\<lambda>(c, ns, k). cluster_name_ok c \<and> namespace_ok ns"
  by unfold_locales
    (auto simp: keyToClusteredKey_def decClusteredKey_def cluster_name_ok_def decNamespacedKey_enc)

interpretation clustered_store_key: key_codec "\<lambda>(c, k). clusteredStoreKey c k"
    decClusteredStoreKey "\<lambda>(c, k). cluster_name_ok c \<and> object_key_ok k"
  by unfold_locales
    (auto simp: clusteredStoreKey_def decClusteredStoreKey_def cluster_name_ok_def decStoreKey_enc)

section \<open>Scope indexes\<close>

type_synonym index_fn = "any \<Rightarrow> string list outcome"
type_synonym indexers = "string \<rightharpoonup> index_fn"

text \<open>Whether an index function files a stored value under an indexed value.\<close>

definition files_under :: "index_fn \<Rightarrow> string \<Rightarrow> any \<Rightarrow> bool" where
  "files_under f v a \<longleftrightarrow> (case f a of Ok vs \<Rightarrow> v \<in> set vs | _ \<Rightarrow> False)"

lemma files_under_Ok: "f a = Ok vs \<Longrightarrow> files_under f v a \<longleftrightarrow> v \<in> set vs"
  by (simp add: files_under_def)

text \<open>
  An index over a scope (the cluster of an object, or its cluster and namespace): the index
  function files an object with metadata under one key, the key of its scope, and distinct
  scopes have distinct keys. This is what the cache reader relies on when it lists by
  cluster or by namespace.
\<close>

locale scope_index = key_codec +
  fixes indexFn :: "any \<Rightarrow> string list outcome"
    and scopeOf :: "objmeta \<Rightarrow> 'a"
  assumes index_Ok: "Accessor a = Ok m \<Longrightarrow> indexFn a = Ok [enc (scopeOf m)]"
    and index_Err: "Accessor a = Err e \<Longrightarrow> \<exists>e'. indexFn a = Err e'"
begin

lemma index_single: "indexFn a = Ok vs \<Longrightarrow> \<exists>m. Accessor a = Ok m \<and> vs = [enc (scopeOf m)]"
  using index_Ok index_Err Accessor_no_panic [of a] by (cases "Accessor a") fastforce+

lemma index_hit:
  "Accessor a = Ok m \<Longrightarrow> dom_ok s \<Longrightarrow> dom_ok (scopeOf m) \<Longrightarrow>
   files_under indexFn (enc s) a \<longleftrightarrow> scopeOf m = s"
  by (auto simp: index_Ok enc_eq_iff files_under_def)

end

interpretation cluster_ix: scope_index ClusterIndexKey Some "\<lambda>_. True"
    "ClusterIndexFunc L" "lc_From L" for L
  by unfold_locales (auto simp: ClusterIndexFunc_def)

interpretation cluster_ns_ix: scope_index "\<lambda>(c, ns). ClusterAndNamespaceIndexKey c ns"
    "cut (CHR ''/'')" "\<lambda>(c, ns). cluster_name_ok c"
    "ClusterAndNamespaceIndexFunc L" "\<lambda>m. (lc_From L m, mnamespace m)" for L
  by unfold_locales (auto simp: ClusterAndNamespaceIndexFunc_def)

section \<open>Correctness of the keys\<close>

text \<open>
  The two index functions against the keys the readers look up: kcp's key functions,
  with which \<open>List\<close> searches, give exactly the one value under which the functions of
  \<open>indexes.go\<close> file an object, and an object is found under the keys of no other cluster, or
  cluster and namespace. Both functions fail exactly on values without metadata.
\<close>

lemma index_functions_agree:
  assumes "lib_ok L"
  shows "(case Accessor a of
      Ok m \<Rightarrow>
        ClusterIndexFunc L a = Ok [kc_ClusterIndexKey L (lc_From L m)] \<and>
        ClusterAndNamespaceIndexFunc L a =
          Ok [kc_ClusterAndNamespaceIndexKey L (lc_From L m) (mnamespace m)] \<and>
        (\<forall>c ns. cluster_name_ok c \<and> cluster_name_ok (lc_From L m) \<longrightarrow>
           (files_under (ClusterIndexFunc L) (kc_ClusterIndexKey L c) a \<longleftrightarrow> lc_From L m = c) \<and>
           (files_under (ClusterAndNamespaceIndexFunc L) (kc_ClusterAndNamespaceIndexKey L c ns) a \<longleftrightarrow>
              lc_From L m = c \<and> mnamespace m = ns))
    | Err e \<Rightarrow> ClusterIndexFunc L a = Err (Wrapf ''object has no meta: %w'' [] e) \<and>
               ClusterAndNamespaceIndexFunc L a = Err (Wrapf ''object has no meta: %w'' [] e)
    | Panic p \<Rightarrow> False)"
proof (cases "Accessor a")
  case (Ok m)
  have keys: "kc_ClusterIndexKey L c = ClusterIndexKey c"
    "kc_ClusterAndNamespaceIndexKey L c ns = ClusterAndNamespaceIndexKey c ns" for c ns
    using assms by (simp_all add: lib_ok_def ClusterIndexKey_def ClusterAndNamespaceIndexKey_def)
  show ?thesis
    using cluster_ix.index_Ok [OF Ok, of L] cluster_ix.index_hit [OF Ok, where L = L]
      cluster_ns_ix.index_Ok [OF Ok, of L]
      cluster_ns_ix.index_hit [OF Ok, where L = L and s = "(c, ns)" for c ns]
    by (simp add: Ok keys)
next
  case (Err e)
  then show ?thesis by (simp add: ClusterIndexFunc_def ClusterAndNamespaceIndexFunc_def)
next
  case (Panic p)
  then show ?thesis using Accessor_no_panic [of a] by simp
qed

lemma index_functions_agree_witness:
  "ClusterAndNamespaceIndexFunc documented_lib (Obj (sample_object ''c1'' ''default'' ''cm'')) = Ok [''c1/default'']"
  using index_functions_agree [OF documented_lib_ok, of "Obj (sample_object ''c1'' ''default'' ''cm'')"]
  by (simp add: sample_meta_def annotation_From_def)

text \<open>
  C33. The composite keys of the cache are reversible, so no two of them collide: for cluster
  names without slash or bar, the field index key determines cluster, namespace (all
  namespaces included) and value, the store key determines cluster, namespace and name, and
  the cluster-and-namespace key determines both its parts.
\<close>

theorem cache_keys_injective:
  assumes "cluster_name_ok c1" and "cluster_name_ok c2"
  shows "(namespace_ok ns1 \<and> namespace_ok ns2 \<longrightarrow>
      keyToClusteredKey c1 ns1 v1 = keyToClusteredKey c2 ns2 v2 \<longleftrightarrow> c1 = c2 \<and> ns1 = ns2 \<and> v1 = v2) \<and>
    (object_key_ok k1 \<and> object_key_ok k2 \<longrightarrow>
      clusteredStoreKey c1 k1 = clusteredStoreKey c2 k2 \<longleftrightarrow> c1 = c2 \<and> k1 = k2) \<and>
    (ClusterAndNamespaceIndexKey c1 n1 = ClusterAndNamespaceIndexKey c2 n2 \<longleftrightarrow> c1 = c2 \<and> n1 = n2)"
  using clustered_key.enc_eq_iff [of "(c1, ns1, v1)" "(c2, ns2, v2)"]
    clustered_store_key.enc_eq_iff [of "(c1, k1)" "(c2, k2)"]
    cluster_ns_key.enc_eq_iff [of "(c1, n1)" "(c2, n2)"] assms
  by auto

theorem cache_keys_injective_witness:
  "keyToClusteredKey ''c1'' '''' ''v'' \<noteq> keyToClusteredKey ''c1'' ''default'' ''v''"
  using cache_keys_injective [of "''c1''" "''c1''" "''''" "''default''" "''v''" "''v''"]
  by (simp add: cluster_name_ok_def namespace_ok_def allNamespacesNamespace_def)

end
