(* ===== verification/Indexer.thy ===== *)
theory Indexer
  imports Index_Keys
begin

text \<open>
  client-go's \<open>cache.Indexer\<close>, the store every reader of the program works on. It is
  third-party code: a Go interface value, hence a record of its methods that is an argument
  of the model, with its documented behaviour as the predicate \<open>indexer_ok\<close> over the stored
  items. \<open>snapshot_indexer\<close> computes those documented answers from a list of items; it
  instantiates the parameter in the witnesses.
\<close>

text \<open>The methods the program calls; \<open>GetByKey\<close> answers \<open>Ok None\<close> where \<open>exists\<close> is false.\<close>

record indexer =
  GetIndexers :: indexers
  GetByKey :: "string \<Rightarrow> any option outcome"
  ByIndex :: "string \<Rightarrow> string \<Rightarrow> any list outcome"
  IndexKeys :: "string \<Rightarrow> string \<Rightarrow> string list outcome"
  ListAll :: "any list"

text \<open>
  What client-go documents of an indexer that holds \<open>items\<close> (keys with values): keys are
  unique; \<open>GetByKey\<close> looks a key up; \<open>List\<close> returns every value, in no particular order;
  \<open>ByIndex\<close> and \<open>IndexKeys\<close> fail for an index that is not registered and otherwise return
  the values (the keys) whose index values include the given one, in no particular order;
  the index functions succeeded on every stored value, since a store whose index function
  fails panics when the value is inserted.
\<close>

definition indexer_ok :: "indexer \<Rightarrow> (string \<times> any) list \<Rightarrow> bool" where
  "indexer_ok ix items \<longleftrightarrow>
     distinct (map fst items) \<and>
     (\<forall>k. GetByKey ix k = Ok (map_of items k)) \<and>
     mset (ListAll ix) = mset (map snd items) \<and>
     (\<forall>n v. GetIndexers ix n = None \<longrightarrow>
        (\<exists>e. ByIndex ix n v = Err e) \<and> (\<exists>e. IndexKeys ix n v = Err e)) \<and>
     (\<forall>n f v. GetIndexers ix n = Some f \<longrightarrow>
        (\<exists>xs. ByIndex ix n v = Ok xs \<and>
              mset xs = mset (filter (files_under f v) (map snd items))) \<and>
        (\<exists>ks. IndexKeys ix n v = Ok ks \<and>
              mset ks = mset (map fst (filter (\<lambda>(k, a). files_under f v a) items)))) \<and>
     (\<forall>n f. GetIndexers ix n = Some f \<longrightarrow> (\<forall>(k, a) \<in> set items. is_Ok (f a)))"

lemma indexer_ok_GetByKey: "indexer_ok ix items \<Longrightarrow> GetByKey ix k = Ok (map_of items k)"
  by (simp add: indexer_ok_def)

lemma indexer_ok_distinct: "indexer_ok ix items \<Longrightarrow> distinct (map fst items)"
  by (simp add: indexer_ok_def)

lemma indexer_ok_ListAll: "indexer_ok ix items \<Longrightarrow> mset (ListAll ix) = mset (map snd items)"
  by (simp add: indexer_ok_def)

lemma indexer_ok_ByIndex:
  "indexer_ok ix items \<Longrightarrow> GetIndexers ix n = Some f \<Longrightarrow>
   \<exists>xs. ByIndex ix n v = Ok xs \<and> mset xs = mset (filter (files_under f v) (map snd items))"
  by (simp add: indexer_ok_def)

lemma indexer_ok_ByIndex_None:
  "indexer_ok ix items \<Longrightarrow> GetIndexers ix n = None \<Longrightarrow> \<exists>e. ByIndex ix n v = Err e"
  by (simp add: indexer_ok_def)

lemma indexer_ok_IndexKeys:
  "indexer_ok ix items \<Longrightarrow> GetIndexers ix n = Some f \<Longrightarrow>
   \<exists>ks. IndexKeys ix n v = Ok ks \<and>
        mset ks = mset (map fst (filter (\<lambda>(k, a). files_under f v a) items))"
  by (simp add: indexer_ok_def)

lemma indexer_ok_index_Ok:
  "indexer_ok ix items \<Longrightarrow> GetIndexers ix n = Some f \<Longrightarrow> a \<in> snd ` set items \<Longrightarrow> \<exists>vs. f a = Ok vs"
  unfolding indexer_ok_def by (fastforce dest: is_OkE)

section \<open>A store computed from its items\<close>

definition snapshot_indexer :: "indexers \<Rightarrow> (string \<times> any) list \<Rightarrow> indexer" where
  "snapshot_indexer fns items =
     \<lparr>GetIndexers = fns,
      GetByKey = (\<lambda>k. Ok (map_of items k)),
      ByIndex = (\<lambda>n v. case fns n of
          None \<Rightarrow> Err (Errorf ''Index with name %s does not exist'' [n])
        | Some f \<Rightarrow> Ok (filter (files_under f v) (map snd items))),
      IndexKeys = (\<lambda>n v. case fns n of
          None \<Rightarrow> Err (Errorf ''Index with name %s does not exist'' [n])
        | Some f \<Rightarrow> Ok (map fst (filter (\<lambda>(k, a). files_under f v a) items))),
      ListAll = map snd items\<rparr>"

lemma snapshot_sel [simp]:
  "GetIndexers (snapshot_indexer fns items) = fns"
  "GetByKey (snapshot_indexer fns items) k = Ok (map_of items k)"
  "ListAll (snapshot_indexer fns items) = map snd items"
  by (simp_all add: snapshot_indexer_def)

lemma snapshot_indexer_ok:
  assumes "distinct (map fst items)"
    and "\<And>n f k a. fns n = Some f \<Longrightarrow> (k, a) \<in> set items \<Longrightarrow> is_Ok (f a)"
  shows "indexer_ok (snapshot_indexer fns items) items"
  using assms unfolding indexer_ok_def by (auto simp: snapshot_indexer_def)

section \<open>Stores of the wildcard cache\<close>

text \<open>
  The two indexers \<open>NewWildcardCache\<close> adds to every informer it makes
  (\<open>wildcard.go\<close>, lines 92 to 95).
\<close>

definition cluster_indexers :: "kcp_lib \<Rightarrow> indexers" where
  "cluster_indexers L =
     [ClusterIndexName L \<mapsto> ClusterIndexFunc L,
      ClusterAndNamespaceIndexName L \<mapsto> ClusterAndNamespaceIndexFunc L]"

text \<open>A store whose indexers include those two.\<close>

definition cluster_aware :: "kcp_lib \<Rightarrow> indexer \<Rightarrow> bool" where
  "cluster_aware L ix \<longleftrightarrow>
     GetIndexers ix (ClusterIndexName L) = Some (ClusterIndexFunc L) \<and>
     GetIndexers ix (ClusterAndNamespaceIndexName L) = Some (ClusterAndNamespaceIndexFunc L)"

lemma cluster_aware_snapshot:
  "lib_ok L \<Longrightarrow> cluster_aware L (snapshot_indexer (cluster_indexers L) items)"
  by (simp add: cluster_aware_def cluster_indexers_def lib_ok_def)

text \<open>
  The key under which kcp's informers store an object is its cluster, a bar, and the usual
  namespace and name. A store of API objects keeps that law: every stored value is a
  \<open>client.Object\<close>, filed under the key of its cluster, namespace and name, and its names
  are names Kubernetes admits.
\<close>

definition meta_key :: "objmeta \<Rightarrow> object_key" where
  "meta_key m = \<lparr>knamespace = mnamespace m, kname = mname m\<rparr>"

definition well_keyed :: "kcp_lib \<Rightarrow> (string \<times> any) list \<Rightarrow> bool" where
  "well_keyed L items \<longleftrightarrow>
     (\<forall>(k, a) \<in> set items.
        case as_client_Object a of
          None \<Rightarrow> False
        | Some m \<Rightarrow> k = clusteredStoreKey (lc_From L m) (meta_key m) \<and>
                    cluster_name_ok (lc_From L m) \<and> object_key_ok (meta_key m))"

lemma well_keyedD:
  assumes "well_keyed L items" and "(k, a) \<in> set items"
  shows "\<exists>ob m. a = Obj ob \<and> ometa ob = Some m \<and>
           k = clusteredStoreKey (lc_From L m) (meta_key m) \<and>
           cluster_name_ok (lc_From L m) \<and> object_key_ok (meta_key m)"
  using assms by (fastforce simp: well_keyed_def split: option.splits dest: as_client_ObjectD)

lemma well_keyed_client:
  "well_keyed L items \<Longrightarrow> a \<in> snd ` set items \<Longrightarrow> \<exists>ob m. a = Obj ob \<and> ometa ob = Some m"
  using well_keyedD by fastforce

lemma well_keyed_index_Ok:
  assumes "well_keyed L items" and "(k, a) \<in> set items"
  shows "is_Ok (ClusterIndexFunc L a)" and "is_Ok (ClusterAndNamespaceIndexFunc L a)"
  using well_keyedD [OF assms] by (auto simp: ClusterIndexFunc_def ClusterAndNamespaceIndexFunc_def)

lemma cluster_snapshot_ok:
  assumes "well_keyed L items" and "distinct (map fst items)"
  shows "indexer_ok (snapshot_indexer (cluster_indexers L) items) items"
  using assms
  by (intro snapshot_indexer_ok)
    (auto simp: cluster_indexers_def split: if_splits intro: well_keyed_index_Ok)

text \<open>What the two scope indexes say of an object of a well-keyed store.\<close>

lemma files_under_cluster:
  assumes "as_client_Object a = Some m"
  shows "files_under (ClusterIndexFunc L) c a \<longleftrightarrow> lc_From L m = c"
  using cluster_ix.index_hit [where a = a and m = m and s = c and L = L] Accessor_client [OF assms]
  by (simp add: ClusterIndexKey_def)

lemma files_under_cluster_ns:
  assumes "as_client_Object a = Some m" and "cluster_name_ok c" and "cluster_name_ok (lc_From L m)"
  shows "files_under (ClusterAndNamespaceIndexFunc L) (ClusterAndNamespaceIndexKey c ns) a \<longleftrightarrow>
         lc_From L m = c \<and> mnamespace m = ns"
  using assms(2,3) cluster_ns_ix.index_hit [where a = a and m = m and s = "(c, ns)" and L = L] Accessor_client [OF assms(1)]
  by simp

text \<open>A store with one ConfigMap in each of two clusters, for the witnesses.\<close>

definition sample_item :: "string \<Rightarrow> string \<Rightarrow> string \<Rightarrow> string \<times> any" where
  "sample_item c ns n =
     (clusteredStoreKey c \<lparr>knamespace = ns, kname = n\<rparr>, Obj (sample_object c ns n))"

definition sample_items :: "(string \<times> any) list" where
  "sample_items = [sample_item ''c1'' ''default'' ''cm'', sample_item ''c2'' ''default'' ''cm'']"

definition sample_indexer :: indexer where
  "sample_indexer = snapshot_indexer (cluster_indexers documented_lib) sample_items"

lemma sample_items_ok: "well_keyed documented_lib sample_items" "distinct (map fst sample_items)"
  by (simp_all add: well_keyed_def sample_items_def sample_item_def meta_key_def
      sample_meta_def annotation_From_def clusteredStoreKey_def objectKeyToStoreKey_def
      cluster_name_ok_def object_key_ok_def)

lemma sample_indexer_ok: "indexer_ok sample_indexer sample_items" "cluster_aware documented_lib sample_indexer"
  unfolding sample_indexer_def
  by (rule cluster_snapshot_ok [OF sample_items_ok])
    (rule cluster_aware_snapshot [OF documented_lib_ok])

end
