(* ===== verification/Cache_Reader.thy ===== *)
theory Cache_Reader
  imports Indexer
begin

text \<open>
  The cluster-scoped cache reader of \<open>virtualworkspace/forked_cache_reader.go\<close>: \<open>Get\<close>,
  \<open>List\<close>, \<open>byIndexes\<close> and \<open>requiresExactMatch\<close>. Objects are values here: the write through
  \<open>out\<close> is the returned object, and a deep copy is the object itself. The keys these
  operations build are in \<open>Index_Keys\<close>, the store they read in \<open>Indexer\<close>.
\<close>

section \<open>Options\<close>

text \<open>
  \<open>selection.Operator\<close>: the two operators of an exact match, and every other one.
\<close>

datatype operator = Equals | DoubleEquals | OtherOperator string

record requirement =
  req_Operator :: operator
  req_Field :: string
  req_Value :: string

text \<open>
  \<open>client.ListOptions\<close> after \<open>ApplyOptions\<close>. A field selector is seen through its
  \<open>Requirements\<close>, a label selector through \<open>Matches\<close>; the limit is a signed 64-bit count,
  compared with a list length only.
\<close>

record list_options =
  lo_LabelSelector :: "((string \<rightharpoonup> string) \<Rightarrow> bool) option"
  lo_FieldSelector :: "requirement list option"
  lo_Namespace :: string
  lo_Limit :: int
  lo_Continue :: string
  lo_UnsafeDisableDeepCopy :: "bool option"

record cacheReader =
  cr_indexer :: indexer
  cr_gvk :: gvk
  cr_scopeName :: scope
  cr_disableDeepCopy :: bool
  cr_clusterName :: string

text \<open>Type names as \<open>%T\<close> prints them.\<close>

fun go_type_name :: "go_type \<Rightarrow> string" where
  "go_type_name UnstructuredT = ''*unstructured.Unstructured''"
| "go_type_name UnstructuredListT = ''*unstructured.UnstructuredList''"
| "go_type_name PartialObjectMetadataT = ''*v1.PartialObjectMetadata''"
| "go_type_name PartialObjectMetadataListT = ''*v1.PartialObjectMetadataList''"
| "go_type_name (TypedT s) = s"

fun any_type_name :: "any \<Rightarrow> string" where
  "any_type_name (Obj ob) = go_type_name (otype ob)"
| "any_type_name (Meta m) = ''*v1.ObjectMeta''"
| "any_type_name (Tombstone k a) = ''cache.DeletedFinalStateUnknown''"
| "any_type_name (Other s) = s"

section \<open>Get\<close>

text \<open>
  \<open>Type().AssignableTo\<close> between two concrete pointer types is identity of the types.
\<close>

definition cacheReader_Get :: "kcp_lib \<Rightarrow> cacheReader \<Rightarrow> object_key \<Rightarrow> object \<Rightarrow> object outcome" where
  "cacheReader_Get L c key out =
     (let key = (if cr_scopeName c = RootScope then key\<lparr>knamespace := ''''\<rparr> else key);
          storeKey = objectKeyToStoreKey key;
          isClusterAware =
            (GetIndexers (cr_indexer c) (ClusterAndNamespaceIndexName L) \<noteq> None)
      in if isClusterAware \<and> cr_clusterName c = ''''
         then Err (Errorf ''cluster-aware cache requires a cluster in context'' [])
         else
           let storeKey =
                 (if isClusterAware then cr_clusterName c @ ''|'' @ storeKey else storeKey)
           in case GetByKey (cr_indexer c) storeKey of
                Err err \<Rightarrow> Err err
              | Panic p \<Rightarrow> Panic p
              | Ok None \<Rightarrow> Err (NotFound (Group (cr_gvk c)) (Kind (cr_gvk c)) (kname key))
              | Ok (Some obj) \<Rightarrow>
                  (case as_runtime_Object obj of
                     None \<Rightarrow> Err (Errorf ''cache contained %T, which is not an Object''
                                    [any_type_name obj])
                   | Some ob \<Rightarrow>
                       if otype ob \<noteq> otype out
                       then Err (Errorf ''cache had type %s, but %s was asked for''
                                   [go_type_name (otype ob), go_type_name (otype out)])
                       else Ok (if cr_disableDeepCopy c then ob
                                else ob\<lparr>ogvk := cr_gvk c\<rparr>)))"

section \<open>byIndexes\<close>

text \<open>
  The inner loop: the values whose index values include the given one, stopping at the
  first value the index function fails on.
\<close>

fun filter_indexed :: "index_fn \<Rightarrow> string \<Rightarrow> any list \<Rightarrow> any list outcome" where
  "filter_indexed fn indexedValue [] = Ok []"
| "filter_indexed fn indexedValue (obj # objs) =
     (case fn obj of
        Err err \<Rightarrow> Err err
      | Panic p \<Rightarrow> Panic p
      | Ok vals \<Rightarrow>
          (case filter_indexed fn indexedValue objs of
             Ok filteredObjects \<Rightarrow>
               Ok (if indexedValue \<in> set vals then obj # filteredObjects else filteredObjects)
           | Err err \<Rightarrow> Err err
           | Panic p \<Rightarrow> Panic p))"

definition indexed_value :: "kcp_lib \<Rightarrow> indexer \<Rightarrow> string \<Rightarrow> string \<Rightarrow> requirement \<Rightarrow> string" where
  "indexed_value L ix clusterName namespace req =
     (if GetIndexers ix (ClusterAndNamespaceIndexName L) \<noteq> None
      then keyToClusteredKey clusterName namespace (req_Value req)
      else keyToNamespacedKey namespace (req_Value req))"

text \<open>The loop over the requirements; \<open>idx\<close> is the loop index, \<open>objs\<close> the objects so far.\<close>

fun byIndexes_loop ::
  "kcp_lib \<Rightarrow> indexer \<Rightarrow> string \<Rightarrow> string \<Rightarrow> nat \<Rightarrow> requirement list \<Rightarrow> any list \<Rightarrow> any list outcome"
where
  "byIndexes_loop L ix clusterName namespace idx [] objs = Ok objs"
| "byIndexes_loop L ix clusterName namespace idx (req # requires) objs =
     (let indexName = fieldIndexName (req_Field req);
          indexedValue = indexed_value L ix clusterName namespace req
      in if idx = 0 then
           (case ByIndex ix indexName indexedValue of
              Err err \<Rightarrow> Err err
            | Panic p \<Rightarrow> Panic p
            | Ok objs' \<Rightarrow>
                if objs' = [] then Ok []
                else byIndexes_loop L ix clusterName namespace (Suc idx) requires objs')
         else
           (case GetIndexers ix indexName of
              None \<Rightarrow> Err (Errorf ''index with name %s does not exist'' [indexName])
            | Some fn \<Rightarrow>
                (case filter_indexed fn indexedValue objs of
                   Err err \<Rightarrow> Err err
                 | Panic p \<Rightarrow> Panic p
                 | Ok filteredObjects \<Rightarrow>
                     if filteredObjects = [] then Ok []
                     else byIndexes_loop L ix clusterName namespace (Suc idx) requires
                            filteredObjects)))"

definition byIndexes ::
  "kcp_lib \<Rightarrow> indexer \<Rightarrow> requirement list \<Rightarrow> string \<Rightarrow> string \<Rightarrow> any list outcome" where
  "byIndexes L ix requires clusterName namespace =
     byIndexes_loop L ix clusterName namespace 0 requires []"

fun all_exact :: "requirement list \<Rightarrow> bool" where
  "all_exact [] = True"
| "all_exact (req # reqs) =
     (if req_Operator req \<noteq> Equals \<and> req_Operator req \<noteq> DoubleEquals then False
      else all_exact reqs)"

definition requiresExactMatch :: "requirement list \<Rightarrow> bool" where
  "requiresExactMatch reqs = (if length reqs = 0 then False else all_exact reqs)"

section \<open>List\<close>

text \<open>The candidate objects: the switch over the field selector and the namespace.\<close>

definition cacheReader_candidates ::
  "kcp_lib \<Rightarrow> cacheReader \<Rightarrow> list_options \<Rightarrow> any list outcome" where
  "cacheReader_candidates L c lo =
     (let ix = cr_indexer c;
          isClusterAware = (GetIndexers ix (ClusterAndNamespaceIndexName L) \<noteq> None)
      in case lo_FieldSelector lo of
           Some reqs \<Rightarrow>
             if \<not> requiresExactMatch reqs
             then Err (Errorf ''non-exact field matches are not supported by the cache'' [])
             else byIndexes L ix reqs (cr_clusterName c) (lo_Namespace lo)
         | None \<Rightarrow>
             if lo_Namespace lo \<noteq> '''' then
               (if isClusterAware \<and> cr_clusterName c \<noteq> ''''
                then ByIndex ix (ClusterAndNamespaceIndexName L)
                       (kc_ClusterAndNamespaceIndexKey L (cr_clusterName c) (lo_Namespace lo))
                else ByIndex ix (NamespaceIndex L) (lo_Namespace lo))
             else
               (if isClusterAware \<and> cr_clusterName c \<noteq> ''''
                then ByIndex ix (ClusterIndexName L) (kc_ClusterIndexKey L (cr_clusterName c))
                else Ok (ListAll ix)))"

definition skipDeepCopy :: "cacheReader \<Rightarrow> list_options \<Rightarrow> bool" where
  "skipDeepCopy c lo \<longleftrightarrow> cr_disableDeepCopy c \<or> lo_UnsafeDisableDeepCopy lo = Some True"

definition list_output :: "cacheReader \<Rightarrow> list_options \<Rightarrow> object \<Rightarrow> object" where
  "list_output c lo obj = (if skipDeepCopy c lo then obj else obj\<lparr>ogvk := cr_gvk c\<rparr>)"

definition labels_match :: "list_options \<Rightarrow> objmeta \<Rightarrow> bool" where
  "labels_match lo meta =
     (case lo_LabelSelector lo of None \<Rightarrow> True | Some labelSel \<Rightarrow> labelSel (mlabels meta))"

text \<open>The loop over the candidates; \<open>runtimeObjs\<close> are the objects taken so far.\<close>

fun list_loop :: "cacheReader \<Rightarrow> list_options \<Rightarrow> any list \<Rightarrow> object list \<Rightarrow> object list outcome" where
  "list_loop c lo [] runtimeObjs = Ok runtimeObjs"
| "list_loop c lo (item # objs) runtimeObjs =
     (if lo_Limit lo > 0 \<and> int (length runtimeObjs) \<ge> lo_Limit lo then Ok runtimeObjs
      else case as_runtime_Object item of
             None \<Rightarrow> Err (Errorf ''cache contained %T, which is not an Object''
                            [any_type_name item])
           | Some obj \<Rightarrow>
               (case Accessor item of
                  Err err \<Rightarrow> Err err
                | Panic p \<Rightarrow> Panic p
                | Ok meta \<Rightarrow>
                    if \<not> labels_match lo meta then list_loop c lo objs runtimeObjs
                    else list_loop c lo objs (runtimeObjs @ [list_output c lo obj])))"

definition cacheReader_List ::
  "kcp_lib \<Rightarrow> cacheReader \<Rightarrow> objlist \<Rightarrow> list_options \<Rightarrow> objlist outcome" where
  "cacheReader_List L c out lo =
     (if lo_Continue lo \<noteq> ''''
      then Err (Errorf ''continue list option is not supported by the cache'' [])
      else case cacheReader_candidates L c lo of
             Err err \<Rightarrow> Err err
           | Panic p \<Rightarrow> Panic p
           | Ok objs \<Rightarrow>
               (case list_loop c lo objs [] of
                  Err err \<Rightarrow> Err err
                | Panic p \<Rightarrow> Panic p
                | Ok runtimeObjs \<Rightarrow> apimeta_SetList L out runtimeObjs))"

lemmas cache_reader_defs = cacheReader_Get_def byIndexes_def requiresExactMatch_def
  cacheReader_candidates_def cacheReader_List_def list_output_def labels_match_def

section \<open>The store seen by a scoped reader\<close>

text \<open>
  The situation a reader is made for: a cluster-aware store of API objects, read on behalf
  of a named cluster.
\<close>

definition reader_ready :: "kcp_lib \<Rightarrow> cacheReader \<Rightarrow> (string \<times> any) list \<Rightarrow> bool" where
  "reader_ready L c items \<longleftrightarrow>
     indexer_ok (cr_indexer c) items \<and> cluster_aware L (cr_indexer c) \<and>
     well_keyed L items \<and> cluster_name_ok (cr_clusterName c)"

lemma reader_readyD:
  assumes "reader_ready L c items"
  shows "indexer_ok (cr_indexer c) items"
    and "GetIndexers (cr_indexer c) (ClusterIndexName L) = Some (ClusterIndexFunc L)"
    and "GetIndexers (cr_indexer c) (ClusterAndNamespaceIndexName L) =
           Some (ClusterAndNamespaceIndexFunc L)"
    and "well_keyed L items" and "cluster_name_ok (cr_clusterName c)"
    and "cr_clusterName c \<noteq> ''''"
  using assms by (auto simp: reader_ready_def cluster_aware_def cluster_name_ok_def)

definition stored_objects :: "(string \<times> any) list \<Rightarrow> object list" where
  "stored_objects items = List.map_filter (\<lambda>(k, a). as_runtime_Object a) items"

lemma stored_objects_Cons [simp]:
  "stored_objects [] = []"
  "stored_objects ((k, Obj ob) # items) = ob # stored_objects items"
  by (simp_all add: stored_objects_def map_filter_def)

lemma map_filter_runtime [simp]:
  "List.map_filter as_runtime_Object [] = []"
  "List.map_filter as_runtime_Object (Obj ob # objs) = ob # List.map_filter as_runtime_Object objs"
  by (simp_all add: map_filter_def)

definition sample_reader :: cacheReader where
  "sample_reader =
     \<lparr>cr_indexer = sample_indexer, cr_gvk = configmap_gvk, cr_scopeName = NamespaceScope,
      cr_disableDeepCopy = False, cr_clusterName = ''c1''\<rparr>"

lemma sample_reader_ready: "reader_ready documented_lib sample_reader sample_items"
  using sample_indexer_ok sample_items_ok
  by (simp add: reader_ready_def sample_reader_def cluster_name_ok_def)

section \<open>Get\<close>

text \<open>
  What \<open>Get\<close> promises, without keys: the object of the reader's cluster with the requested
  namespace and name.
\<close>

definition in_cluster_at :: "kcp_lib \<Rightarrow> string \<Rightarrow> object_key \<Rightarrow> any \<Rightarrow> bool" where
  "in_cluster_at L c k a \<longleftrightarrow>
     (case as_client_Object a of None \<Rightarrow> False | Some m \<Rightarrow> lc_From L m = c \<and> meta_key m = k)"

definition scoped_lookup :: "kcp_lib \<Rightarrow> (string \<times> any) list \<Rightarrow> string \<Rightarrow> object_key \<Rightarrow> object option" where
  "scoped_lookup L items c k =
     (case find (\<lambda>(_, a). in_cluster_at L c k a) items of
        None \<Rightarrow> None
      | Some (_, a) \<Rightarrow> as_runtime_Object a)"

definition scope_key :: "cacheReader \<Rightarrow> object_key \<Rightarrow> object_key" where
  "scope_key c key = (if cr_scopeName c = RootScope then key\<lparr>knamespace := ''''\<rparr> else key)"

lemma well_keyed_Cons [simp]:
  "well_keyed L ((k, a) # items) \<longleftrightarrow>
     (\<exists>m. as_client_Object a = Some m \<and> k = clusteredStoreKey (lc_From L m) (meta_key m) \<and>
          cluster_name_ok (lc_From L m) \<and> object_key_ok (meta_key m)) \<and>
     well_keyed L items"
  by (auto simp: well_keyed_def split: option.splits)

lemma map_of_store_key:
  assumes "well_keyed L items" and "cluster_name_ok c" and "object_key_ok k"
  shows "map_of items (clusteredStoreKey c k) =
         map_option snd (find (\<lambda>(_, a). in_cluster_at L c k a) items)"
  using assms(1)
proof (induction items)
  case Nil
  then show ?case by simp
next
  case (Cons x items)
  obtain k' a where x: "x = (k', a)" by (cases x)
  with Cons.prems obtain m where m: "as_client_Object a = Some m"
    and k': "k' = clusteredStoreKey (lc_From L m) (meta_key m)"
    and ok: "cluster_name_ok (lc_From L m)" "object_key_ok (meta_key m)"
    and rest: "well_keyed L items"
    by auto
  have "clusteredStoreKey c k = k' \<longleftrightarrow> (c, k) = (lc_From L m, meta_key m)"
    using clustered_store_key.enc_eq_iff [of "(c, k)" "(lc_From L m, meta_key m)"] assms(2,3) ok k'
    by simp
  then have "clusteredStoreKey c k = k' \<longleftrightarrow> in_cluster_at L c k a"
    by (auto simp: in_cluster_at_def m)
  then show ?case using Cons.IH [OF rest] by (auto simp add: x)
qed

lemma scoped_lookup_Some:
  assumes "scoped_lookup L items c k = Some ob"
  shows "\<exists>m. ometa ob = Some m \<and> lc_From L m = c \<and> meta_key m = k \<and> ob \<in> set (stored_objects items)"
proof -
  from assms(1) obtain kk a where f: "find (\<lambda>(_, a). in_cluster_at L c k a) items = Some (kk, a)"
    and a: "as_runtime_Object a = Some ob"
    by (auto simp: scoped_lookup_def split: option.splits)
  then have mem: "(kk, a) \<in> set items" and hit: "in_cluster_at L c k a"
    by (auto dest: find_SomeD)
  from hit obtain m where "as_client_Object a = Some m" "lc_From L m = c" "meta_key m = k"
    by (auto simp: in_cluster_at_def split: option.splits)
  moreover have "a = Obj ob" using a by (cases a) auto
  moreover have "ob \<in> set (stored_objects items)"
    using mem a by (force simp: stored_objects_def map_filter_def)
  ultimately show ?thesis by auto
qed

lemma Get_eq_lookup:
  assumes "reader_ready L c items" and "object_key_ok (scope_key c key)"
  shows "cacheReader_Get L c key out =
    (case scoped_lookup L items (cr_clusterName c) (scope_key c key) of
       None \<Rightarrow> Err (NotFound (Group (cr_gvk c)) (Kind (cr_gvk c)) (kname key))
     | Some ob \<Rightarrow>
         if otype ob \<noteq> otype out
         then Err (Errorf ''cache had type %s, but %s was asked for''
                     [go_type_name (otype ob), go_type_name (otype out)])
         else Ok (if cr_disableDeepCopy c then ob else ob\<lparr>ogvk := cr_gvk c\<rparr>))"
proof -
  note ready = reader_readyD [OF assms(1)]
  let ?k = "scope_key c key"
  let ?P = "\<lambda>(_, a). in_cluster_at L (cr_clusterName c) ?k a"
  have lookup: "GetByKey (cr_indexer c) (cr_clusterName c @ ''|'' @ objectKeyToStoreKey ?k) =
      Ok (map_option snd (find ?P items))"
    using map_of_store_key [OF ready(4,5) assms(2)] indexer_ok_GetByKey [OF ready(1)]
    by (simp add: clusteredStoreKey_def)
  have obj: "\<exists>ob. a = Obj ob" if "find ?P items = Some (kk, a)" for kk a
    using find_SomeD [OF that] well_keyedD [OF ready(4), of kk a] by auto
  have name: "kname ?k = kname key" by (simp add: scope_key_def)
  show ?thesis
    using lookup ready(3,6) obj name
    by (auto simp: cacheReader_Get_def scoped_lookup_def Let_def simp flip: scope_key_def
        split: option.splits)
qed

lemma stored_objects_mem:
  "ob \<in> set (stored_objects items) \<longleftrightarrow> (\<exists>k. (k, Obj ob) \<in> set items)"
proof -
  have "as_runtime_Object a = Some ob \<longleftrightarrow> a = Obj ob" for a by (cases a) auto
  then show ?thesis by (force simp: stored_objects_def map_filter_def)
qed

lemma scoped_lookup_complete:
  assumes "well_keyed L items" and "distinct (map fst items)"
    and "ob \<in> set (stored_objects items)" and "ometa ob = Some m"
  shows "scoped_lookup L items (lc_From L m) (meta_key m) = Some ob"
proof -
  obtain k where mem: "(k, Obj ob) \<in> set items" using assms(3) by (auto simp: stored_objects_mem)
  from well_keyedD [OF assms(1) mem] assms(4)
  have k: "k = clusteredStoreKey (lc_From L m) (meta_key m)"
    and ok: "cluster_name_ok (lc_From L m)" "object_key_ok (meta_key m)" by auto
  have "map_of items k = Some (Obj ob)" using assms(2) mem by simp
  then obtain kk where "find (\<lambda>(_, a). in_cluster_at L (lc_From L m) (meta_key m) a) items = Some (kk, Obj ob)"
    unfolding k map_of_store_key [OF assms(1) ok] by auto
  then show ?thesis by (simp add: scoped_lookup_def)
qed

text \<open>
  C8. Functional correctness of \<open>cacheReader.Get\<close>: it returns exactly the object of the
  reader's cluster with the requested namespace (none for a cluster-scoped resource) and
  name, if its type is the one asked for, with the reader's GroupVersionKind written into
  it unless deep copies are disabled.
\<close>

theorem Get_iff:
  assumes "reader_ready L c items" and "object_key_ok (scope_key c key)"
  shows "cacheReader_Get L c key out = Ok res \<longleftrightarrow>
    (\<exists>ob m. ob \<in> set (stored_objects items) \<and> ometa ob = Some m \<and>
       lc_From L m = cr_clusterName c \<and> meta_key m = scope_key c key \<and>
       otype ob = otype out \<and>
       res = (if cr_disableDeepCopy c then ob else ob\<lparr>ogvk := cr_gvk c\<rparr>))"
    (is "?L \<longleftrightarrow> ?R")
proof
  assume ?L
  then obtain ob where ob: "scoped_lookup L items (cr_clusterName c) (scope_key c key) = Some ob"
    and "otype ob = otype out" "res = (if cr_disableDeepCopy c then ob else ob\<lparr>ogvk := cr_gvk c\<rparr>)"
    unfolding Get_eq_lookup [OF assms] by (auto split: option.splits if_splits)
  then show ?R using scoped_lookup_Some [OF ob] by blast
next
  assume ?R
  then obtain ob m where ob: "ob \<in> set (stored_objects items)" "ometa ob = Some m"
    and at: "lc_From L m = cr_clusterName c" "meta_key m = scope_key c key"
    and res: "otype ob = otype out" "res = (if cr_disableDeepCopy c then ob else ob\<lparr>ogvk := cr_gvk c\<rparr>)"
    by blast
  have "scoped_lookup L items (cr_clusterName c) (scope_key c key) = Some ob"
    using scoped_lookup_complete [OF reader_readyD(4) [OF assms(1)]
        indexer_ok_distinct [OF reader_readyD(1) [OF assms(1)]] ob] at
    by simp
  then show ?L unfolding Get_eq_lookup [OF assms] by (simp add: res)
qed

theorem Get_iff_witness:
  "cacheReader_Get documented_lib sample_reader \<lparr>knamespace = ''default'', kname = ''cm''\<rparr>
     (sample_object '''' '''' '''') = Ok (sample_object ''c1'' ''default'' ''cm'')"
proof -
  have mem: "sample_object ''c1'' ''default'' ''cm'' \<in> set (stored_objects sample_items)"
    by (auto simp: stored_objects_mem sample_items_def sample_item_def)
  show ?thesis
    by (subst Get_iff [OF sample_reader_ready],
        simp add: object_key_ok_def scope_key_def sample_reader_def,
        rule exI [of _ "sample_object ''c1'' ''default'' ''cm''"],
        rule exI [of _ "sample_meta ''c1'' ''default'' ''cm''"])
      (use mem in \<open>simp add: sample_reader_def scope_key_def meta_key_def sample_meta_def
        sample_object_def annotation_From_def\<close>)
qed

text \<open>
  Isolation of \<open>cacheReader.Get\<close>: whatever the store holds for other clusters, when the
  reader's own cluster has no object of that name the answer is the API's NotFound error
  for the reader's group and kind.
\<close>

lemma Get_not_found:
  assumes "reader_ready L c items" and "object_key_ok (scope_key c key)"
    and "\<And>ob m. ob \<in> set (stored_objects items) \<Longrightarrow> ometa ob = Some m \<Longrightarrow>
           meta_key m = scope_key c key \<Longrightarrow> lc_From L m \<noteq> cr_clusterName c"
  shows "cacheReader_Get L c key out =
    Err (NotFound (Group (cr_gvk c)) (Kind (cr_gvk c)) (kname key))"
proof -
  have "scoped_lookup L items (cr_clusterName c) (scope_key c key) = None"
    using scoped_lookup_Some assms(3) by (metis not_None_eq)
  then show ?thesis unfolding Get_eq_lookup [OF assms(1,2)] by simp
qed

lemma Get_not_found_witness:
  "cacheReader_Get documented_lib (sample_reader\<lparr>cr_clusterName := ''c3''\<rparr>)
     \<lparr>knamespace = ''default'', kname = ''cm''\<rparr> (sample_object '''' '''' '''') =
     Err (NotFound '''' ''ConfigMap'' ''cm'')"
proof -
  have ready: "reader_ready documented_lib (sample_reader\<lparr>cr_clusterName := ''c3''\<rparr>) sample_items"
    using sample_reader_ready by (simp add: reader_ready_def cluster_name_ok_def)
  show ?thesis
    by (subst Get_not_found [OF ready])
      (auto simp: stored_objects_mem sample_items_def sample_item_def object_key_ok_def
        scope_key_def sample_reader_def configmap_gvk_def)
qed

section \<open>byIndexes\<close>

text \<open>Whether a registered index files a value under an indexed value.\<close>

definition index_holds :: "indexer \<Rightarrow> string \<Rightarrow> string \<Rightarrow> any \<Rightarrow> bool" where
  "index_holds ix n v a =
     (case GetIndexers ix n of None \<Rightarrow> False | Some f \<Rightarrow> files_under f v a)"

abbreviation meets :: "kcp_lib \<Rightarrow> indexer \<Rightarrow> string \<Rightarrow> string \<Rightarrow> requirement \<Rightarrow> any \<Rightarrow> bool" where
  "meets L ix c ns r a \<equiv> index_holds ix (fieldIndexName (req_Field r)) (indexed_value L ix c ns r) a"

definition registered :: "indexer \<Rightarrow> requirement \<Rightarrow> bool" where
  "registered ix r \<longleftrightarrow> GetIndexers ix (fieldIndexName (req_Field r)) \<noteq> None"

lemma filter_indexed_spec:
  "\<forall>a \<in> set objs. is_Ok (fn a) \<Longrightarrow>
   filter_indexed fn v objs = Ok (filter (files_under fn v) objs)"
  by (induction objs) (auto dest!: is_OkE simp: files_under_def)

lemma filter_indexed_stored:
  assumes "indexer_ok ix items" and "GetIndexers ix n = Some fn" and "set objs \<subseteq> snd ` set items"
  shows "filter_indexed fn v objs = Ok (filter (index_holds ix n v) objs)"
proof -
  have "\<forall>a \<in> set objs. is_Ok (fn a)"
    using indexer_ok_index_Ok [OF assms(1,2)] assms(3) by (metis in_mono is_Ok_simps(1))
  moreover have "index_holds ix n v = files_under fn v" using assms(2) by (auto simp: index_holds_def)
  ultimately show ?thesis by (simp add: filter_indexed_spec)
qed

text \<open>
  The loop from the second requirement on: it filters by each requirement in turn, gives up
  early on an empty result, and fails at the first requirement without an index that it
  reaches with objects left.
\<close>

fun narrow :: "kcp_lib \<Rightarrow> indexer \<Rightarrow> string \<Rightarrow> string \<Rightarrow> requirement list \<Rightarrow> any list \<Rightarrow> any list outcome" where
  "narrow L ix c ns [] objs = Ok objs"
| "narrow L ix c ns (r # rs) objs =
     (if \<not> registered ix r
      then Err (Errorf ''index with name %s does not exist'' [fieldIndexName (req_Field r)])
      else if filter (meets L ix c ns r) objs = [] then Ok []
      else narrow L ix c ns rs (filter (meets L ix c ns r) objs))"

lemma byIndexes_loop_narrow:
  assumes "indexer_ok ix items"
  shows "0 < i \<Longrightarrow> set objs \<subseteq> snd ` set items \<Longrightarrow>
    byIndexes_loop L ix c ns i rs objs = narrow L ix c ns rs objs"
proof (induction rs arbitrary: i objs)
  case Nil
  then show ?case by simp
next
  case (Cons r rs)
  have sub: "set (filter (meets L ix c ns r) objs) \<subseteq> snd ` set items" using Cons.prems(2) by auto
  show ?case
  proof (cases "GetIndexers ix (fieldIndexName (req_Field r))")
    case None
    then show ?thesis using Cons.prems(1) by (simp add: registered_def)
  next
    case (Some fn)
    then show ?thesis
      using filter_indexed_stored [OF assms Some Cons.prems(2)] Cons.prems(1) Cons.IH [OF _ sub]
      by (simp add: registered_def Let_def)
  qed
qed

lemma narrow_registered:
  "\<forall>r \<in> set rs. registered ix r \<Longrightarrow>
   narrow L ix c ns rs objs = Ok (filter (\<lambda>a. \<forall>r \<in> set rs. meets L ix c ns r a) objs)"
proof (induction rs arbitrary: objs)
  case (Cons r rs)
  have none: "filter (\<lambda>a. \<forall>r \<in> set (r # rs). meets L ix c ns r a) objs = []"
    if "filter (meets L ix c ns r) objs = []"
    using that by (auto simp: filter_empty_conv)
  show ?case using Cons none by (auto simp: conj_commute)
qed simp

text \<open>What one call of the index gives the loop to start from.\<close>

lemma ByIndex_holds:
  assumes "indexer_ok ix items" and "GetIndexers ix n \<noteq> None"
  shows "\<exists>xs. ByIndex ix n v = Ok xs \<and> mset xs = mset (filter (index_holds ix n v) (map snd items))"
proof -
  from assms(2) obtain f where f: "GetIndexers ix n = Some f" by auto
  then have "index_holds ix n v = files_under f v" by (auto simp: index_holds_def)
  then show ?thesis using indexer_ok_ByIndex [OF assms(1) f, of v] by simp
qed

lemma byIndexes_narrow:
  assumes "indexer_ok ix items" and "registered ix r"
  shows "\<exists>objs. mset objs = mset (filter (meets L ix c ns r) (map snd items)) \<and>
           byIndexes L ix (r # rs) c ns = (if objs = [] then Ok [] else narrow L ix c ns rs objs)"
proof -
  obtain objs where objs: "ByIndex ix (fieldIndexName (req_Field r)) (indexed_value L ix c ns r) = Ok objs"
    and m: "mset objs = mset (filter (meets L ix c ns r) (map snd items))"
    using ByIndex_holds [OF assms(1)] assms(2) unfolding registered_def by blast
  have "set objs = set (filter (meets L ix c ns r) (map snd items))" using m by (rule mset_eq_set)
  then have "set objs \<subseteq> snd ` set items" by auto
  then have "byIndexes_loop L ix c ns (Suc 0) rs objs = narrow L ix c ns rs objs"
    by (intro byIndexes_loop_narrow [OF assms(1)]) simp
  then have "byIndexes L ix (r # rs) c ns = (if objs = [] then Ok [] else narrow L ix c ns rs objs)"
    using objs by (simp add: byIndexes_def Let_def)
  with m show ?thesis by blast
qed

lemma mset_filter_conj:
  "mset xs = mset (filter P ys) \<Longrightarrow> mset (filter Q xs) = mset (filter (\<lambda>a. P a \<and> Q a) ys)"
  by (simp add: filter_filter_mset conj_commute)

lemma byIndexes_spec:
  assumes "indexer_ok ix items" and "requires \<noteq> []"
    and "\<forall>r \<in> set requires. registered ix r"
  shows "\<exists>objs. byIndexes L ix requires c ns = Ok objs \<and>
    mset objs = mset (filter (\<lambda>a. \<forall>r \<in> set requires. meets L ix c ns r a) (map snd items))"
proof -
  obtain r rs where req: "requires = r # rs" using assms(2) by (cases requires) auto
  obtain objs where m: "mset objs = mset (filter (meets L ix c ns r) (map snd items))"
    and b: "byIndexes L ix (r # rs) c ns = (if objs = [] then Ok [] else narrow L ix c ns rs objs)"
    using byIndexes_narrow [OF assms(1)] assms(3) req by (metis list.set_intros(1))
  let ?Q = "\<lambda>a. \<forall>r \<in> set rs. meets L ix c ns r a"
  have "byIndexes L ix requires c ns = Ok (filter ?Q objs)"
    using b assms(3) by (simp add: req narrow_registered)
  moreover have "mset (filter ?Q objs) =
      mset (filter (\<lambda>a. \<forall>r \<in> set requires. meets L ix c ns r a) (map snd items))"
    using mset_filter_conj [OF m, of ?Q] by (simp add: req)
  ultimately show ?thesis by blast
qed

text \<open>
  Functional correctness of \<open>byIndexes\<close>: with an index for every required field, the
  result is exactly the stored objects that meet every requirement, each once, whichever
  requirement comes first.
\<close>

lemma byIndexes_exact:
  assumes "indexer_ok ix items" and "requires \<noteq> []"
    and "\<forall>r \<in> set requires. registered ix r"
  shows "\<exists>objs. byIndexes L ix requires c ns = Ok objs \<and>
    mset objs = mset (filter (\<lambda>a. \<forall>r \<in> set requires. meets L ix c ns r a) (map snd items))"
  using assms by (rule byIndexes_spec)

lemma narrow_append:
  "\<forall>r \<in> set rs. registered ix r \<Longrightarrow> objs \<noteq> [] \<Longrightarrow>
   narrow L ix c ns (rs @ rs') objs =
     (if filter (\<lambda>a. \<forall>r \<in> set rs. meets L ix c ns r a) objs = [] then Ok []
      else narrow L ix c ns rs' (filter (\<lambda>a. \<forall>r \<in> set rs. meets L ix c ns r a) objs))"
proof (induction rs arbitrary: objs)
  case (Cons r rs)
  have none: "filter (\<lambda>a. \<forall>r \<in> set (r # rs). meets L ix c ns r a) objs = []"
    if "filter (meets L ix c ns r) objs = []"
    using that by (auto simp: filter_empty_conv)
  show ?case using Cons none by (auto simp: conj_commute)
qed simp

definition sample_field_indexer :: indexer where
  "sample_field_indexer =
     snapshot_indexer [fieldIndexName ''n'' \<mapsto> (\<lambda>a. case Accessor a of
         Ok m \<Rightarrow> Ok [keyToNamespacedKey (mnamespace m) (mname m)] | Err e \<Rightarrow> Err e | Panic p \<Rightarrow> Panic p)]
       sample_items"

lemma sample_field_indexer_ok: "indexer_ok sample_field_indexer sample_items"
  unfolding sample_field_indexer_def
  by (rule snapshot_indexer_ok [OF sample_items_ok(2)])
    (auto simp: sample_items_def sample_item_def split: if_splits)

definition sample_requirement :: "string \<Rightarrow> string \<Rightarrow> requirement" where
  "sample_requirement f v = \<lparr>req_Operator = Equals, req_Field = f, req_Value = v\<rparr>"

lemma sample_registered: "registered sample_field_indexer (sample_requirement f v) \<longleftrightarrow> f = ''n''"
  by (auto simp: registered_def sample_field_indexer_def sample_requirement_def fieldIndexName_def)

lemmas sample_field_defs = index_holds_def files_under_def sample_field_indexer_def
  sample_requirement_def sample_items_def sample_item_def sample_meta_def indexed_value_def
  fieldIndexName_def

lemma byIndexes_exact_witness:
  "\<exists>objs. byIndexes documented_lib sample_field_indexer [sample_requirement ''n'' ''cm''] '''' ''default'' =
     Ok objs \<and> mset objs = mset (map snd sample_items)"
proof -
  have "filter (\<lambda>a. \<forall>r \<in> set [sample_requirement ''n'' ''cm''].
      meets documented_lib sample_field_indexer '''' ''default'' r a) (map snd sample_items) =
      map snd sample_items"
    by (simp add: sample_field_defs)
  then show ?thesis
    using byIndexes_exact [OF sample_field_indexer_ok, of "[sample_requirement ''n'' ''cm'']"
        documented_lib "''''" "''default''"]
    by (simp add: sample_registered)
qed

text \<open>
  Errors of \<open>byIndexes\<close>: a requirement on a field without an index, after at least one
  other requirement, is an error exactly when some stored object meets all the requirements
  before it; when none does, the loop has already returned the empty result and the missing
  index goes unnoticed.
\<close>

lemma byIndexes_missing_index:
  assumes "indexer_ok ix items" and "before \<noteq> []"
    and "\<forall>r \<in> set before. registered ix r" and "\<not> registered ix r"
  shows "byIndexes L ix (before @ r # after) c ns =
    (if \<exists>a \<in> snd ` set items. \<forall>r \<in> set before. meets L ix c ns r a
     then Err (Errorf ''index with name %s does not exist'' [fieldIndexName (req_Field r)])
     else Ok [])"
proof -
  obtain r0 rs where bef: "before = r0 # rs" using assms(2) by (cases before) auto
  obtain objs where m: "mset objs = mset (filter (meets L ix c ns r0) (map snd items))"
    and b: "byIndexes L ix (r0 # (rs @ r # after)) c ns =
              (if objs = [] then Ok [] else narrow L ix c ns (rs @ r # after) objs)"
    using byIndexes_narrow [OF assms(1)] assms(3) bef by (metis list.set_intros(1))
  let ?Q = "\<lambda>a. \<forall>r \<in> set rs. meets L ix c ns r a"
  have set: "set objs = {a \<in> snd ` set items. meets L ix c ns r0 a}"
    using mset_eq_set [OF m] by auto
  have some: "filter ?Q objs = [] \<longleftrightarrow>
      \<not> (\<exists>a \<in> snd ` set items. \<forall>r \<in> set before. meets L ix c ns r a)"
    using set by (auto simp: filter_empty_conv bef)
  have rs: "\<forall>r \<in> set rs. registered ix r" using assms(3) bef by simp
  show ?thesis
  proof (cases "objs = []")
    case True
    then show ?thesis using b some by (simp add: bef)
  next
    case False
    then show ?thesis using b some narrow_append [OF rs False] assms(4) by (simp add: bef)
  qed
qed

lemma byIndexes_missing_index_witness:
  "byIndexes documented_lib sample_field_indexer
     [sample_requirement ''n'' ''cm'', sample_requirement ''other'' ''x''] '''' ''default'' =
   Err (Errorf ''index with name %s does not exist'' [''field:other''])"
  using byIndexes_missing_index [OF sample_field_indexer_ok,
      of "[sample_requirement ''n'' ''cm'']" "sample_requirement ''other'' ''x''" documented_lib "[]"
        "''''" "''default''"]
  by (simp add: sample_registered) (simp add: sample_field_defs)

text \<open>
  \<open>requiresExactMatch\<close> accepts exactly the non-empty selectors made of \<open>k=v\<close> and \<open>k==v\<close>.
\<close>

lemma requiresExactMatch_iff:
  "requiresExactMatch reqs \<longleftrightarrow>
     reqs \<noteq> [] \<and> (\<forall>r \<in> set reqs. req_Operator r = Equals \<or> req_Operator r = DoubleEquals)"
proof -
  have "all_exact rs \<longleftrightarrow> (\<forall>r \<in> set rs. req_Operator r = Equals \<or> req_Operator r = DoubleEquals)" for rs
    by (induction rs) auto
  then show ?thesis by (simp add: requiresExactMatch_def)
qed

section \<open>List\<close>

text \<open>The effect of the limit on the list of matching objects.\<close>

definition limited :: "list_options \<Rightarrow> 'a list \<Rightarrow> 'a list" where
  "limited lo xs = (if lo_Limit lo > 0 then take (nat (lo_Limit lo)) xs else xs)"

definition object_matches :: "list_options \<Rightarrow> object \<Rightarrow> bool" where
  "object_matches lo ob = (case ometa ob of None \<Rightarrow> False | Some m \<Rightarrow> labels_match lo m)"

definition selected :: "cacheReader \<Rightarrow> list_options \<Rightarrow> any list \<Rightarrow> object list" where
  "selected c lo objs =
     map (list_output c lo) (filter (object_matches lo) (List.map_filter as_runtime_Object objs))"

definition all_client :: "any list \<Rightarrow> bool" where
  "all_client objs \<longleftrightarrow> (\<forall>a \<in> set objs. as_client_Object a \<noteq> None)"

lemma limited_full:
  "lo_Limit lo > 0 \<Longrightarrow> int (length acc) \<ge> lo_Limit lo \<Longrightarrow> limited lo (acc @ xs) = limited lo acc"
  by (simp add: limited_def)

lemma list_loop_client:
  assumes "all_client objs" and "lo_Limit lo > 0 \<Longrightarrow> int (length acc) \<le> lo_Limit lo"
  shows "list_loop c lo objs acc = Ok (limited lo (acc @ selected c lo objs))"
  using assms
proof (induction objs arbitrary: acc)
  case Nil
  then show ?case by (auto simp: selected_def map_filter_def limited_def)
next
  case (Cons a objs)
  from Cons.prems(1) obtain ob m where a: "a = Obj ob" "ometa ob = Some m"
    by (auto simp: all_client_def dest: as_client_ObjectD)
  from Cons.prems(1) have rest: "all_client objs" by (simp add: all_client_def)
  show ?case
  proof (cases "lo_Limit lo > 0 \<and> int (length acc) \<ge> lo_Limit lo")
    case True
    then have "limited lo (acc @ xs) = acc" for xs :: "object list"
      using Cons.prems(2) by (auto simp: limited_def)
    with True show ?thesis by (simp add: a)
  next
    case False
    have sel: "selected c lo (a # objs) =
        (if labels_match lo m then [list_output c lo ob] else []) @ selected c lo objs"
      by (simp add: selected_def map_filter_def object_matches_def a)
    show ?thesis
      using False Cons.IH [OF rest] Cons.prems(2) by (auto simp: a sel [unfolded a])
  qed
qed

text \<open>The candidates of an unselected list: the objects of the cluster, and namespace if given.\<close>

definition in_scope :: "kcp_lib \<Rightarrow> string \<Rightarrow> string \<Rightarrow> any \<Rightarrow> bool" where
  "in_scope L c ns a =
     (case as_client_Object a of
        None \<Rightarrow> False
      | Some m \<Rightarrow> lc_From L m = c \<and> (ns = '''' \<or> mnamespace m = ns))"

lemma candidates_scope:
  assumes "lib_ok L" and "reader_ready L c items" and "lo_FieldSelector lo = None"
  shows "\<exists>objs. cacheReader_candidates L c lo = Ok objs \<and>
    mset objs = mset (filter (in_scope L (cr_clusterName c) (lo_Namespace lo)) (map snd items))"
proof -
  note ready = reader_readyD [OF assms(2)]
  have meta: "\<exists>m. as_client_Object a = Some m \<and> cluster_name_ok (lc_From L m)"
    if "a \<in> set (map snd items)" for a
    using that well_keyedD [OF ready(4)] by fastforce
  show ?thesis
  proof (cases "lo_Namespace lo = ''''")
    case True
    have "filter (files_under (ClusterIndexFunc L) (cr_clusterName c)) (map snd items) =
        filter (in_scope L (cr_clusterName c) '''') (map snd items)"
      by (rule filter_cong [OF refl])
        (drule meta, auto simp: files_under_cluster in_scope_def)
    moreover have "cacheReader_candidates L c lo =
        ByIndex (cr_indexer c) (ClusterIndexName L) (cr_clusterName c)"
      using True assms(1,3) ready(3,6) by (simp add: cacheReader_candidates_def lib_ok_def)
    ultimately show ?thesis
      using indexer_ok_ByIndex [OF ready(1,2), of "cr_clusterName c"] True by simp
  next
    case False
    let ?k = "ClusterAndNamespaceIndexKey (cr_clusterName c) (lo_Namespace lo)"
    have "filter (files_under (ClusterAndNamespaceIndexFunc L) ?k) (map snd items) =
        filter (in_scope L (cr_clusterName c) (lo_Namespace lo)) (map snd items)"
      by (rule filter_cong [OF refl])
        (drule meta, use False in \<open>auto simp: files_under_cluster_ns ready(5) in_scope_def\<close>)
    moreover have "cacheReader_candidates L c lo =
        ByIndex (cr_indexer c) (ClusterAndNamespaceIndexName L) ?k"
      using False assms(1,3) ready(3,6)
      by (simp add: cacheReader_candidates_def lib_ok_def ClusterAndNamespaceIndexKey_def)
    ultimately show ?thesis
      using indexer_ok_ByIndex [OF ready(1,3), of ?k] by simp
  qed
qed

lemma mset_map_filter_eq:
  "mset xs = mset ys \<Longrightarrow> mset (List.map_filter f xs) = mset (List.map_filter f ys)"
  by (metis map_filter_def mset_filter mset_map)

lemma mset_selected:
  "mset xs = mset ys \<Longrightarrow> mset (selected c lo xs) = mset (selected c lo ys)"
  unfolding selected_def by (drule mset_map_filter_eq [where f = as_runtime_Object]) simp

lemma List_of_candidates:
  assumes "lib_ok L" and "lo_Continue lo = ''''" and "cacheReader_candidates L c lo = Ok objs"
    and "all_client objs"
  shows "cacheReader_List L c out lo = Ok (out\<lparr>litems := limited lo (selected c lo objs)\<rparr>)"
  using assms list_loop_client [of objs lo "[]" c]
  by (simp add: cacheReader_List_def lib_ok_def)

lemma all_client_mset:
  "mset objs = mset (filter P (map snd items)) \<Longrightarrow> well_keyed L items \<Longrightarrow> all_client objs"
  by (drule mset_eq_set) (fastforce simp: all_client_def dest: well_keyedD)

definition object_in_scope :: "kcp_lib \<Rightarrow> string \<Rightarrow> list_options \<Rightarrow> object \<Rightarrow> bool" where
  "object_in_scope L c lo ob =
     (case ometa ob of
        None \<Rightarrow> False
      | Some m \<Rightarrow> lc_From L m = c \<and> (lo_Namespace lo = '''' \<or> mnamespace m = lo_Namespace lo) \<and>
                  labels_match lo m)"

lemma selected_filter:
  assumes "well_keyed L items"
    and "\<And>ob. ob \<in> set (stored_objects items) \<Longrightarrow> P (Obj ob) \<and> object_matches lo ob \<longleftrightarrow> Q ob"
  shows "selected c lo (filter P (map snd items)) =
         map (list_output c lo) (filter Q (stored_objects items))"
proof -
  have "filter (object_matches lo) (List.map_filter as_runtime_Object (filter P (map snd items))) =
        filter Q (stored_objects items)"
    using assms
  proof (induction items)
    case (Cons x items)
    obtain k ob where x: "x = (k, Obj ob)"
      using well_keyedD [OF Cons.prems(1), of "fst x" "snd x"] by (cases x) auto
    note st = stored_objects_Cons(2) [of k ob items]
    have "well_keyed L items" using Cons.prems(1) by (simp add: x)
    moreover have "P (Obj ob) \<and> object_matches lo ob \<longleftrightarrow> Q ob" using Cons.prems(2) by (simp add: x st)
    ultimately show ?case
      using Cons.IH Cons.prems(2) by (auto simp: x st)
  qed (simp add: stored_objects_def map_filter_def)
  then show ?thesis by (simp add: selected_def)
qed

lemma in_scope_matches:
  "in_scope L c (lo_Namespace lo) (Obj ob) \<and> object_matches lo ob \<longleftrightarrow> object_in_scope L c lo ob"
  by (auto simp: in_scope_def object_matches_def object_in_scope_def split: option.splits)

lemmas selected_in_scope = selected_filter [OF _ in_scope_matches]

text \<open>
  C9. Functional correctness of \<open>cacheReader.List\<close> without a field selector: up to the
  order the store enumerates its values in, the items are exactly the objects of the
  reader's cluster, in the requested namespace if one is given, that match the label
  selector, each copied with the reader's GroupVersionKind unless deep copies are disabled;
  a positive limit cuts this list to its first objects.
\<close>

theorem List_exact:
  assumes "lib_ok L" and "reader_ready L c items"
    and "lo_FieldSelector lo = None" and "lo_Continue lo = ''''"
  shows "\<exists>full. cacheReader_List L c out lo = Ok (out\<lparr>litems := limited lo full\<rparr>) \<and>
    mset full = mset (map (list_output c lo)
      (filter (object_in_scope L (cr_clusterName c) lo) (stored_objects items)))"
proof -
  obtain objs where objs: "cacheReader_candidates L c lo = Ok objs"
    and m: "mset objs = mset (filter (in_scope L (cr_clusterName c) (lo_Namespace lo)) (map snd items))"
    using candidates_scope [OF assms(1-3)] by blast
  have "all_client objs" using m reader_readyD(4) [OF assms(2)] by (rule all_client_mset)
  then have "cacheReader_List L c out lo = Ok (out\<lparr>litems := limited lo (selected c lo objs)\<rparr>)"
    by (rule List_of_candidates [OF assms(1,4) objs])
  moreover note mset_selected [OF m, of c lo, unfolded selected_in_scope [OF reader_readyD(4) [OF assms(2)]]]
  ultimately show ?thesis by blast
qed

definition sample_list_options :: list_options where
  "sample_list_options =
     \<lparr>lo_LabelSelector = None, lo_FieldSelector = None, lo_Namespace = ''default'', lo_Limit = 5,
      lo_Continue = '''', lo_UnsafeDisableDeepCopy = None\<rparr>"

definition sample_list :: objlist where
  "sample_list = \<lparr>ltype = TypedT ''*v1.ConfigMapList'', lgvk = configmap_gvk, litems = []\<rparr>"

theorem List_exact_witness:
  "cacheReader_List documented_lib sample_reader sample_list sample_list_options =
     Ok (sample_list\<lparr>litems := [sample_object ''c1'' ''default'' ''cm'']\<rparr>)"
proof -
  have "filter (object_in_scope documented_lib ''c1'' sample_list_options) (stored_objects sample_items) =
      [sample_object ''c1'' ''default'' ''cm'']"
    by (simp add: stored_objects_def map_filter_def sample_items_def sample_item_def
        object_in_scope_def labels_match_def sample_list_options_def sample_meta_def
        annotation_From_def)
  moreover have "list_output sample_reader sample_list_options (sample_object c ns n) =
      sample_object c ns n" for c ns n
    by (simp add: list_output_def sample_reader_def sample_object_def)
  ultimately show ?thesis
    using List_exact [OF documented_lib_ok sample_reader_ready, of sample_list_options sample_list]
    by (auto simp: sample_reader_def limited_def sample_list_options_def)
qed

text \<open>
  Field selectors. An index fit for the keys \<open>byIndexes\<close> builds files an object under each
  extracted field value twice, prefixed with its cluster: once with its namespace, once with
  the name that stands for all namespaces (the key format \<open>keyToClusteredKey\<close> documents).
\<close>

definition clustered_field_index ::
  "kcp_lib \<Rightarrow> indexer \<Rightarrow> string \<Rightarrow> (object \<Rightarrow> string list) \<Rightarrow> bool" where
  "clustered_field_index L ix field extract \<longleftrightarrow>
     (\<exists>f. GetIndexers ix (fieldIndexName field) = Some f \<and>
        (\<forall>ob m. ometa ob = Some m \<longrightarrow>
           (\<exists>vs. f (Obj ob) = Ok vs \<and>
              set vs = {keyToClusteredKey (lc_From L m) ns v | ns v.
                          v \<in> set (extract ob) \<and> (ns = '''' \<or> ns = mnamespace m)})))"

lemma meets_clustered:
  assumes "clustered_field_index L ix (req_Field r) extract" and "ometa ob = Some m"
    and "GetIndexers ix (ClusterAndNamespaceIndexName L) \<noteq> None"
    and "cluster_name_ok c" and "namespace_ok ns"
    and "cluster_name_ok (lc_From L m)" and "namespace_ok (mnamespace m)"
  shows "meets L ix c ns r (Obj ob) \<longleftrightarrow>
    lc_From L m = c \<and> (ns = '''' \<or> mnamespace m = ns) \<and> req_Value r \<in> set (extract ob)"
proof -
  from assms(1,2) obtain f vs where f: "GetIndexers ix (fieldIndexName (req_Field r)) = Some f"
    and vs: "f (Obj ob) = Ok vs"
      "set vs = {keyToClusteredKey (lc_From L m) ns v | ns v.
                   v \<in> set (extract ob) \<and> (ns = '''' \<or> ns = mnamespace m)}"
    unfolding clustered_field_index_def by blast
  have inj: "keyToClusteredKey c ns (req_Value r) = keyToClusteredKey (lc_From L m) ns' v \<longleftrightarrow>
      (c, ns, req_Value r) = (lc_From L m, ns', v)"
    if "ns' = '''' \<or> ns' = mnamespace m" for ns' v
    using clustered_key.enc_eq_iff [of "(c, ns, req_Value r)" "(lc_From L m, ns', v)"] assms(4-7) that
    by (auto simp: namespace_ok_def allNamespacesNamespace_def)
  have "meets L ix c ns r (Obj ob) \<longleftrightarrow> keyToClusteredKey c ns (req_Value r) \<in> set vs"
    using assms(3) f vs(1) by (simp add: index_holds_def files_under_def indexed_value_def)
  also have "\<dots> \<longleftrightarrow> (\<exists>ns' v. (ns' = '''' \<or> ns' = mnamespace m) \<and> v \<in> set (extract ob) \<and>
      keyToClusteredKey c ns (req_Value r) = keyToClusteredKey (lc_From L m) ns' v)"
    unfolding vs(2) by blast
  also have "\<dots> \<longleftrightarrow> (\<exists>ns' v. (ns' = '''' \<or> ns' = mnamespace m) \<and> v \<in> set (extract ob) \<and>
      (c, ns, req_Value r) = (lc_From L m, ns', v))"
    using inj by blast
  finally show ?thesis by auto
qed

text \<open>
  C24. \<open>cacheReader.List\<close> with a field selector over fields that have such an index: up to
  order the items are exactly the objects of the reader's cluster, in the requested
  namespace if one is given, that match the label selector and hold every required field
  value; no object of another cluster is ever listed.
\<close>

theorem List_by_field:
  assumes "lib_ok L" and "reader_ready L c items" and "lo_Continue lo = ''''"
    and "lo_FieldSelector lo = Some reqs" and "requiresExactMatch reqs"
    and "\<forall>r \<in> set reqs. clustered_field_index L (cr_indexer c) (req_Field r) (extract (req_Field r))"
    and "namespace_ok (lo_Namespace lo)"
    and "\<And>ob m. ob \<in> set (stored_objects items) \<Longrightarrow> ometa ob = Some m \<Longrightarrow> namespace_ok (mnamespace m)"
  shows "\<exists>full. cacheReader_List L c out lo = Ok (out\<lparr>litems := limited lo full\<rparr>) \<and>
    mset full = mset (map (list_output c lo)
      (filter (\<lambda>ob. object_in_scope L (cr_clusterName c) lo ob \<and>
                    (\<forall>r \<in> set reqs. req_Value r \<in> set (extract (req_Field r) ob)))
        (stored_objects items)))"
proof -
  note ready = reader_readyD [OF assms(2)]
  let ?ix = "cr_indexer c" and ?c = "cr_clusterName c" and ?ns = "lo_Namespace lo"
  let ?P = "\<lambda>a. \<forall>r \<in> set reqs. meets L ?ix ?c ?ns r a"
  have ne: "reqs \<noteq> []" using assms(5) by (auto simp: requiresExactMatch_def)
  have "\<forall>r \<in> set reqs. registered ?ix r"
    using assms(6) by (fastforce simp: registered_def clustered_field_index_def)
  then obtain objs where b: "byIndexes L ?ix reqs ?c ?ns = Ok objs"
    and m: "mset objs = mset (filter ?P (map snd items))"
    using byIndexes_spec [OF ready(1) ne] by blast
  have "cacheReader_candidates L c lo = Ok objs"
    using b assms(4,5) by (simp add: cacheReader_candidates_def)
  then have list: "cacheReader_List L c out lo = Ok (out\<lparr>litems := limited lo (selected c lo objs)\<rparr>)"
    by (rule List_of_candidates [OF assms(1,3) _ all_client_mset [OF m ready(4)]])
  have "?P (Obj ob) \<and> object_matches lo ob \<longleftrightarrow>
      object_in_scope L ?c lo ob \<and> (\<forall>r \<in> set reqs. req_Value r \<in> set (extract (req_Field r) ob))"
    if ob: "ob \<in> set (stored_objects items)" for ob
  proof -
    from ob obtain k where "(k, Obj ob) \<in> set items" by (auto simp: stored_objects_mem)
    from well_keyedD [OF ready(4) this] obtain mt where mt: "ometa ob = Some mt" "cluster_name_ok (lc_From L mt)"
      by auto
    have aware: "GetIndexers ?ix (ClusterAndNamespaceIndexName L) \<noteq> None" using ready(3) by simp
    have eq: "meets L ?ix ?c ?ns r (Obj ob) \<longleftrightarrow>
        lc_From L mt = ?c \<and> (?ns = '''' \<or> mnamespace mt = ?ns) \<and> req_Value r \<in> set (extract (req_Field r) ob)"
      if "r \<in> set reqs" for r
      using assms(6) that
      by (intro meets_clustered [OF _ mt(1) aware ready(5) assms(7) mt(2) assms(8) [OF ob mt(1)]]) blast
    obtain r0 where "r0 \<in> set reqs" using ne by (cases reqs) auto
    then have "?P (Obj ob) \<longleftrightarrow> lc_From L mt = ?c \<and> (?ns = [] \<or> mnamespace mt = ?ns) \<and>
        (\<forall>r \<in> set reqs. req_Value r \<in> set (extract (req_Field r) ob))"
      using eq by blast
    then show ?thesis by (simp only: object_in_scope_def object_matches_def mt(1) option.case) blast
  qed
  note sel = selected_filter [where c = c, OF ready(4) this]
  have "mset (selected c lo objs) = mset (selected c lo (filter ?P (map snd items)))"
    by (rule mset_selected [OF m])
  with list sel show ?thesis by auto
qed

text \<open>
  What every \<open>List\<close> keeps to, with or without a field selector: as long as no field index files
  an object under a key of another cluster, all items are objects of the reader's cluster.
\<close>

definition field_keys_own :: "kcp_lib \<Rightarrow> indexer \<Rightarrow> (string \<times> any) list \<Rightarrow> string \<Rightarrow> bool" where
  "field_keys_own L ix items field \<longleftrightarrow>
     (\<forall>f. GetIndexers ix (fieldIndexName field) = Some f \<longrightarrow>
        (\<forall>ob \<in> set (stored_objects items). \<forall>m vs c ns v. ometa ob = Some m \<and> f (Obj ob) = Ok vs \<and>
           cluster_name_ok c \<and> keyToClusteredKey c ns v \<in> set vs \<longrightarrow> lc_From L m = c))"

definition of_cluster :: "kcp_lib \<Rightarrow> string \<Rightarrow> any \<Rightarrow> bool" where
  "of_cluster L c a = (case as_client_Object a of None \<Rightarrow> False | Some m \<Rightarrow> lc_From L m = c)"

lemma narrow_subset: "narrow L ix c ns rs objs = Ok res \<Longrightarrow> set res \<subseteq> set objs"
  by (induction rs arbitrary: objs) (fastforce split: if_splits)+

lemma byIndexes_own:
  assumes "reader_ready L c items" and "byIndexes L (cr_indexer c) (r # rs) (cr_clusterName c) ns = Ok objs"
    and "field_keys_own L (cr_indexer c) items (req_Field r)"
  shows "set objs \<subseteq> {a \<in> snd ` set items. of_cluster L (cr_clusterName c) a}"
proof -
  note ready = reader_readyD [OF assms(1)]
  let ?ix = "cr_indexer c" and ?c = "cr_clusterName c"
  have reg: "registered ?ix r"
  proof (rule ccontr)
    assume "\<not> registered ?ix r"
    then obtain e where "ByIndex ?ix (fieldIndexName (req_Field r)) (indexed_value L ?ix ?c ns r) = Err e"
      using indexer_ok_ByIndex_None [OF ready(1)] unfolding registered_def by blast
    then show False using assms(2) by (simp add: byIndexes_def)
  qed
  obtain xs where xs: "mset xs = mset (filter (meets L ?ix ?c ns r) (map snd items))"
    and b: "byIndexes L ?ix (r # rs) ?c ns = (if xs = [] then Ok [] else narrow L ?ix ?c ns rs xs)"
    using byIndexes_narrow [OF ready(1) reg] by blast
  have "set objs \<subseteq> set xs" using assms(2) b narrow_subset by (auto split: if_splits)
  also have "\<dots> = {a \<in> snd ` set items. meets L ?ix ?c ns r a}" using mset_eq_set [OF xs] by auto
  also have "\<dots> \<subseteq> {a \<in> snd ` set items. of_cluster L ?c a}"
  proof
    fix a assume "a \<in> {a \<in> snd ` set items. meets L ?ix ?c ns r a}"
    then obtain k where a: "(k, a) \<in> set items" "meets L ?ix ?c ns r a" by auto
    from well_keyedD [OF ready(4) a(1)] obtain ob m where ob: "a = Obj ob" "ometa ob = Some m" by auto
    obtain f vs where "GetIndexers ?ix (fieldIndexName (req_Field r)) = Some f" "f (Obj ob) = Ok vs"
      "keyToClusteredKey ?c ns (req_Value r) \<in> set vs"
      using a(2) ready(3) ob(1)
      by (auto simp: index_holds_def files_under_def indexed_value_def split: option.splits outcome.splits)
    moreover have "ob \<in> set (stored_objects items)" using a(1) ob(1) by (auto simp: stored_objects_mem)
    ultimately have "lc_From L m = ?c" using assms(3) ob(2) ready(5) unfolding field_keys_own_def by blast
    then show "a \<in> {a \<in> snd ` set items. of_cluster L ?c a}"
      using a(1) by (force simp: of_cluster_def ob)
  qed
  finally show ?thesis .
qed

lemma candidates_own:
  assumes "lib_ok L" and "reader_ready L c items" and "cacheReader_candidates L c lo = Ok objs"
    and "\<And>reqs r. lo_FieldSelector lo = Some reqs \<Longrightarrow> r \<in> set reqs \<Longrightarrow> field_keys_own L (cr_indexer c) items (req_Field r)"
  shows "set objs \<subseteq> {a \<in> snd ` set items. of_cluster L (cr_clusterName c) a}"
proof (cases "lo_FieldSelector lo")
  case None
  from candidates_scope [OF assms(1,2) this] assms(3)
  have "mset objs = mset (filter (in_scope L (cr_clusterName c) (lo_Namespace lo)) (map snd items))" by auto
  from mset_eq_set [OF this] show ?thesis by (auto simp: in_scope_def of_cluster_def split: option.splits)
next
  case (Some reqs)
  then have "requiresExactMatch reqs" and b: "byIndexes L (cr_indexer c) reqs (cr_clusterName c) (lo_Namespace lo) = Ok objs"
    using assms(3) by (auto simp: cacheReader_candidates_def split: if_splits)
  then obtain r rs where "reqs = r # rs" by (cases reqs) (auto simp: requiresExactMatch_def)
  with byIndexes_own [OF assms(2)] b assms(4) [OF Some] show ?thesis by simp
qed

lemma List_own:
  assumes "lib_ok L" and "reader_ready L c items" and "cacheReader_List L c out lo = Ok res"
    and "\<And>reqs r. lo_FieldSelector lo = Some reqs \<Longrightarrow> r \<in> set reqs \<Longrightarrow> field_keys_own L (cr_indexer c) items (req_Field r)"
    and "ob \<in> set (litems res)"
  shows "\<exists>ob' m. ob' \<in> set (stored_objects items) \<and> ometa ob' = Some m \<and> lc_From L m = cr_clusterName c \<and>
    ob = list_output c lo ob'"
proof -
  obtain objs where objs: "cacheReader_candidates L c lo = Ok objs" and cont: "lo_Continue lo = ''''"
    using assms(3) by (auto simp: cacheReader_List_def split: if_splits outcome.splits)
  have own: "set objs \<subseteq> {a \<in> snd ` set items. of_cluster L (cr_clusterName c) a}"
    by (rule candidates_own [OF assms(1,2) objs assms(4)])
  then have "all_client objs" by (auto simp: all_client_def of_cluster_def split: option.splits)
  from List_of_candidates [OF assms(1) cont objs this] assms(3)
  have "litems res = limited lo (selected c lo objs)" by auto
  then have "ob \<in> set (selected c lo objs)"
    using assms(5) by (auto simp: limited_def dest: in_set_takeD split: if_splits)
  then obtain a ob' where a: "a \<in> set objs" "as_runtime_Object a = Some ob'" "ob = list_output c lo ob'"
    by (auto simp: selected_def map_filter_def)
  then obtain k where "(k, a) \<in> set items" "of_cluster L (cr_clusterName c) a" using own by fastforce
  then show ?thesis using a(2,3)
    by (cases a) (auto simp: stored_objects_mem of_cluster_def split: option.splits)
qed

lemma clustered_field_keys_own:
  assumes "clustered_field_index L ix field extract" and "well_keyed L items"
  shows "field_keys_own L ix items field"
proof -
  have same: "lc_From L m = c" if "cluster_name_ok c" "ob \<in> set (stored_objects items)" "ometa ob = Some m"
    "keyToClusteredKey c ns v = keyToClusteredKey (lc_From L m) ns' w" for ob m c ns v ns' w
  proof -
    from that(2) obtain k where "(k, Obj ob) \<in> set items" by (auto simp: stored_objects_mem)
    from well_keyedD [OF assms(2) this] have "cluster_name_ok (lc_From L m)" using that(3) by auto
    then have bars: "CHR ''|'' \<notin> set c" "CHR ''|'' \<notin> set (lc_From L m)"
      using that(1) by (simp_all add: cluster_name_ok_def)
    have "c @ CHR ''|'' # keyToNamespacedKey ns v = lc_From L m @ CHR ''|'' # keyToNamespacedKey ns' w"
      using that(4) by (simp add: keyToClusteredKey_def)
    from append_eq_sep [OF this bars] show ?thesis by simp
  qed
  obtain f where f: "GetIndexers ix (fieldIndexName field) = Some f"
    "\<And>ob m. ometa ob = Some m \<Longrightarrow> \<exists>vs. f (Obj ob) = Ok vs \<and>
       set vs = {keyToClusteredKey (lc_From L m) ns v | ns v. v \<in> set (extract ob) \<and> (ns = '''' \<or> ns = mnamespace m)}"
    using assms(1) unfolding clustered_field_index_def by blast
  show ?thesis unfolding field_keys_own_def
  proof (intro allI impI ballI)
    fix f' ob m vs c ns v
    assume "GetIndexers ix (fieldIndexName field) = Some f'" and ob: "ob \<in> set (stored_objects items)"
      and m: "ometa ob = Some m \<and> f' (Obj ob) = Ok vs \<and> cluster_name_ok c \<and> keyToClusteredKey c ns v \<in> set vs"
    then obtain ns' w where "keyToClusteredKey c ns v = keyToClusteredKey (lc_From L m) ns' w"
      using f(1) f(2) [of ob m] by auto
    with same [OF _ ob, of c m ns v ns' w] m show "lc_From L m = c" by blast
  qed
qed

text \<open>An index in that format over the object name, and a reader of a store that has it.\<close>

definition name_field_fn :: "kcp_lib \<Rightarrow> index_fn" where
  "name_field_fn L a =
     (case Accessor a of
        Ok m \<Rightarrow> Ok [keyToClusteredKey (lc_From L m) (mnamespace m) (mname m),
                     keyToClusteredKey (lc_From L m) '''' (mname m)]
      | Err e \<Rightarrow> Err e
      | Panic p \<Rightarrow> Panic p)"

definition name_values :: "object \<Rightarrow> string list" where
  "name_values ob = (case ometa ob of None \<Rightarrow> [] | Some m \<Rightarrow> [mname m])"

definition sample_field_reader :: cacheReader where
  "sample_field_reader = sample_reader\<lparr>cr_indexer :=
     snapshot_indexer ((cluster_indexers documented_lib)
       (fieldIndexName ''n'' \<mapsto> name_field_fn documented_lib)) sample_items\<rparr>"

lemma sample_field_reader_ready: "reader_ready documented_lib sample_field_reader sample_items"
proof -
  have "indexer_ok (cr_indexer sample_field_reader) sample_items"
    unfolding sample_field_reader_def
    by (simp, rule snapshot_indexer_ok [OF sample_items_ok(2)])
      (auto simp: cluster_indexers_def name_field_fn_def sample_items_def sample_item_def
        intro: well_keyed_index_Ok [OF sample_items_ok(1), unfolded sample_items_def]
        split: if_splits outcome.splits)
  moreover have "cluster_aware documented_lib (cr_indexer sample_field_reader)"
    by (simp add: cluster_aware_def sample_field_reader_def cluster_indexers_def fieldIndexName_def)
  ultimately show ?thesis
    using sample_reader_ready by (simp add: reader_ready_def sample_field_reader_def)
qed

lemma sample_field_index:
  "clustered_field_index documented_lib (cr_indexer sample_field_reader) ''n'' name_values"
  by (auto simp: clustered_field_index_def sample_field_reader_def name_field_fn_def name_values_def)

lemma sample_field_reader_sel [simp]: "cr_clusterName sample_field_reader = ''c1''"
  by (simp add: sample_field_reader_def sample_reader_def)

lemma sample_list_options_sel [simp]:
  "lo_Namespace sample_list_options = ''default''" "lo_Limit sample_list_options = 5"
  "lo_Continue sample_list_options = ''''" "lo_LabelSelector sample_list_options = None"
  by (simp_all add: sample_list_options_def)

lemma sample_requirement_sel [simp]:
  "req_Field (sample_requirement f v) = f" "req_Value (sample_requirement f v) = v"
  "req_Operator (sample_requirement f v) = Equals"
  by (simp_all add: sample_requirement_def)

theorem List_by_field_witness:
  "cacheReader_List documented_lib sample_field_reader sample_list
     (sample_list_options\<lparr>lo_FieldSelector := Some [sample_requirement ''n'' ''cm'']\<rparr>) =
   Ok (sample_list\<lparr>litems := [sample_object ''c1'' ''default'' ''cm'']\<rparr>)"
proof -
  let ?r = "sample_requirement ''n'' ''cm''"
  let ?lo = "sample_list_options\<lparr>lo_FieldSelector := Some [?r]\<rparr>"
  have ns: "namespace_ok (mnamespace m)"
    if "ob \<in> set (stored_objects sample_items)" "ometa ob = Some m" for ob m
    using that by (auto simp: sample_items_def sample_item_def sample_meta_def namespace_ok_def
        allNamespacesNamespace_def)
  have exact: "requiresExactMatch [?r]" and dns: "namespace_ok (lo_Namespace ?lo)"
    by (simp_all add: requiresExactMatch_iff namespace_ok_def allNamespacesNamespace_def)
  have field: "\<forall>r \<in> set [?r]. clustered_field_index documented_lib (cr_indexer sample_field_reader)
      (req_Field r) name_values"
    using sample_field_index by simp
  have sel: "filter (\<lambda>ob. object_in_scope documented_lib (cr_clusterName sample_field_reader) ?lo ob \<and>
        (\<forall>r \<in> set [?r]. req_Value r \<in> set (name_values ob)))
      (stored_objects sample_items) = [sample_object ''c1'' ''default'' ''cm'']"
    by (simp add: sample_items_def sample_item_def object_in_scope_def labels_match_def
        name_values_def) (simp add: sample_meta_def)
  have out: "list_output sample_field_reader ?lo (sample_object c ns n) = sample_object c ns n" for c ns n
    by (simp add: list_output_def sample_field_reader_def sample_reader_def sample_object_def)
  obtain full where full: "cacheReader_List documented_lib sample_field_reader sample_list ?lo =
        Ok (sample_list\<lparr>litems := limited ?lo full\<rparr>)"
    and m: "mset full = mset [sample_object ''c1'' ''default'' ''cm'']"
    using List_by_field [OF documented_lib_ok sample_field_reader_ready _ _ exact field dns ns,
        where out = sample_list, unfolded sel] out
    by auto
  then show ?thesis by (simp add: limited_def)
qed
lemma list_loop_bad:
  assumes "all_client objs" and "as_runtime_Object bad = None"
    and "lo_Limit lo > 0 \<Longrightarrow> int (length acc) \<le> lo_Limit lo"
  shows "list_loop c lo (objs @ bad # rest) acc =
    (if lo_Limit lo > 0 \<and> int (length (acc @ selected c lo objs)) \<ge> lo_Limit lo
     then Ok (limited lo (acc @ selected c lo objs))
     else Err (Errorf ''cache contained %T, which is not an Object'' [any_type_name bad]))"
  using assms(1,3)
proof (induction objs arbitrary: acc)
  case Nil
  then show ?case using assms(2) by (auto simp: selected_def map_filter_def limited_def)
next
  case (Cons a objs)
  from Cons.prems(1) obtain ob m where a: "a = Obj ob" "ometa ob = Some m" and rest: "all_client objs"
    by (auto simp: all_client_def dest: as_client_ObjectD)
  have sel: "selected c lo (Obj ob # objs) =
      (if labels_match lo m then [list_output c lo ob] else []) @ selected c lo objs"
    by (simp add: selected_def map_filter_def object_matches_def a)
  show ?case
  proof (cases "lo_Limit lo > 0 \<and> int (length acc) \<ge> lo_Limit lo")
    case True
    then show ?thesis using Cons.prems(2) by (auto simp: a limited_def)
  next
    case False
    then show ?thesis using Cons.IH [OF rest] Cons.prems(2) by (auto simp: a sel)
  qed
qed

text \<open>
  Errors of the \<open>List\<close> loop: a value in the store that is not a runtime object makes the
  whole call fail if the loop reaches it, that is, unless a positive limit is filled by the
  matching objects before it.
\<close>

lemma List_bad_value:
  assumes "lib_ok L" and "lo_Continue lo = ''''"
    and "cacheReader_candidates L c lo = Ok (objs @ bad # rest)"
    and "all_client objs" and "as_runtime_Object bad = None"
  shows "cacheReader_List L c out lo =
    (if lo_Limit lo > 0 \<and> int (length (selected c lo objs)) \<ge> lo_Limit lo
     then Ok (out\<lparr>litems := limited lo (selected c lo objs)\<rparr>)
     else Err (Errorf ''cache contained %T, which is not an Object'' [any_type_name bad]))"
  using assms list_loop_bad [OF assms(4,5), of lo "[]" c rest]
  by (simp add: cacheReader_List_def lib_ok_def)

lemma List_bad_value_witness:
  "cacheReader_List documented_lib
     (sample_reader\<lparr>cr_indexer := snapshot_indexer Map.empty [(''k'', Other ''int'')], cr_clusterName := ''''\<rparr>)
     sample_list (sample_list_options\<lparr>lo_Namespace := ''''\<rparr>) =
   Err (Errorf ''cache contained %T, which is not an Object'' [''int''])"
  by (subst List_bad_value [OF documented_lib_ok, where objs = "[]" and rest = "[]" and bad = "Other ''int''"])
    (simp_all add: cacheReader_candidates_def sample_list_options_def all_client_def selected_def
      map_filter_def)

end
