(* ===== verification/Wildcard.thy ===== *)
theory Wildcard
  imports Cache_Reader
begin

text \<open>
  The wildcard cache of \<open>virtualworkspace/wildcard.go\<close>: its construction, the informer
  tracker with the \<open>NewInformer\<close> hook that fills it, \<open>getSharedInformer\<close> and \<open>IndexField\<close>.
  The embedded controller-runtime cache, the REST mapper, the scheme and the informers are
  third-party values and appear as the functions the code calls on them.
\<close>

section \<open>Third-party values\<close>

text \<open>
  A \<open>SharedIndexInformer\<close> is known by its identity and its indexer. A \<open>*runtime.Scheme\<close> is
  used through \<open>apiutil.GVKForObject\<close>, a \<open>RESTMapper\<close> through the scope of
  \<open>RESTMapping\<close>. An HTTP client is an opaque handle.
\<close>

record shared_informer =
  inf_id :: nat
  GetIndexer :: indexer

type_synonym scheme = "go_type \<Rightarrow> gvk \<Rightarrow> gvk outcome"
type_synonym rest_mapper = "gvk \<Rightarrow> scope outcome"
type_synonym http_client = nat
type_synonym extractor = "object \<Rightarrow> string list"

record rest_config =
  Host :: string
  cfg_rest :: string

text \<open>
  The methods of a \<open>cache.Cache\<close> the program calls. An error-only result is an error option.
  \<open>GetInformer\<close> and \<open>GetInformerForKind\<close> hand out informer handles.
\<close>

record base_cache =
  WaitForCacheSync :: bool
  base_IndexField :: "go_type \<Rightarrow> string \<Rightarrow> extractor \<Rightarrow> go_error option"
  base_GetInformer :: "go_type \<Rightarrow> nat outcome"
  base_GetInformerForKind :: "gvk \<Rightarrow> nat outcome"
  base_Start :: "go_error option"

text \<open>\<open>strings.TrimSuffix\<close>.\<close>

definition TrimSuffix :: "string \<Rightarrow> string \<Rightarrow> string" where
  "TrimSuffix s suf = (if suffix suf s then take (length s - length suf) s else s)"

lemma TrimSuffix_append [simp]: "TrimSuffix (s @ suf) suf = s"
  by (simp add: TrimSuffix_def suffix_def)

lemma TrimSuffix_other: "\<not> suffix suf s \<Longrightarrow> TrimSuffix s suf = s"
  by (simp add: TrimSuffix_def)

section \<open>The informer tracker\<close>

text \<open>
  The tracker's three maps and its write lock (\<open>lock\<close> is true while a goroutine holds it).
  \<open>informersByType\<close> returns a Go map, that is, a reference to one of the three.
\<close>

record informerTracker =
  lock :: bool
  Structured :: "gvk \<rightharpoonup> shared_informer"
  Unstructured :: "gvk \<rightharpoonup> shared_informer"
  Metadata :: "gvk \<rightharpoonup> shared_informer"

datatype informer_map = StructuredMap | UnstructuredMap | MetadataMap

fun informersByType :: "go_type \<Rightarrow> informer_map" where
  "informersByType UnstructuredT = UnstructuredMap"
| "informersByType UnstructuredListT = UnstructuredMap"
| "informersByType PartialObjectMetadataT = MetadataMap"
| "informersByType PartialObjectMetadataListT = MetadataMap"
| "informersByType (TypedT s) = StructuredMap"

definition read_map :: "informerTracker \<Rightarrow> informer_map \<Rightarrow> gvk \<Rightarrow> shared_informer option" where
  "read_map t infs g =
     (case infs of
        StructuredMap \<Rightarrow> Structured t g
      | UnstructuredMap \<Rightarrow> Unstructured t g
      | MetadataMap \<Rightarrow> Metadata t g)"

definition write_map :: "informer_map \<Rightarrow> gvk \<Rightarrow> shared_informer \<Rightarrow> informerTracker \<Rightarrow> informerTracker" where
  "write_map infs g si t =
     (case infs of
        StructuredMap \<Rightarrow> t\<lparr>Structured := (Structured t)(g \<mapsto> si)\<rparr>
      | UnstructuredMap \<Rightarrow> t\<lparr>Unstructured := (Unstructured t)(g \<mapsto> si)\<rparr>
      | MetadataMap \<Rightarrow> t\<lparr>Metadata := (Metadata t)(g \<mapsto> si)\<rparr>)"

definition empty_tracker :: informerTracker where
  "empty_tracker =
     \<lparr>lock = False, Structured = Map.empty, Unstructured = Map.empty, Metadata = Map.empty\<rparr>"

text \<open>The law a registry of informers keeps, and what follows for a series of insertions.\<close>

locale informer_registry =
  fixes look :: "'t \<Rightarrow> 'k \<Rightarrow> 'v option"
    and put :: "'k \<Rightarrow> 'v \<Rightarrow> 't \<Rightarrow> 't"
    and start :: 't
  assumes look_start: "look start k = None"
    and look_put: "look (put k v t) k' = (if k = k' then Some v else look t k')"
begin

lemma look_fold_notin:
  "k \<notin> set (map fst kvs) \<Longrightarrow> look (fold (\<lambda>(k, v). put k v) kvs t) k = look t k"
  by (induction kvs arbitrary: t) (auto simp: look_put)

lemma look_fold:
  "distinct (map fst kvs) \<Longrightarrow>
   look (fold (\<lambda>(k, v). put k v) kvs t) k =
     (case map_of kvs k of Some v \<Rightarrow> Some v | None \<Rightarrow> look t k)"
proof (induction kvs arbitrary: t)
  case (Cons x kvs)
  obtain k1 v1 where x: "x = (k1, v1)" by (cases x)
  show ?case
  proof (cases "k1 = k")
    case True
    then have "k \<notin> set (map fst kvs)" using Cons.prems by (simp add: x)
    then have "look (fold (\<lambda>(k, v). put k v) kvs (put k1 v1 t)) k = look (put k1 v1 t) k"
      by (rule look_fold_notin)
    with True show ?thesis by (simp add: x look_put)
  next
    case False
    then show ?thesis using Cons by (simp add: x look_put split: option.splits)
  qed
qed simp

lemma look_fold_start:
  "distinct (map fst kvs) \<Longrightarrow> look (fold (\<lambda>(k, v). put k v) kvs start) k = map_of kvs k"
  by (simp add: look_fold look_start split: option.splits)

end

interpretation trk: informer_registry
    "\<lambda>t (infs, g). read_map t infs g" "\<lambda>(infs, g) si t. write_map infs g si t" empty_tracker
  by unfold_locales
    (auto simp: read_map_def write_map_def empty_tracker_def split: informer_map.splits if_splits)

lemma read_write_map:
  "read_map (write_map infs g si t) infs' g' =
     (if infs = infs' \<and> g = g' then Some si else read_map t infs' g')"
  using trk.look_put [of "(infs, g)" si t "(infs', g')"] by simp

lemma lock_write_map [simp]: "lock (write_map infs g si t) = lock t"
  by (simp add: write_map_def split: informer_map.splits)

lemma read_map_lock [simp]: "read_map (t\<lparr>lock := b\<rparr>) infs g = read_map t infs g"
  by (simp add: read_map_def split: informer_map.splits)

section \<open>The NewInformer hook\<close>

text \<open>
  The closure \<open>opts.NewInformer\<close>. \<open>inf0\<close> is the informer \<open>NewSharedIndexInformer\<close> returned,
  \<open>addIndexers\<close> its method \<open>AddIndexers\<close> (the informer afterwards and an error). The result
  has the returned informer or the panic, the tracker afterwards, and the errors given to
  \<open>HandleError\<close>. A second informer for the same type and GroupVersionKind panics between
  \<open>Lock\<close> and \<open>Unlock\<close>, so that branch leaves the lock held.
\<close>

definition newInformer ::
  "kcp_lib \<Rightarrow> scheme \<Rightarrow> (shared_informer \<Rightarrow> indexers \<Rightarrow> shared_informer \<times> go_error option) \<Rightarrow>
   shared_informer \<Rightarrow> go_type \<Rightarrow> gvk \<Rightarrow> informerTracker \<Rightarrow>
   shared_informer outcome \<times> informerTracker \<times> go_error list" where
  "newInformer L scheme addIndexers inf0 typ typeMeta t =
     (case scheme typ typeMeta of
        Err err \<Rightarrow> (Panic ''GVKForObject'', t, [])
      | Panic p \<Rightarrow> (Panic p, t, [])
      | Ok g \<Rightarrow>
          let (si, err) = addIndexers inf0
                [ClusterIndexName L \<mapsto> ClusterIndexFunc L,
                 ClusterAndNamespaceIndexName L \<mapsto> ClusterAndNamespaceIndexFunc L];
              handled = (case err of
                  None \<Rightarrow> []
                | Some e \<Rightarrow> [Wrapf ''unable to add cluster name indexers: %w'' [] e]);
              infs = informersByType typ;
              t = t\<lparr>lock := True\<rparr>
          in if read_map t infs g \<noteq> None
             then (Panic ''informer for %s already exists'', t, handled)
             else let t = write_map infs g si t;
                      t = t\<lparr>lock := False\<rparr>
                  in (Ok si, t, handled))"

section \<open>The wildcard cache\<close>

text \<open>
  The options of \<open>cache.New\<close> the program reads or sets. A hook is a function of the third-party
  functions the closure calls, then of the arguments of \<open>newInformer\<close> above.
\<close>

type_synonym informer_hook =
  "kcp_lib \<Rightarrow> (shared_informer \<Rightarrow> indexers \<Rightarrow> shared_informer \<times> go_error option) \<Rightarrow>
   shared_informer \<Rightarrow> go_type \<Rightarrow> gvk \<Rightarrow> informerTracker \<Rightarrow>
   shared_informer outcome \<times> informerTracker \<times> go_error list"

record cache_options =
  opt_Scheme :: "scheme option"
  opt_HTTPClient :: "http_client option"
  opt_Mapper :: "rest_mapper option"
  opt_NewInformer :: "informer_hook option"

text \<open>Constructors of client-go and controller-runtime.\<close>

record ctor_lib =
  default_Scheme :: scheme
  HTTPClientFor :: "rest_config \<Rightarrow> http_client outcome"
  NewDynamicRESTMapper :: "rest_config \<Rightarrow> http_client \<Rightarrow> rest_mapper outcome"
  cache_New :: "rest_config \<Rightarrow> cache_options \<Rightarrow> base_cache outcome"

record wildcardCache =
  wc_Cache :: base_cache
  wc_scheme :: scheme
  wc_mapper :: rest_mapper
  wc_tracker :: informerTracker

text \<open>The two defaulted options: the given value, or the one the constructor returns.\<close>

definition default_HTTPClient ::
  "ctor_lib \<Rightarrow> rest_config \<Rightarrow> http_client option \<Rightarrow> http_client outcome" where
  "default_HTTPClient K config given =
     (case given of
        Some http \<Rightarrow> Ok http
      | None \<Rightarrow>
          (case HTTPClientFor K config of
             Err err \<Rightarrow> Err (Wrapf ''could not create HTTP client from config: %w'' [] err)
           | Panic p \<Rightarrow> Panic p
           | Ok http \<Rightarrow> Ok http))"

definition default_Mapper ::
  "ctor_lib \<Rightarrow> rest_config \<Rightarrow> http_client \<Rightarrow> rest_mapper option \<Rightarrow> rest_mapper outcome" where
  "default_Mapper K config http given =
     (case given of
        Some mapper \<Rightarrow> Ok mapper
      | None \<Rightarrow>
          (case NewDynamicRESTMapper K config http of
             Err err \<Rightarrow> Err (Wrapf ''could not create RESTMapper from config: %w'' [] err)
           | Panic p \<Rightarrow> Panic p
           | Ok mapper \<Rightarrow> Ok mapper))"

text \<open>The configuration is copied before its host is changed, so the caller's is untouched.\<close>

definition NewWildcardCache ::
  "ctor_lib \<Rightarrow> rest_config \<Rightarrow> cache_options \<Rightarrow> wildcardCache outcome" where
  "NewWildcardCache K config opts =
     (let config = config\<lparr>Host := TrimSuffix (Host config) ''/'' @ ''/clusters/*''\<rparr>;
          scheme = (case opt_Scheme opts of None \<Rightarrow> default_Scheme K | Some s \<Rightarrow> s);
          opts = opts\<lparr>opt_Scheme := Some scheme\<rparr>
      in (case default_HTTPClient K config (opt_HTTPClient opts) of
            Err err \<Rightarrow> Err err
          | Panic p \<Rightarrow> Panic p
          | Ok http \<Rightarrow>
              (let opts = opts\<lparr>opt_HTTPClient := Some http\<rparr>
               in (case default_Mapper K config http (opt_Mapper opts) of
                     Err err \<Rightarrow> Err err
                   | Panic p \<Rightarrow> Panic p
                   | Ok mapper \<Rightarrow>
                       (let opts = opts\<lparr>opt_Mapper := Some mapper\<rparr>;
                            opts = opts\<lparr>opt_NewInformer := Some (\<lambda>L. newInformer L scheme)\<rparr>
                        in (case cache_New K config opts of
                              Err err \<Rightarrow> Err err
                            | Panic p \<Rightarrow> Panic p
                            | Ok base \<Rightarrow>
                                Ok \<lparr>wc_Cache = base, wc_scheme = scheme, wc_mapper = mapper,
                                    wc_tracker = empty_tracker\<rparr>))))))"
text \<open>
  \<open>getSharedInformer\<close>, from the read lock on: the informer is \<open>None\<close> for the nil interface
  a missing map entry yields, with the result \<open>ok\<close> false.
\<close>

definition getSharedInformer ::
  "wildcardCache \<Rightarrow> go_type \<Rightarrow> gvk \<Rightarrow> (shared_informer option \<times> gvk \<times> scope \<times> bool) outcome" where
  "getSharedInformer c typ typeMeta =
     (case wc_scheme c typ typeMeta of
        Err err \<Rightarrow> Err err
      | Panic p \<Rightarrow> Panic p
      | Ok g \<Rightarrow>
          (case wc_mapper c g of
             Err err \<Rightarrow> Err err
           | Panic p \<Rightarrow> Panic p
           | Ok sc \<Rightarrow>
               let infs = informersByType typ;
                   si = read_map (wc_tracker c) infs g
               in Ok (si, g, sc, si \<noteq> None)))"

section \<open>IndexField\<close>

text \<open>\<open>logicalcluster.From\<close> of a \<open>client.Object\<close>; its static type guarantees metadata.\<close>

definition object_From :: "kcp_lib \<Rightarrow> object \<Rightarrow> string" where
  "object_From L ob = (case ometa ob of Some m \<Rightarrow> lc_From L m | None \<Rightarrow> '''')"

text \<open>The loop that fills \<open>withCluster\<close>, at index \<open>i\<close> of \<open>n\<close> keys.\<close>

fun fill_withCluster :: "string \<Rightarrow> nat \<Rightarrow> nat \<Rightarrow> string list \<Rightarrow> string list \<Rightarrow> string list" where
  "fill_withCluster cl n i [] withCluster = withCluster"
| "fill_withCluster cl n i (key # keys) withCluster =
     fill_withCluster cl n (Suc i) keys
       (withCluster[i := cl @ ''/'' @ key, i + n := ''*/'' @ key])"

definition withCluster_extractor :: "kcp_lib \<Rightarrow> extractor \<Rightarrow> extractor" where
  "withCluster_extractor L extractValue ob =
     (let keys = extractValue ob
      in fill_withCluster (object_From L ob) (length keys) 0 keys
           (replicate (length keys * 2) ''''))"

definition wildcardCache_IndexField ::
  "kcp_lib \<Rightarrow> wildcardCache \<Rightarrow> go_type \<Rightarrow> string \<Rightarrow> extractor \<Rightarrow> go_error option" where
  "wildcardCache_IndexField L c typ field extractValue =
     base_IndexField (wc_Cache c) typ (''cluster/'' @ field) (withCluster_extractor L extractValue)"

section \<open>Correctness of the tracker\<close>

lemma newInformer_Ok:
  assumes "newInformer L sch addIndexers inf0 typ tm t = (Ok si, t', h)"
  shows "\<exists>g. sch typ tm = Ok g \<and> read_map t (informersByType typ) g = None \<and>
    si = fst (addIndexers inf0 (cluster_indexers L)) \<and>
    t' = (write_map (informersByType typ) g si (t\<lparr>lock := True\<rparr>))\<lparr>lock := False\<rparr>"
  using assms
  by (auto simp: newInformer_def cluster_indexers_def Let_def split: outcome.splits prod.splits if_splits)

text \<open>
  Functional correctness of the \<open>NewInformer\<close> hook with \<open>getSharedInformer\<close>: the informer
  the hook returned is what \<open>getSharedInformer\<close> finds from then on for every object of the
  same class (structured, unstructured or metadata) and GroupVersionKind, together with that
  GroupVersionKind and the mapped scope; for every other class or GroupVersionKind the
  answer is what it was.
\<close>

lemma getSharedInformer_after_newInformer:
  assumes "newInformer L (wc_scheme c) addIndexers inf0 typ tm (wc_tracker c) = (Ok si, t', h)"
    and "wc_scheme c typ tm = Ok g" and "wc_scheme c typ' tm' = Ok g'" and "wc_mapper c g' = Ok sc"
  shows "getSharedInformer (c\<lparr>wc_tracker := t'\<rparr>) typ' tm' =
    (if informersByType typ' = informersByType typ \<and> g' = g then Ok (Some si, g', sc, True)
     else getSharedInformer c typ' tm')"
  using newInformer_Ok [OF assms(1)] assms(2-4)
  by (auto simp: getSharedInformer_def read_write_map)

definition sample_scheme :: scheme where
  "sample_scheme typ tm = Ok tm"

definition sample_mapper :: rest_mapper where
  "sample_mapper g = (if Kind g = ''ConfigMap'' then Ok NamespaceScope
                      else Err (External ''no matches for kind''))"

definition sample_base :: base_cache where
  "sample_base =
     \<lparr>WaitForCacheSync = True, base_IndexField = (\<lambda>typ field ex. None),
      base_GetInformer = (\<lambda>typ. Ok 0), base_GetInformerForKind = (\<lambda>g. Ok 0), base_Start = None\<rparr>"

definition sample_wildcard :: wildcardCache where
  "sample_wildcard =
     \<lparr>wc_Cache = sample_base, wc_scheme = sample_scheme, wc_mapper = sample_mapper,
      wc_tracker = empty_tracker\<rparr>"

text \<open>\<open>AddIndexers\<close> as documented: the informer's indexers are extended by the given ones.\<close>

definition extend_indexers :: "shared_informer \<Rightarrow> indexers \<Rightarrow> shared_informer \<times> go_error option" where
  "extend_indexers si fns =
     (si\<lparr>GetIndexer := (GetIndexer si)\<lparr>GetIndexers := GetIndexers (GetIndexer si) ++ fns\<rparr>\<rparr>, None)"

definition sample_informer :: shared_informer where
  "sample_informer = \<lparr>inf_id = 7, GetIndexer = sample_indexer\<rparr>"

lemmas sample_wildcard_defs = sample_wildcard_def sample_scheme_def sample_mapper_def

lemma sample_new:
  "newInformer documented_lib (wc_scheme sample_wildcard) (\<lambda>i fns. (i, None)) sample_informer
     (TypedT ''*v1.ConfigMap'') configmap_gvk (wc_tracker sample_wildcard) =
   (Ok sample_informer, (write_map StructuredMap configmap_gvk sample_informer
       (empty_tracker\<lparr>lock := True\<rparr>))\<lparr>lock := False\<rparr>, [])"
  by (simp add: newInformer_def sample_wildcard_defs read_map_def empty_tracker_def)

lemma getSharedInformer_after_newInformer_witness:
  "getSharedInformer (sample_wildcard\<lparr>wc_tracker :=
      (write_map StructuredMap configmap_gvk sample_informer (empty_tracker\<lparr>lock := True\<rparr>))\<lparr>lock := False\<rparr>\<rparr>)
     (TypedT ''*v1.ConfigMap'') configmap_gvk =
   Ok (Some sample_informer, configmap_gvk, NamespaceScope, True)"
  using getSharedInformer_after_newInformer [OF sample_new, of configmap_gvk
      "TypedT ''*v1.ConfigMap''" configmap_gvk configmap_gvk NamespaceScope]
  by (simp add: sample_wildcard_defs configmap_gvk_def)

text \<open>
  A series of hook calls: what each was called with and the informer it was given. The run
  stops at the first panic (\<open>None\<close>).
\<close>

record hook_call =
  hc_type :: go_type
  hc_meta :: gvk
  hc_informer :: shared_informer

fun run_hooks ::
  "kcp_lib \<Rightarrow> scheme \<Rightarrow> (shared_informer \<Rightarrow> indexers \<Rightarrow> shared_informer \<times> go_error option) \<Rightarrow>
   hook_call list \<Rightarrow> informerTracker \<Rightarrow> informerTracker option" where
  "run_hooks L sch add [] t = Some t"
| "run_hooks L sch add (call # calls) t =
     (case newInformer L sch add (hc_informer call) (hc_type call) (hc_meta call) t of
        (Ok si, t', h) \<Rightarrow> run_hooks L sch add calls t'
      | _ \<Rightarrow> None)"

text \<open>
  What a call registers, given the GroupVersionKind \<open>gv\<close> of its object: the informer that
  \<open>AddIndexers\<close> leaves, under the class and the GroupVersionKind.
\<close>

definition hook_key :: "(hook_call \<Rightarrow> gvk) \<Rightarrow> hook_call \<Rightarrow> informer_map \<times> gvk" where
  "hook_key gv call = (informersByType (hc_type call), gv call)"

definition hook_entry ::
  "kcp_lib \<Rightarrow> (shared_informer \<Rightarrow> indexers \<Rightarrow> shared_informer \<times> go_error option) \<Rightarrow>
   (hook_call \<Rightarrow> gvk) \<Rightarrow> hook_call \<Rightarrow> (informer_map \<times> gvk) \<times> shared_informer" where
  "hook_entry L add gv call = (hook_key gv call, fst (add (hc_informer call) (cluster_indexers L)))"

abbreviation put_entry :: "(informer_map \<times> gvk) \<times> shared_informer \<Rightarrow> informerTracker \<Rightarrow> informerTracker" where
  "put_entry \<equiv> (\<lambda>(k, v). (\<lambda>(infs, g) si t. write_map infs g si t) k v)"
lemma newInformer_result:
  "sch typ tm = Ok g \<Longrightarrow>
   newInformer L sch add inf0 typ tm t =
     (let (si, err) = add inf0 (cluster_indexers L);
          h = (case err of None \<Rightarrow> [] | Some e \<Rightarrow> [Wrapf ''unable to add cluster name indexers: %w'' [] e])
      in if read_map t (informersByType typ) g \<noteq> None
         then (Panic ''informer for %s already exists'', t\<lparr>lock := True\<rparr>, h)
         else (Ok si, (write_map (informersByType typ) g si (t\<lparr>lock := True\<rparr>))\<lparr>lock := False\<rparr>, h))"
  by (simp add: newInformer_def cluster_indexers_def Let_def split: prod.splits)

lemma lock_toggle: "\<not> lock t \<Longrightarrow> (write_map m g si (t\<lparr>lock := True\<rparr>))\<lparr>lock := False\<rparr> = write_map m g si t"
  by (cases t) (auto simp: write_map_def split: informer_map.splits)

lemma run_hooks_fold:
  assumes "\<forall>call \<in> set calls. sch (hc_type call) (hc_meta call) = Ok (gv call)"
    and "\<not> lock t"
  shows "run_hooks L sch add calls t =
    (if distinct (map (hook_key gv) calls) \<and>
        (\<forall>call \<in> set calls. (\<lambda>(m, g). read_map t m g) (hook_key gv call) = None)
     then Some (fold put_entry (map (hook_entry L add gv) calls) t) else None)"
  using assms
proof (induction calls arbitrary: t)
  case Nil
  then show ?case by simp
next
  case (Cons call calls)
  have g: "sch (hc_type call) (hc_meta call) = Ok (gv call)" using Cons.prems(1) by simp
  let ?m = "informersByType (hc_type call)"
  let ?t = "write_map ?m (gv call) (fst (add (hc_informer call) (cluster_indexers L))) t"
  have step: "run_hooks L sch add (call # calls) t =
      (if read_map t ?m (gv call) \<noteq> None then None else run_hooks L sch add calls ?t)"
    using newInformer_result [where sch = sch, OF g] lock_toggle [OF Cons.prems(2)]
    by (simp add: Let_def split: prod.splits)
  have IH: "run_hooks L sch add calls ?t =
      (if distinct (map (hook_key gv) calls) \<and>
          (\<forall>call \<in> set calls. (\<lambda>(m, g). read_map ?t m g) (hook_key gv call) = None)
       then Some (fold put_entry (map (hook_entry L add gv) calls) ?t) else None)"
    by (rule Cons.IH) (use Cons.prems in auto)
  have hk: "hook_key gv call = (?m, gv call)" by (simp add: hook_key_def)
  have he: "hook_entry L add gv call =
      ((?m, gv call), fst (add (hc_informer call) (cluster_indexers L)))"
    by (simp add: hook_entry_def hk)
  have rd: "(\<lambda>(m, g). read_map ?t m g) k = None \<longleftrightarrow>
      k \<noteq> hook_key gv call \<and> (\<lambda>(m, g). read_map t m g) k = None" for k
    by (auto simp: read_write_map hook_key_def split: prod.splits)
  show ?case
    unfolding step IH rd by (auto simp: he hk) (metis imageI)
qed

lemma lock_fold_put [simp]: "lock (fold put_entry kvs t) = lock t"
  by (induction kvs arbitrary: t) (simp_all add: case_prod_beta)

lemma run_hooks_empty:
  assumes "\<forall>call \<in> set calls. sch (hc_type call) (hc_meta call) = Ok (gv call)"
  shows "run_hooks L sch add calls empty_tracker =
    (if distinct (map (hook_key gv) calls)
     then Some (fold put_entry (map (hook_entry L add gv) calls) empty_tracker) else None)"
proof -
  have "\<not> lock empty_tracker" "read_map empty_tracker m g = None" for m g
    using trk.look_start [of "(m, g)"] by (auto simp: empty_tracker_def)
  then show ?thesis using run_hooks_fold [OF assms, of empty_tracker L add] by (simp split: prod.splits)
qed

lemma read_map_entries:
  assumes "distinct (map (hook_key gv) calls)"
  shows "read_map (fold put_entry (map (hook_entry L add gv) calls) empty_tracker) m g =
    map_of (map (hook_entry L add gv) calls) (m, g)"
proof -
  have "map fst (map (hook_entry L add gv) calls) = map (hook_key gv) calls"
    by (simp add: hook_entry_def)
  with assms show ?thesis
    using trk.look_fold_start [of "map (hook_entry L add gv) calls" "(m, g)"]
    by (simp only: prod.case)
qed

text \<open>
  C28. Invariant of the tracker: starting from the empty tracker, a series of hook calls runs
  without a panic exactly when no two of them have the same class and GroupVersionKind, and
  then the write lock is free again and the tracker holds exactly the informers the calls
  returned, each under its class and GroupVersionKind.
\<close>

theorem tracker_invariant:
  assumes "\<forall>call \<in> set calls. sch (hc_type call) (hc_meta call) = Ok (gv call)"
  shows "(case run_hooks L sch add calls empty_tracker of
      None \<Rightarrow> \<not> distinct (map (hook_key gv) calls)
    | Some t \<Rightarrow> distinct (map (hook_key gv) calls) \<and> \<not> lock t \<and>
        (\<forall>m g. read_map t m g = map_of (map (hook_entry L add gv) calls) (m, g)))"
proof -
  have "\<not> lock empty_tracker" by (simp add: empty_tracker_def)
  then show ?thesis by (simp add: run_hooks_empty [OF assms] read_map_entries)
qed

definition sample_calls :: "hook_call list" where
  "sample_calls =
     [\<lparr>hc_type = TypedT ''*v1.ConfigMap'', hc_meta = configmap_gvk, hc_informer = sample_informer\<rparr>,
      \<lparr>hc_type = UnstructuredT, hc_meta = configmap_gvk, hc_informer = sample_informer\<lparr>inf_id := 8\<rparr>\<rparr>]"

theorem tracker_invariant_witness:
  "\<exists>t. run_hooks documented_lib sample_scheme (\<lambda>i fns. (i, None)) sample_calls empty_tracker = Some t \<and>
     read_map t UnstructuredMap configmap_gvk = Some (sample_informer\<lparr>inf_id := 8\<rparr>)"
proof -
  have ok: "\<forall>call \<in> set sample_calls. sample_scheme (hc_type call) (hc_meta call) = Ok (hc_meta call)"
    by (simp add: sample_scheme_def)
  have dist: "distinct (map (hook_key hc_meta) sample_calls)"
    by (simp add: sample_calls_def hook_key_def)
  show ?thesis
    using tracker_invariant [OF ok, of documented_lib "\<lambda>i fns. (i, None)"] dist
    by (auto simp: sample_calls_def hook_entry_def hook_key_def split: option.splits)
qed

text \<open>
  The hook wires the scope indexes: when \<open>AddIndexers\<close> extends an informer's indexers,
  as documented, the informer the hook returns has the cluster index and the
  cluster-and-namespace index that the cache reader lists by.
\<close>

lemma newInformer_cluster_aware:
  assumes "lib_ok L" and "sch typ tm = Ok g" and "read_map t (informersByType typ) g = None"
  shows "\<exists>si t'. newInformer L sch extend_indexers inf0 typ tm t = (Ok si, t', []) \<and>
    cluster_aware L (GetIndexer si)"
  using newInformer_result [where sch = sch, OF assms(2)] assms(1,3)
  by (auto simp: extend_indexers_def Let_def cluster_aware_def cluster_indexers_def lib_ok_def)

lemma newInformer_cluster_aware_witness:
  "\<exists>si t'. newInformer documented_lib sample_scheme extend_indexers
       (sample_informer\<lparr>GetIndexer := snapshot_indexer Map.empty []\<rparr>)
       (TypedT ''*v1.ConfigMap'') configmap_gvk empty_tracker = (Ok si, t', []) \<and>
     cluster_aware documented_lib (GetIndexer si)"
  by (rule newInformer_cluster_aware [OF documented_lib_ok])
    (simp_all add: sample_scheme_def read_map_def empty_tracker_def)

text \<open>
  C31. The duplicate branch of the hook: a second informer for a class and GroupVersionKind
  panics, registers nothing, and leaves the tracker's write lock held for ever, because the
  panic happens between \<open>Lock\<close> and \<open>Unlock\<close> with no deferred unlock; every later read of the
  tracker blocks if the panic is recovered.
\<close>

theorem newInformer_duplicate:
  assumes "sch typ tm = Ok g" and "read_map t (informersByType typ) g \<noteq> None"
  shows "panics (fst (newInformer L sch add inf0 typ tm t)) \<and>
    lock (fst (snd (newInformer L sch add inf0 typ tm t))) \<and>
    (\<forall>m g'. read_map (fst (snd (newInformer L sch add inf0 typ tm t))) m g' = read_map t m g')"
  using newInformer_result [where sch = sch, OF assms(1)] assms(2)
  by (auto simp: Let_def split: prod.splits)

theorem newInformer_duplicate_witness:
  "lock (fst (snd (newInformer documented_lib sample_scheme extend_indexers sample_informer
     (TypedT ''*v1.ConfigMap'') configmap_gvk
     (write_map StructuredMap configmap_gvk sample_informer empty_tracker))))"
  using newInformer_duplicate [of sample_scheme "TypedT ''*v1.ConfigMap''" configmap_gvk configmap_gvk
      "write_map StructuredMap configmap_gvk sample_informer empty_tracker" documented_lib
      extend_indexers sample_informer]
  by (simp add: sample_scheme_def read_write_map)

section \<open>Correctness of IndexField\<close>

lemma fill_withCluster_length [simp]:
  "length (fill_withCluster cl n i keys arr) = length arr"
  by (induction keys arbitrary: i arr) auto

lemma fill_withCluster_split:
  "length front = i \<Longrightarrow> length mid = n - i \<Longrightarrow> i + length keys = n \<Longrightarrow> length bk = i \<Longrightarrow>
   length rest = n - i \<Longrightarrow>
   fill_withCluster cl n i keys (front @ mid @ bk @ rest) =
     front @ map (\<lambda>k. cl @ ''/'' @ k) keys @ bk @ map (\<lambda>k. ''*/'' @ k) keys"
proof (induction keys arbitrary: i front mid bk rest)
  case Nil
  then show ?case by simp
next
  case (Cons k keys)
  from Cons.prems obtain x mid' where mid: "mid = x # mid'" by (cases mid) auto
  from Cons.prems obtain y rest' where rest: "rest = y # rest'" by (cases rest) auto
  let ?a = "cl @ ''/'' @ k" and ?b = "''*/'' @ k"
  have "(front @ mid @ bk @ rest)[i := ?a, i + n := ?b] =
      (front @ [?a]) @ mid' @ (bk @ [?b]) @ rest'"
    using Cons.prems by (auto simp: mid rest list_update_append)
  then show ?case
    using Cons.IH [of "front @ [?a]" "Suc i" mid' "bk @ [?b]" rest'] Cons.prems by (simp add: mid rest)
qed

text \<open>
  \<open>wildcardCache.IndexField\<close>: the extractor handed to the underlying cache, which fills
  a preallocated slice by two index computations, returns every extracted key first under
  the cluster of the object and then under \<open>*\<close>, in order; no slot is left empty or
  written twice.
\<close>

lemma withCluster_extractor_eq:
  "withCluster_extractor L extractValue ob =
     map (\<lambda>k. object_From L ob @ ''/'' @ k) (extractValue ob) @
     map (\<lambda>k. ''*/'' @ k) (extractValue ob)"
proof -
  let ?n = "length (extractValue ob)"
  have eq: "replicate (?n * 2) '''' = [] @ replicate ?n '''' @ [] @ replicate ?n ''''"
    by (simp add: mult_2_right flip: replicate_add)
  show ?thesis
    unfolding withCluster_extractor_def Let_def eq
    using fill_withCluster_split [of "[]" 0 "replicate ?n ''''" ?n "extractValue ob" "[]"
        "replicate ?n ''''"]
    by simp
qed

text \<open>
  Field indexes and the cache reader. controller-runtime files the value \<open>v\<close> of a field
  \<open>f\<close> of an object in namespace \<open>ns\<close> in the index \<open>field:f\<close> under \<open>ns/v\<close> and under the
  name for all namespaces; \<open>fieldIndexName\<close> and \<open>keyToNamespacedKey\<close> are this program's
  copies of those two functions. A store whose field indexes were all registered through
  \<open>wildcardCache.IndexField\<close> is thus one where each of them has the following form.
\<close>

definition indexed_by_IndexField :: "kcp_lib \<Rightarrow> indexer \<Rightarrow> bool" where
  "indexed_by_IndexField L ix \<longleftrightarrow>
     (\<forall>F f. GetIndexers ix (fieldIndexName F) = Some f \<longrightarrow>
        (\<exists>field extractValue. F = ''cluster/'' @ field \<and>
           (\<forall>ob m vs. ometa ob = Some m \<longrightarrow> f (Obj ob) = Ok vs \<longrightarrow>
              set vs \<subseteq> {keyToNamespacedKey ns w | ns w.
                          (ns = '''' \<or> ns = mnamespace m) \<and>
                          w \<in> set (withCluster_extractor L extractValue ob)})))"

lemma two_separators:
  assumes "xs @ a # ys = zs @ b # ws" and "a \<notin> set zs" and "b \<notin> set xs" and "a \<noteq> b"
  shows False
  using assms by (auto simp: append_eq_append_conv2 Cons_eq_append_conv append_eq_Cons_conv)

lemma clustered_key_not_namespaced:
  assumes "cluster_name_ok c" and "CHR ''|'' \<notin> set ns'"
  shows "keyToClusteredKey c ns v \<noteq> keyToNamespacedKey ns' w"
proof
  assume eq: "keyToClusteredKey c ns v = keyToNamespacedKey ns' w"
  let ?p = "if ns' \<noteq> '''' then ns' else allNamespacesNamespace"
  have "c @ CHR ''|'' # keyToNamespacedKey ns v = ?p @ CHR ''/'' # w"
    using eq by (auto simp: keyToClusteredKey_def keyToNamespacedKey_def split: if_splits)
  moreover have "CHR ''|'' \<notin> set ?p" using assms(2) by (simp add: allNamespacesNamespace_def)
  moreover have "CHR ''/'' \<notin> set c" using assms(1) by (simp add: cluster_name_ok_def)
  ultimately show False by (rule two_separators) simp
qed

text \<open>
  C25. Field selectors never find anything through the indexes of \<open>IndexField\<close>: over a
  cluster-aware store whose field indexes were registered that way, \<open>byIndexes\<close> either fails
  for want of an index or returns no object at all, because \<open>IndexField\<close> registers the field
  as \<open>cluster/f\<close> with values \<open>ns/cluster/v\<close> while \<open>byIndexes\<close> looks up values
  \<open>cluster|ns/v\<close>.
\<close>

theorem IndexField_never_matches:
  assumes "indexer_ok ix items" and "well_keyed L items"
    and "GetIndexers ix (ClusterAndNamespaceIndexName L) \<noteq> None"
    and "indexed_by_IndexField L ix" and "cluster_name_ok c"
    and "\<And>ob m. ob \<in> set (stored_objects items) \<Longrightarrow> ometa ob = Some m \<Longrightarrow>
           CHR ''|'' \<notin> set (mnamespace m)"
  shows "byIndexes L ix requires c ns = Ok [] \<or> (\<exists>e. byIndexes L ix requires c ns = Err e)"
proof (cases requires)
  case Nil
  then show ?thesis by (simp add: byIndexes_def)
next
  case (Cons r rs)
  let ?n = "fieldIndexName (req_Field r)" and ?v = "indexed_value L ix c ns r"
  show ?thesis
  proof (cases "GetIndexers ix ?n")
    case None
    then show ?thesis
      using indexer_ok_ByIndex_None [OF assms(1) None, of ?v] by (auto simp: Cons byIndexes_def)
  next
    case (Some f)
    have "\<not> files_under f ?v a" if a: "a \<in> snd ` set items" for a
    proof -
      from a obtain k where mem: "(k, a) \<in> set items" by auto
      from well_keyedD [OF assms(2) mem] obtain ob m where ob: "a = Obj ob" "ometa ob = Some m" by auto
      have bar: "CHR ''|'' \<notin> set (mnamespace m)"
        using assms(6) [OF _ ob(2)] mem ob(1) by (auto simp: stored_objects_mem)
      from indexer_ok_index_Ok [OF assms(1) Some a] obtain vs where vs: "f a = Ok vs" by blast
      have "?v \<notin> set vs"
      proof
        assume "?v \<in> set vs"
        then obtain ns' w where "?v = keyToNamespacedKey ns' w" "ns' = '''' \<or> ns' = mnamespace m"
          using assms(4) Some vs ob unfolding indexed_by_IndexField_def by blast
        then show False
          using clustered_key_not_namespaced [OF assms(5), of ns' ns "req_Value r" w] bar assms(3)
          by (auto simp: indexed_value_def)
      qed
      then show ?thesis by (simp add: files_under_def vs)
    qed
    then have "filter (files_under f ?v) (map snd items) = []" by (auto simp: filter_empty_conv)
    then have "ByIndex ix ?n ?v = Ok []"
      using indexer_ok_ByIndex [OF assms(1) Some, of ?v] by auto
    then show ?thesis by (simp add: Cons byIndexes_def)
  qed
qed

text \<open>A store with a field index of \<open>IndexField\<close> beside the scope indexes, for the witness.\<close>

definition sample_extract :: extractor where
  "sample_extract ob = name_values ob"

definition index_from_IndexField :: "kcp_lib \<Rightarrow> extractor \<Rightarrow> index_fn" where
  "index_from_IndexField L extractValue a =
     (case a of
        Obj ob \<Rightarrow>
          (case ometa ob of
             None \<Rightarrow> Err errNotObject
           | Some m \<Rightarrow> Ok (map (keyToNamespacedKey (mnamespace m)) (withCluster_extractor L extractValue ob) @
                            map (keyToNamespacedKey '''') (withCluster_extractor L extractValue ob)))
      | _ \<Rightarrow> Err errNotObject)"

definition sample_IndexField_indexer :: indexer where
  "sample_IndexField_indexer =
     snapshot_indexer ((cluster_indexers documented_lib)
       (fieldIndexName ''cluster/n'' \<mapsto> index_from_IndexField documented_lib sample_extract))
       sample_items"

lemma sample_IndexField_ok: "indexer_ok sample_IndexField_indexer sample_items"
  unfolding sample_IndexField_indexer_def
  by (rule snapshot_indexer_ok [OF sample_items_ok(2)])
    (auto simp: cluster_indexers_def index_from_IndexField_def sample_items_def sample_item_def
      intro: well_keyed_index_Ok [OF sample_items_ok(1), unfolded sample_items_def]
      split: if_splits)

lemma sample_IndexField_indexed: "indexed_by_IndexField documented_lib sample_IndexField_indexer"
  unfolding indexed_by_IndexField_def
proof (intro allI impI)
  fix F f
  assume "GetIndexers sample_IndexField_indexer (fieldIndexName F) = Some f"
  then have "F = ''cluster/n''" and "f = index_from_IndexField documented_lib sample_extract"
    by (auto simp: sample_IndexField_indexer_def cluster_indexers_def fieldIndexName_def split: if_splits)
  then show "\<exists>field extractValue. F = ''cluster/'' @ field \<and>
      (\<forall>ob m vs. ometa ob = Some m \<longrightarrow> f (Obj ob) = Ok vs \<longrightarrow>
         set vs \<subseteq> {keyToNamespacedKey ns w | ns w. (ns = '''' \<or> ns = mnamespace m) \<and>
                     w \<in> set (withCluster_extractor documented_lib extractValue ob)})"
    by (intro exI [of _ "''n''"] exI [of _ sample_extract]) (auto simp: index_from_IndexField_def)
qed

theorem IndexField_never_matches_witness:
  "byIndexes documented_lib sample_IndexField_indexer [sample_requirement ''cluster/n'' ''cm''] ''c1'' ''default'' = Ok [] \<or>
   (\<exists>e. byIndexes documented_lib sample_IndexField_indexer [sample_requirement ''cluster/n'' ''cm''] ''c1'' ''default'' = Err e)"
proof (rule IndexField_never_matches [OF sample_IndexField_ok sample_items_ok(1) _ sample_IndexField_indexed])
  show "GetIndexers sample_IndexField_indexer (ClusterAndNamespaceIndexName documented_lib) \<noteq> None"
    by (simp add: sample_IndexField_indexer_def cluster_indexers_def)
  show "cluster_name_ok ''c1''" by (simp add: cluster_name_ok_def)
  show "CHR ''|'' \<notin> set (mnamespace m)"
    if "ob \<in> set (stored_objects sample_items)" "ometa ob = Some m" for ob m
    using that by (auto simp: sample_items_def sample_item_def sample_meta_def)
qed

section \<open>Correctness of NewWildcardCache\<close>

definition wildcard_config :: "rest_config \<Rightarrow> string \<Rightarrow> rest_config" where
  "wildcard_config config base = config\<lparr>Host := base @ ''/clusters/*''\<rparr>"

lemma NewWildcardCache_config:
  assumes "\<not> suffix ''/'' base" and "Host config = base \<or> Host config = base @ ''/''"
  shows "config\<lparr>Host := TrimSuffix (Host config) ''/'' @ ''/clusters/*''\<rparr> = wildcard_config config base"
  using assms(2)
proof
  assume "Host config = base"
  then show ?thesis using assms(1) by (simp add: wildcard_config_def TrimSuffix_other)
next
  assume "Host config = base @ ''/''"
  then show ?thesis using TrimSuffix_append [of base "''/''"] by (simp add: wildcard_config_def)
qed

lemma NewWildcardCache_fields:
  assumes "NewWildcardCache K config opts = Ok w"
  shows "wc_scheme w = (case opt_Scheme opts of None \<Rightarrow> default_Scheme K | Some s \<Rightarrow> s)"
    and "wc_tracker w = empty_tracker"
  using assms by (auto simp: NewWildcardCache_def Let_def split: outcome.splits)

text \<open>
  C32. \<open>NewWildcardCache\<close> watches the wildcard endpoint \<open>base/clusters/*\<close>: it is indifferent
  to one trailing slash of the configured base URL, the host it hands to every constructor is
  that endpoint, and \<open>cache.New\<close> gets the defaulted options with the hook that fills the tracker.
\<close>

theorem NewWildcardCache_endpoint:
  assumes "\<not> suffix ''/'' base" and "Host config = base \<or> Host config = base @ ''/''"
    and "NewWildcardCache K config opts = Ok w"
  shows "\<exists>http mapper.
    default_HTTPClient K (wildcard_config config base) (opt_HTTPClient opts) = Ok http \<and>
    default_Mapper K (wildcard_config config base) http (opt_Mapper opts) = Ok mapper \<and>
    cache_New K (wildcard_config config base)
      (opts\<lparr>opt_Scheme := Some (wc_scheme w), opt_HTTPClient := Some http, opt_Mapper := Some mapper,
        opt_NewInformer := Some (\<lambda>L. newInformer L (wc_scheme w))\<rparr>) =
      Ok (wc_Cache w) \<and>
    wc_scheme w = (case opt_Scheme opts of None \<Rightarrow> default_Scheme K | Some s \<Rightarrow> s) \<and>
    wc_mapper w = mapper \<and> wc_tracker w = empty_tracker"
  using assms(3)
  by (auto simp: NewWildcardCache_def Let_def NewWildcardCache_config [OF assms(1,2)]
      split: outcome.splits)

definition sample_ctor :: ctor_lib where
  "sample_ctor =
     \<lparr>default_Scheme = sample_scheme, HTTPClientFor = (\<lambda>cfg. Ok 1),
      NewDynamicRESTMapper = (\<lambda>cfg http. Ok sample_mapper), cache_New = (\<lambda>cfg opts. Ok sample_base)\<rparr>"

definition sample_config :: rest_config where
  "sample_config = \<lparr>Host = ''https://kcp:6443/services/apiexport/'', cfg_rest = ''''\<rparr>"

definition no_options :: cache_options where
  "no_options = \<lparr>opt_Scheme = None, opt_HTTPClient = None, opt_Mapper = None, opt_NewInformer = None\<rparr>"

lemma sample_NewWildcardCache: "NewWildcardCache sample_ctor sample_config no_options = Ok sample_wildcard"
  by (simp add: NewWildcardCache_def sample_ctor_def sample_wildcard_def no_options_def
      default_HTTPClient_def default_Mapper_def)

theorem NewWildcardCache_endpoint_witness:
  "default_HTTPClient sample_ctor
     (wildcard_config sample_config ''https://kcp:6443/services/apiexport'') None = Ok 1"
proof -
  have base: "\<not> suffix ''/'' ''https://kcp:6443/services/apiexport''" by (simp add: suffix_def)
  show ?thesis
    using NewWildcardCache_endpoint [OF base _ sample_NewWildcardCache]
    by (auto simp: sample_config_def no_options_def default_HTTPClient_def sample_ctor_def)
qed

section \<open>The interface of the wildcard cache\<close>

text \<open>
  What a scoped cache may rely on from the wildcard cache below it: \<open>getSharedInformer\<close>
  reports an informer as found exactly when it returns one.
\<close>

locale informer_source =
  fixes source :: "go_type \<Rightarrow> gvk \<Rightarrow> (shared_informer option \<times> gvk \<times> scope \<times> bool) outcome"
  assumes found_iff: "source typ tm = Ok (si, g, sc, found) \<Longrightarrow> found \<longleftrightarrow> si \<noteq> None"
begin

lemma not_found_nil: "source typ tm = Ok (si, g, sc, False) \<Longrightarrow> si = None"
  using found_iff by blast

lemma found_informer: "source typ tm = Ok (si, g, sc, True) \<Longrightarrow> \<exists>i. si = Some i"
  using found_iff by blast

end

interpretation wildcard_source: informer_source "getSharedInformer c" for c
  by unfold_locales (auto simp: getSharedInformer_def Let_def split: outcome.splits)

end
