(* ===== verification/Scoped_Informer.thy ===== *)
theory Scoped_Informer
  imports Wildcard
begin

text \<open>
  The scoped informer of \<open>virtualworkspace/cache.go\<close>: event handlers registered through it
  only see the events of its cluster. A handler is a state transformer, so that what it
  does, and when it panics, is visible.
\<close>

section \<open>Events and handlers\<close>

datatype event =
    OnAdd any bool
  | OnUpdate any any
  | OnDelete any

type_synonym 's handler = "event \<Rightarrow> 's \<Rightarrow> 's outcome"

text \<open>Delivery of a series of events, one after the other; a panic ends the process.\<close>

fun deliver :: "'s handler \<Rightarrow> event list \<Rightarrow> 's \<Rightarrow> 's outcome" where
  "deliver h [] s = Ok s"
| "deliver h (e # es) s =
     (case h e s of
        Ok s' \<Rightarrow> deliver h es s'
      | Err err \<Rightarrow> Err err
      | Panic p \<Rightarrow> Panic p)"

section \<open>The wrapped handlers\<close>

text \<open>
  The three closures of \<open>AddEventHandler\<close>. A failing type assertion without the \<open>ok\<close> result
  panics.
\<close>

definition scoped_AddFunc :: "kcp_lib \<Rightarrow> string \<Rightarrow> 's handler \<Rightarrow> any \<Rightarrow> bool \<Rightarrow> 's \<Rightarrow> 's outcome" where
  "scoped_AddFunc L clusterName handler obj isInInitialList s =
     (case as_client_Object obj of
        None \<Rightarrow> Panic ''interface conversion''
      | Some cobj \<Rightarrow>
          if lc_From L cobj = clusterName then handler (OnAdd obj isInInitialList) s else Ok s)"

definition scoped_UpdateFunc :: "kcp_lib \<Rightarrow> string \<Rightarrow> 's handler \<Rightarrow> any \<Rightarrow> any \<Rightarrow> 's \<Rightarrow> 's outcome" where
  "scoped_UpdateFunc L clusterName handler oldObj newObj s =
     (case as_client_Object newObj of
        None \<Rightarrow> Panic ''interface conversion''
      | Some cobj \<Rightarrow>
          if lc_From L cobj = clusterName then handler (OnUpdate oldObj newObj) s else Ok s)"

definition scoped_DeleteFunc :: "kcp_lib \<Rightarrow> string \<Rightarrow> 's handler \<Rightarrow> any \<Rightarrow> 's \<Rightarrow> 's outcome" where
  "scoped_DeleteFunc L clusterName handler obj s =
     (case (case obj of
              Tombstone k tombObj \<Rightarrow> as_client_Object tombObj
            | _ \<Rightarrow> as_client_Object obj) of
        None \<Rightarrow> Panic ''interface conversion''
      | Some cobj \<Rightarrow>
          if lc_From L cobj = clusterName then handler (OnDelete obj) s else Ok s)"

fun scoped_handler :: "kcp_lib \<Rightarrow> string \<Rightarrow> 's handler \<Rightarrow> 's handler" where
  "scoped_handler L cl h (OnAdd obj ini) = scoped_AddFunc L cl h obj ini"
| "scoped_handler L cl h (OnUpdate old new) = scoped_UpdateFunc L cl h old new"
| "scoped_handler L cl h (OnDelete obj) = scoped_DeleteFunc L cl h obj"

text \<open>The closures of \<open>AddEventHandlerWithResyncPeriod\<close>, which are written out again there.\<close>

fun scoped_handler_resync :: "kcp_lib \<Rightarrow> string \<Rightarrow> 's handler \<Rightarrow> 's handler" where
  "scoped_handler_resync L clusterName handler (OnAdd obj isInInitialList) s =
     (case as_client_Object obj of
        None \<Rightarrow> Panic ''interface conversion''
      | Some cobj \<Rightarrow>
          if lc_From L cobj = clusterName then handler (OnAdd obj isInInitialList) s else Ok s)"
| "scoped_handler_resync L clusterName handler (OnUpdate oldObj newObj) s =
     (case as_client_Object newObj of
        None \<Rightarrow> Panic ''interface conversion''
      | Some obj \<Rightarrow>
          if lc_From L obj = clusterName then handler (OnUpdate oldObj newObj) s else Ok s)"
| "scoped_handler_resync L clusterName handler (OnDelete obj) s =
     (case (case obj of
              Tombstone k tombObj \<Rightarrow> as_client_Object tombObj
            | _ \<Rightarrow> as_client_Object obj) of
        None \<Rightarrow> Panic ''interface conversion''
      | Some cobj \<Rightarrow>
          if lc_From L cobj = clusterName then handler (OnDelete obj) s else Ok s)"

text \<open>
  The scoped informer itself: the cluster and the embedded informer, of which the two
  registration methods are called. A registration is an opaque handle.
\<close>

record 's informer =
  AddEventHandler :: "'s handler \<Rightarrow> nat outcome"
  AddEventHandlerWithResyncPeriod :: "'s handler \<Rightarrow> int \<Rightarrow> nat outcome"

record 's scopedInformer =
  sci_clusterName :: string
  Informer :: "'s informer"

definition scopedInformer_AddEventHandler :: "kcp_lib \<Rightarrow> 's scopedInformer \<Rightarrow> 's handler \<Rightarrow> nat outcome" where
  "scopedInformer_AddEventHandler L i handler =
     AddEventHandler (Informer i) (scoped_handler L (sci_clusterName i) handler)"

definition scopedInformer_AddEventHandlerWithResyncPeriod ::
  "kcp_lib \<Rightarrow> 's scopedInformer \<Rightarrow> 's handler \<Rightarrow> int \<Rightarrow> nat outcome" where
  "scopedInformer_AddEventHandlerWithResyncPeriod L i handler resyncPeriod =
     AddEventHandlerWithResyncPeriod (Informer i)
       (scoped_handler_resync L (sci_clusterName i) handler) resyncPeriod"

definition scopedInformer_AddIndexers :: "'s scopedInformer \<Rightarrow> indexers \<Rightarrow> go_error option" where
  "scopedInformer_AddIndexers i fns =
     Some (Errorf ''AddIndexers is not supported on scoped informers'' [])"

section \<open>Filtering event streams\<close>

text \<open>
  The contract of both wrappers: an event of a well-typed stream is passed on unchanged if
  it is selected and skipped otherwise, an ill-typed event panics.
\<close>

locale event_filter =
  fixes wrap :: "'s handler \<Rightarrow> 's handler"
    and mine :: "event \<Rightarrow> bool"
    and typed :: "event \<Rightarrow> bool"
  assumes wrap_typed: "typed e \<Longrightarrow> wrap h e s = (if mine e then h e s else Ok s)"
    and wrap_untyped: "\<not> typed e \<Longrightarrow> panics (wrap h e s)"
begin

lemma deliver_filter:
  "\<forall>e \<in> set es. typed e \<Longrightarrow> deliver (wrap h) es s = deliver h (filter mine es) s"
  by (induction es arbitrary: s) (auto simp: wrap_typed split: outcome.splits)

lemma deliver_untyped:
  assumes "\<forall>e \<in> set es. typed e" and "\<not> typed e" and "deliver h (filter mine es) s = Ok s'"
  shows "panics (deliver (wrap h) (es @ e # es') s)"
proof -
  have app: "deliver h' (xs @ ys) s0 =
      (case deliver h' xs s0 of Ok s1 \<Rightarrow> deliver h' ys s1 | Err e \<Rightarrow> Err e | Panic p \<Rightarrow> Panic p)"
    for h' :: "'s handler" and xs ys s0
    by (induction xs arbitrary: s0) (auto split: outcome.splits)
  show ?thesis
    using wrap_untyped [OF assms(2), of h s'] deliver_filter [OF assms(1), of h s] assms(3)
    by (auto simp: app split: outcome.splits)
qed

end

text \<open>The object whose cluster decides over an event.\<close>

fun event_meta :: "event \<Rightarrow> objmeta option" where
  "event_meta (OnAdd obj ini) = as_client_Object obj"
| "event_meta (OnUpdate old new) = as_client_Object new"
| "event_meta (OnDelete (Tombstone k obj)) = as_client_Object obj"
| "event_meta (OnDelete obj) = as_client_Object obj"

definition event_typed :: "event \<Rightarrow> bool" where
  "event_typed e \<longleftrightarrow> event_meta e \<noteq> None"

definition event_of :: "kcp_lib \<Rightarrow> string \<Rightarrow> event \<Rightarrow> bool" where
  "event_of L cl e \<longleftrightarrow> (case event_meta e of None \<Rightarrow> False | Some m \<Rightarrow> lc_From L m = cl)"

lemma scoped_handler_resync_eq: "scoped_handler_resync L cl h e s = scoped_handler L cl h e s"
  by (cases e) (simp_all add: scoped_AddFunc_def scoped_UpdateFunc_def scoped_DeleteFunc_def)

lemma scoped_handler_cases:
  "scoped_handler L cl h e s =
     (case event_meta e of
        None \<Rightarrow> Panic ''interface conversion''
      | Some m \<Rightarrow> if lc_From L m = cl then h e s else Ok s)"
proof (cases e)
  case (OnDelete obj)
  then show ?thesis by (cases obj) (simp_all add: scoped_DeleteFunc_def split: option.splits)
qed (simp_all add: scoped_AddFunc_def scoped_UpdateFunc_def split: option.splits)

interpretation scoped: event_filter "scoped_handler L cl" "event_of L cl" event_typed for L cl
  by unfold_locales
    (auto simp: scoped_handler_cases event_of_def event_typed_def split: option.splits)

interpretation scoped_resync: event_filter "scoped_handler_resync L cl" "event_of L cl" event_typed
  for L cl
  by unfold_locales
    (auto simp: scoped_handler_resync_eq scoped_handler_cases event_of_def event_typed_def
      split: option.splits)

text \<open>
  C23. Event isolation: for every stream of events of API objects (tombstones included) a
  handler registered through a scoped informer goes through exactly the states it would
  reach on the events of its own cluster alone, in their order, whether it was registered
  with or without a resync period.
\<close>

theorem scoped_informer_isolation:
  assumes "\<forall>e \<in> set es. event_typed e"
  shows "deliver (scoped_handler L cl h) es s = deliver h (filter (event_of L cl) es) s \<and>
    deliver (scoped_handler_resync L cl h) es s = deliver h (filter (event_of L cl) es) s"
  by (intro conjI scoped.deliver_filter [OF assms] scoped_resync.deliver_filter [OF assms])

definition record_event :: "event list handler" where
  "record_event e s = Ok (s @ [e])"

definition sample_events :: "event list" where
  "sample_events =
     [OnAdd (Obj (sample_object ''c1'' ''default'' ''a'')) True,
      OnAdd (Obj (sample_object ''c2'' ''default'' ''a'')) True,
      OnDelete (Tombstone ''k'' (Obj (sample_object ''c1'' ''default'' ''a'')))]"

lemma sample_events_typed: "\<forall>e \<in> set sample_events. event_typed e"
  by (simp add: sample_events_def event_typed_def)

theorem scoped_informer_isolation_witness:
  "deliver (scoped_handler documented_lib ''c1'' record_event) sample_events [] =
     Ok [OnAdd (Obj (sample_object ''c1'' ''default'' ''a'')) True,
         OnDelete (Tombstone ''k'' (Obj (sample_object ''c1'' ''default'' ''a'')))]"
  using scoped_informer_isolation [OF sample_events_typed, of documented_lib "''c1''" record_event "[]"]
  by (simp add: sample_events_def event_of_def record_event_def)

text \<open>
  Errors of the scoped handlers: the first event whose object is not a
  \<open>client.Object\<close> (a tombstone with an unknown object, for instance) panics, where
  the provider's own handlers log it and go on.
\<close>

lemma scoped_informer_panics:
  assumes "\<forall>e \<in> set es. event_typed e" and "\<not> event_typed e"
    and "deliver h (filter (event_of L cl) es) s = Ok s'"
  shows "panics (deliver (scoped_handler L cl h) (es @ e # es') s)"
  using assms by (rule scoped.deliver_untyped)

lemma scoped_informer_panics_witness:
  "panics (deliver (scoped_handler documented_lib ''c1'' record_event)
     (sample_events @ [OnDelete (Tombstone ''k'' (Other ''nil''))]) [])"
  by (rule scoped_informer_panics [OF sample_events_typed])
    (simp_all add: event_typed_def sample_events_def event_of_def record_event_def)

end
