(* ===== verification/Scoped_Cache.thy ===== *)
theory Scoped_Cache
  imports Scoped_Informer
begin

text \<open>
  The scoped cache of \<open>virtualworkspace/cache.go\<close>: the view of one logical cluster on the
  wildcard cache. \<open>Get\<close> and \<open>List\<close> look up the shared informer of the wildcard cache and
  read its indexer through a \<open>cacheReader\<close> for the cluster.
\<close>

section \<open>Operations\<close>

text \<open>
  The base is a pointer to the wildcard cache. No operation here writes to it, so a value stands
  for it: the wildcard cache, with its tracker, as it is at the time of the call.
\<close>

record scopedCache =
  sc_base :: wildcardCache
  sc_clusterName :: string

definition scopedCache_Start :: "scopedCache \<Rightarrow> go_error option" where
  "scopedCache_Start c = Some (Errorf ''scoped cache cannot be started'' [])"

definition scopedCache_WaitForCacheSync :: "scopedCache \<Rightarrow> bool" where
  "scopedCache_WaitForCacheSync c = WaitForCacheSync (wc_Cache (sc_base c))"

definition scopedCache_IndexField ::
  "kcp_lib \<Rightarrow> scopedCache \<Rightarrow> go_type \<Rightarrow> string \<Rightarrow> extractor \<Rightarrow> go_error option" where
  "scopedCache_IndexField L c typ field extractValue =
     wildcardCache_IndexField L (sc_base c) typ field extractValue"

text \<open>
  The common part of \<open>Get\<close> and \<open>List\<close>, from the result of \<open>getSharedInformer\<close> to the reader.
  The check of \<open>found\<close> is commented out in the source, so the flag is not looked at, and
  \<open>inf.GetIndexer()\<close> on the nil interface panics. A GroupVersionKind in an error message is
  listed by its three parts.
\<close>

definition gvk_args :: "gvk \<Rightarrow> string list" where
  "gvk_args g = [Group g, Version g, Kind g]"

definition scoped_reader ::
  "string \<Rightarrow> go_type \<Rightarrow> gvk \<Rightarrow> (shared_informer option \<times> gvk \<times> scope \<times> bool) outcome \<Rightarrow>
   cacheReader outcome" where
  "scoped_reader clusterName typ typeMeta result =
     (case result of
        Err err \<Rightarrow> Err (Wrapf ''failed to get informer for %T %s: %w''
                          (go_type_name typ # gvk_args typeMeta) err)
      | Panic p \<Rightarrow> Panic p
      | Ok (si, g, sc, found) \<Rightarrow>
          (case si of
             None \<Rightarrow> Panic nil_dereference
           | Some si \<Rightarrow>
               Ok \<lparr>cr_indexer = GetIndexer si, cr_gvk = g, cr_scopeName = sc,
                   cr_disableDeepCopy = False, cr_clusterName = clusterName\<rparr>))"

definition scopedCache_Get :: "kcp_lib \<Rightarrow> scopedCache \<Rightarrow> object_key \<Rightarrow> object \<Rightarrow> object outcome" where
  "scopedCache_Get L c key obj =
     (case scoped_reader (sc_clusterName c) (otype obj) (ogvk obj)
             (getSharedInformer (sc_base c) (otype obj) (ogvk obj)) of
        Err err \<Rightarrow> Err err
      | Panic p \<Rightarrow> Panic p
      | Ok cr \<Rightarrow> cacheReader_Get L cr key obj)"

definition scopedCache_List :: "kcp_lib \<Rightarrow> scopedCache \<Rightarrow> objlist \<Rightarrow> list_options \<Rightarrow> objlist outcome" where
  "scopedCache_List L c out lo =
     (case scoped_reader (sc_clusterName c) (ltype out) (lgvk out)
             (getSharedInformer (sc_base c) (ltype out) (lgvk out)) of
        Err err \<Rightarrow> Err err
      | Panic p \<Rightarrow> Panic p
      | Ok cr \<Rightarrow> cacheReader_List L cr out lo)"

text \<open>\<open>informers\<close> gives the methods of the informer behind a handle of the base cache.\<close>

definition scopedCache_GetInformer ::
  "(nat \<Rightarrow> 's informer) \<Rightarrow> scopedCache \<Rightarrow> go_type \<Rightarrow> 's scopedInformer outcome" where
  "scopedCache_GetInformer informers c typ =
     (case base_GetInformer (wc_Cache (sc_base c)) typ of
        Err err \<Rightarrow> Err err
      | Panic p \<Rightarrow> Panic p
      | Ok i \<Rightarrow> Ok \<lparr>sci_clusterName = sc_clusterName c, Informer = informers i\<rparr>)"

definition scopedCache_GetInformerForKind ::
  "(nat \<Rightarrow> 's informer) \<Rightarrow> scopedCache \<Rightarrow> gvk \<Rightarrow> 's scopedInformer outcome" where
  "scopedCache_GetInformerForKind informers c g =
     (case base_GetInformerForKind (wc_Cache (sc_base c)) g of
        Err err \<Rightarrow> Err err
      | Panic p \<Rightarrow> Panic p
      | Ok i \<Rightarrow> Ok \<lparr>sci_clusterName = sc_clusterName c, Informer = informers i\<rparr>)"

definition scopedCache_RemoveInformer :: "scopedCache \<Rightarrow> go_type \<Rightarrow> go_error option" where
  "scopedCache_RemoveInformer c typ =
     Some (Errorf ''informer cannot be removed from scoped cache'' [])"

section \<open>The reader of a scoped cache\<close>

context informer_source
begin

lemma reader_found:
  "scoped_reader cl typ tm (source typ tm) = Ok cr \<longleftrightarrow>
     (\<exists>si g sc. source typ tm = Ok (Some si, g, sc, True) \<and>
        cr = \<lparr>cr_indexer = GetIndexer si, cr_gvk = g, cr_scopeName = sc,
              cr_disableDeepCopy = False, cr_clusterName = cl\<rparr>)"
  using found_iff [of "typ" tm] by (auto simp: scoped_reader_def split: outcome.splits option.splits)

lemma reader_not_found:
  "source typ tm = Ok (si, g, sc, False) \<Longrightarrow>
   scoped_reader cl typ tm (source typ tm) = Panic nil_dereference"
  using not_found_nil [of "typ" tm] by (simp add: scoped_reader_def)

lemma reader_error:
  "source typ tm = Err e \<Longrightarrow>
   \<exists>e'. scoped_reader cl typ tm (source typ tm) = Err e' \<and> (is_NotFound e' \<longleftrightarrow> is_NotFound e)"
  by (simp add: scoped_reader_def)

end

text \<open>
  A scoped cache that is set up for objects of a type: they have a GroupVersionKind, it is
  mapped to a scope, and the tracker has an informer for it.
\<close>

definition informer_ready :: "wildcardCache \<Rightarrow> go_type \<Rightarrow> gvk \<Rightarrow> gvk \<Rightarrow> scope \<Rightarrow> shared_informer \<Rightarrow> bool" where
  "informer_ready w typ tm g sc si \<longleftrightarrow>
     wc_scheme w typ tm = Ok g \<and> wc_mapper w g = Ok sc \<and>
     read_map (wc_tracker w) (informersByType typ) g = Some si"

lemma informer_ready_get:
  "informer_ready w typ tm g sc si \<Longrightarrow> getSharedInformer w typ tm = Ok (Some si, g, sc, True)"
  by (simp add: informer_ready_def getSharedInformer_def)

lemma scoped_reader_ready:
  "informer_ready w typ tm g sc si \<Longrightarrow>
   scoped_reader cl typ tm (getSharedInformer w typ tm) =
     Ok \<lparr>cr_indexer = GetIndexer si, cr_gvk = g, cr_scopeName = sc,
         cr_disableDeepCopy = False, cr_clusterName = cl\<rparr>"
  using wildcard_source.reader_found informer_ready_get by blast

section \<open>Correctness of Get\<close>

text \<open>
  The store of an informer, seen by a scoped cache: contents with distinct keys, the scope
  indexes, and API objects under the keys of their clusters.
\<close>

definition store_ready :: "kcp_lib \<Rightarrow> shared_informer \<Rightarrow> (string \<times> any) list \<Rightarrow> bool" where
  "store_ready L si items \<longleftrightarrow>
     indexer_ok (GetIndexer si) items \<and> cluster_aware L (GetIndexer si) \<and> well_keyed L items"

lemma store_ready_reader:
  assumes "store_ready L si items" and "cluster_name_ok cl"
  shows "reader_ready L \<lparr>cr_indexer = GetIndexer si, cr_gvk = g, cr_scopeName = sc,
     cr_disableDeepCopy = False, cr_clusterName = cl\<rparr> items"
  using assms by (simp add: store_ready_def reader_ready_def)

definition scoped_key :: "scope \<Rightarrow> object_key \<Rightarrow> object_key" where
  "scoped_key sc key = (if sc = RootScope then key\<lparr>knamespace := ''''\<rparr> else key)"

lemma scopedCache_Get_lookup:
  assumes "informer_ready (sc_base c) (otype obj) (ogvk obj) g sc si"
    and "store_ready L si items" and "cluster_name_ok (sc_clusterName c)"
    and "object_key_ok (scoped_key sc key)"
  shows "scopedCache_Get L c key obj =
    (case scoped_lookup L items (sc_clusterName c) (scoped_key sc key) of
       None \<Rightarrow> Err (NotFound (Group g) (Kind g) (kname key))
     | Some ob \<Rightarrow>
         if otype ob \<noteq> otype obj
         then Err (Errorf ''cache had type %s, but %s was asked for''
                     [go_type_name (otype ob), go_type_name (otype obj)])
         else Ok (ob\<lparr>ogvk := g\<rparr>))"
  using Get_eq_lookup [OF store_ready_reader [OF assms(2,3), of g sc], of key obj] assms(4)
  by (auto simp: scopedCache_Get_def scoped_reader_ready [OF assms(1)] scope_key_def scoped_key_def
      split: option.split)

lemma scoped_lookup_iff:
  assumes "store_ready L si items"
  shows "scoped_lookup L items cl k = Some ob \<longleftrightarrow>
    (\<exists>m. ob \<in> set (stored_objects items) \<and> ometa ob = Some m \<and> lc_From L m = cl \<and> meta_key m = k)"
  using scoped_lookup_Some [of L items cl k ob] scoped_lookup_complete [of L items ob]
    assms indexer_ok_distinct [of "GetIndexer si" items]
  by (auto simp: store_ready_def)

text \<open>The objects of a cluster in a store.\<close>

definition objects_of :: "kcp_lib \<Rightarrow> string \<Rightarrow> (string \<times> any) list \<Rightarrow> object set" where
  "objects_of L cl items =
     {ob \<in> set (stored_objects items). case ometa ob of None \<Rightarrow> False | Some m \<Rightarrow> lc_From L m = cl}"

lemma scoped_lookup_cong:
  assumes "store_ready L si1 items1" and "store_ready L si2 items2"
    and "objects_of L cl items1 = objects_of L cl items2"
  shows "scoped_lookup L items1 cl k = scoped_lookup L items2 cl k"
proof -
  have "scoped_lookup L items1 cl k = Some ob \<longleftrightarrow> scoped_lookup L items2 cl k = Some ob" for ob
    using assms(3) unfolding scoped_lookup_iff [OF assms(1)] scoped_lookup_iff [OF assms(2)] objects_of_def
    by (auto simp: set_eq_iff split: option.splits)
  then show ?thesis by (metis not_Some_eq)
qed

text \<open>
  Functional correctness of \<open>scopedCache.Get\<close>, from the wildcard cache's registry to
  the object: it succeeds exactly for an object of its own cluster under the requested key
  (with the namespace dropped for a cluster-scoped resource) and of the requested Go type,
  and returns that object with the registered GroupVersionKind.
\<close>

lemma scopedCache_Get_iff:
  assumes "informer_ready (sc_base c) (otype obj) (ogvk obj) g sc si"
    and "store_ready L si items" and "cluster_name_ok (sc_clusterName c)"
    and "object_key_ok (scoped_key sc key)"
  shows "scopedCache_Get L c key obj = Ok res \<longleftrightarrow>
    (\<exists>ob \<in> objects_of L (sc_clusterName c) items. \<exists>m. ometa ob = Some m \<and>
       meta_key m = scoped_key sc key \<and> otype ob = otype obj \<and> res = ob\<lparr>ogvk := g\<rparr>)"
proof -
  have "scopedCache_Get L c key obj = Ok res \<longleftrightarrow>
      (\<exists>ob. scoped_lookup L items (sc_clusterName c) (scoped_key sc key) = Some ob \<and>
         otype ob = otype obj \<and> res = ob\<lparr>ogvk := g\<rparr>)"
    unfolding scopedCache_Get_lookup [OF assms] by (auto split: option.splits)
  then show ?thesis
    unfolding scoped_lookup_iff [OF assms(2)] objects_of_def by (auto split: option.splits)
qed

text \<open>What both operations give out belongs to the cluster of the cache.\<close>

lemma scopedCache_Get_own:
  assumes "informer_ready (sc_base c) (otype obj) (ogvk obj) g sc si"
    and "store_ready L si items" and "cluster_name_ok (sc_clusterName c)"
    and "object_key_ok (scoped_key sc key)" and "scopedCache_Get L c key obj = Ok res"
  shows "\<exists>ob \<in> objects_of L (sc_clusterName c) items. \<exists>m. ometa ob = Some m \<and>
    lc_From L m = sc_clusterName c \<and> meta_key m = scoped_key sc key \<and> res = ob\<lparr>ogvk := g\<rparr>"
  using assms(5) unfolding scopedCache_Get_iff [OF assms(1-4)]
  by (auto simp: objects_of_def split: option.splits)

lemma scopedCache_List_own:
  assumes "informer_ready (sc_base c) (ltype out) (lgvk out) g sc si"
    and "store_ready L si items" and "cluster_name_ok (sc_clusterName c)" and "lib_ok L"
    and "\<forall>reqs. lo_FieldSelector lo = Some reqs \<longrightarrow>
      (\<forall>r \<in> set reqs. field_keys_own L (GetIndexer si) items (req_Field r))"
    and "scopedCache_List L c out lo = Ok lst"
  shows "\<forall>item \<in> set (litems lst). \<exists>ob \<in> objects_of L (sc_clusterName c) items.
    item = (if lo_UnsafeDisableDeepCopy lo = Some True then ob else ob\<lparr>ogvk := g\<rparr>)"
proof
  fix item assume item: "item \<in> set (litems lst)"
  let ?cr = "\<lparr>cr_indexer = GetIndexer si, cr_gvk = g, cr_scopeName = sc,
     cr_disableDeepCopy = False, cr_clusterName = sc_clusterName c\<rparr>"
  have "cacheReader_List L ?cr out lo = Ok lst"
    using assms(6) by (simp add: scopedCache_List_def scoped_reader_ready [OF assms(1)])
  from List_own [OF assms(4) store_ready_reader [OF assms(2,3)] this _ item]
  obtain ob m where "ob \<in> set (stored_objects items)" "ometa ob = Some m" "lc_From L m = sc_clusterName c"
    "item = list_output ?cr lo ob"
    using assms(5) by auto
  then show "\<exists>ob \<in> objects_of L (sc_clusterName c) items.
      item = (if lo_UnsafeDisableDeepCopy lo = Some True then ob else ob\<lparr>ogvk := g\<rparr>)"
    by (auto simp: objects_of_def list_output_def skipDeepCopy_def intro!: bexI [of _ ob])
qed

definition sample_scoped_cache :: scopedCache where
  "sample_scoped_cache =
     \<lparr>sc_base = sample_wildcard\<lparr>wc_tracker := write_map StructuredMap configmap_gvk sample_informer
                                 empty_tracker\<rparr>,
      sc_clusterName = ''c1''\<rparr>"

lemma sample_informer_ready:
  "informer_ready (sc_base sample_scoped_cache) (TypedT ''*v1.ConfigMap'') configmap_gvk
     configmap_gvk NamespaceScope sample_informer"
  by (simp add: informer_ready_def sample_scoped_cache_def sample_wildcard_defs configmap_gvk_def
      read_write_map)

lemma sample_store_ready: "store_ready documented_lib sample_informer sample_items"
  by (simp add: store_ready_def sample_informer_def sample_indexer_ok sample_items_ok)

lemma sample_object_type [simp]:
  "otype (sample_object c ns n) = TypedT ''*v1.ConfigMap''"
  "ogvk (sample_object c ns n) = configmap_gvk"
  by (simp_all add: sample_object_def)

lemma sample_object_gvk: "(sample_object c ns n)\<lparr>ogvk := configmap_gvk\<rparr> = sample_object c ns n"
  by (simp add: sample_object_def)

lemma scopedCache_Get_iff_witness:
  "scopedCache_Get documented_lib sample_scoped_cache \<lparr>knamespace = ''default'', kname = ''cm''\<rparr>
     (sample_object '''' '''' '''') = Ok (sample_object ''c1'' ''default'' ''cm'')"
proof -
  let ?ob = "sample_object ''c1'' ''default'' ''cm''"
  let ?key = "\<lparr>knamespace = ''default'', kname = ''cm''\<rparr>"
  have ob: "?ob \<in> objects_of documented_lib ''c1'' sample_items"
    by (auto simp: objects_of_def stored_objects_mem sample_items_def sample_item_def)
  have cl: "sc_clusterName sample_scoped_cache = ''c1''" by (simp add: sample_scoped_cache_def)
  have key: "object_key_ok (scoped_key NamespaceScope ?key)" "meta_key (sample_meta ''c1'' ''default'' ''cm'') = scoped_key NamespaceScope ?key"
    by (simp_all add: object_key_ok_def scoped_key_def meta_key_def sample_meta_def)
  have name: "cluster_name_ok (sc_clusterName sample_scoped_cache)" by (simp add: cl cluster_name_ok_def)
  show ?thesis
    by (rule scopedCache_Get_iff [of sample_scoped_cache "sample_object '''' '''' ''''",
          unfolded sample_object_type, OF sample_informer_ready sample_store_ready name key(1), THEN iffD2])
      (use ob key(2) in \<open>auto simp: cl sample_object_gvk intro!: bexI [of _ ?ob]\<close>)
qed

text \<open>
  C10. Isolation of \<open>scopedCache.Get\<close>: what it returns, errors included, depends on nothing
  but the objects of its own cluster. Two stores that agree on them give the same answer,
  whatever they hold for other clusters.
\<close>

theorem scopedCache_Get_noninterference:
  assumes "informer_ready (sc_base c1) (otype obj) (ogvk obj) g sc si1"
    and "informer_ready (sc_base c2) (otype obj) (ogvk obj) g sc si2"
    and "store_ready L si1 items1" and "store_ready L si2 items2"
    and "sc_clusterName c1 = cl" and "sc_clusterName c2 = cl" and "cluster_name_ok cl"
    and "object_key_ok (scoped_key sc key)"
    and "objects_of L cl items1 = objects_of L cl items2"
  shows "scopedCache_Get L c1 key obj = scopedCache_Get L c2 key obj"
  using scopedCache_Get_lookup [OF assms(1,3)] scopedCache_Get_lookup [OF assms(2,4)]
    scoped_lookup_cong [OF assms(3,4,9)] assms(5-8)
  by simp

definition lone_items :: "(string \<times> any) list" where
  "lone_items = [sample_item ''c1'' ''default'' ''cm'']"

definition lone_informer :: shared_informer where
  "lone_informer =
     \<lparr>inf_id = 9, GetIndexer = snapshot_indexer (cluster_indexers documented_lib) lone_items\<rparr>"

definition lone_scoped_cache :: scopedCache where
  "lone_scoped_cache =
     \<lparr>sc_base = sample_wildcard\<lparr>wc_tracker := write_map StructuredMap configmap_gvk lone_informer
                                 empty_tracker\<rparr>,
      sc_clusterName = ''c1''\<rparr>"

lemma lone_store_ready: "store_ready documented_lib lone_informer lone_items"
proof -
  have keyed: "well_keyed documented_lib lone_items"
    using sample_items_ok(1) by (simp add: well_keyed_def sample_items_def lone_items_def)
  moreover have "distinct (map fst lone_items)" by (simp add: lone_items_def)
  ultimately show ?thesis
    using cluster_snapshot_ok [of documented_lib lone_items] cluster_aware_snapshot [of documented_lib]
    by (simp add: store_ready_def lone_informer_def documented_lib_ok)
qed

theorem scopedCache_Get_noninterference_witness:
  "scopedCache_Get documented_lib sample_scoped_cache \<lparr>knamespace = ''default'', kname = ''cm''\<rparr>
     (sample_object '''' '''' '''') =
   scopedCache_Get documented_lib lone_scoped_cache \<lparr>knamespace = ''default'', kname = ''cm''\<rparr>
     (sample_object '''' '''' '''')"
proof (rule scopedCache_Get_noninterference [where sc = NamespaceScope,
      OF _ _ sample_store_ready lone_store_ready])
  show "informer_ready (sc_base sample_scoped_cache) (otype (sample_object '''' '''' ''''))
      (ogvk (sample_object '''' '''' '''')) configmap_gvk NamespaceScope sample_informer"
    by (simp add: sample_informer_ready)
  show "informer_ready (sc_base lone_scoped_cache) (otype (sample_object '''' '''' ''''))
      (ogvk (sample_object '''' '''' '''')) configmap_gvk NamespaceScope lone_informer"
    by (simp add: informer_ready_def lone_scoped_cache_def sample_wildcard_defs configmap_gvk_def
        read_write_map)
  show "objects_of documented_lib ''c1'' sample_items = objects_of documented_lib ''c1'' lone_items"
    by (auto simp: objects_of_def stored_objects_mem sample_items_def lone_items_def sample_item_def)
qed (simp_all add: sample_scoped_cache_def lone_scoped_cache_def cluster_name_ok_def
    object_key_ok_def scoped_key_def)

text \<open>The sample cache answers.\<close>

lemma sample_scoped_Get:
  "scopedCache_Get documented_lib sample_scoped_cache \<lparr>knamespace = ''default'', kname = ''cm''\<rparr>
     (sample_object '''' '''' '''') = Ok (sample_object ''c1'' ''default'' ''cm'')"
proof -
  let ?ob = "sample_object ''c1'' ''default'' ''cm''"
  let ?key = "\<lparr>knamespace = ''default'', kname = ''cm''\<rparr>"
  have "scoped_lookup documented_lib sample_items ''c1'' (scoped_key NamespaceScope ?key) = Some ?ob"
    unfolding scoped_lookup_iff [OF sample_store_ready]
    by (auto simp: stored_objects_mem sample_items_def sample_item_def scoped_key_def meta_key_def sample_meta_def
        annotation_From_def)
  moreover have "sc_clusterName sample_scoped_cache = ''c1''" by (simp add: sample_scoped_cache_def)
  moreover have "cluster_name_ok ''c1''" "object_key_ok (scoped_key NamespaceScope ?key)"
    by (simp_all add: cluster_name_ok_def object_key_ok_def scoped_key_def)
  ultimately show ?thesis
    using scopedCache_Get_lookup [of sample_scoped_cache "sample_object '''' '''' ''''",
        unfolded sample_object_type, OF sample_informer_ready sample_store_ready]
    by (simp add: sample_object_gvk)
qed

text \<open>
  It lists, too, where the tracker has an informer under the kind the list object carries.
\<close>

lemma sample_list_ready:
  "informer_ready (sc_base sample_scoped_cache) (ltype sample_list) (lgvk sample_list)
     configmap_gvk NamespaceScope sample_informer"
  by (simp add: informer_ready_def sample_scoped_cache_def sample_wildcard_defs configmap_gvk_def
      sample_list_def read_write_map)

lemma sample_scoped_List:
  "scopedCache_List documented_lib sample_scoped_cache sample_list sample_list_options =
     Ok (sample_list\<lparr>litems := [sample_object ''c1'' ''default'' ''cm'']\<rparr>)"
proof -
  have "sc_clusterName sample_scoped_cache = ''c1''" by (simp add: sample_scoped_cache_def)
  then show ?thesis
    using scoped_reader_ready [OF sample_list_ready, of "''c1''"]
    by (simp add: scopedCache_List_def cacheReader_List_def cacheReader_candidates_def sample_list_options_def
        sample_informer_def sample_indexer_def snapshot_indexer_def cluster_indexers_def sample_items_def sample_item_def
        files_under_def ClusterAndNamespaceIndexFunc_def labels_match_def list_output_def skipDeepCopy_def
        ClusterAndNamespaceIndexKey_def sample_meta_def annotation_From_def sample_object_gvk)
qed

section \<open>Missing informers\<close>

text \<open>
  C30. Objects of a kind without an informer: \<open>Get\<close> and \<open>List\<close> panic on the nil informer
  instead of returning an error. Unlike the cache they wrap they do not start an informer
  on demand, and the check of \<open>found\<close> is commented out.
\<close>

theorem scopedCache_missing_informer:
  assumes "wc_scheme (sc_base c) t tm = Ok g" and "wc_mapper (sc_base c) g = Ok sc"
    and "read_map (wc_tracker (sc_base c)) (informersByType t) g = None"
  shows "(otype obj = t \<and> ogvk obj = tm \<longrightarrow> scopedCache_Get L c key obj = Panic nil_dereference) \<and>
    (ltype out = t \<and> lgvk out = tm \<longrightarrow> scopedCache_List L c out lo = Panic nil_dereference)"
proof -
  have "getSharedInformer (sc_base c) t tm = Ok (None, g, sc, False)"
    using assms by (simp add: getSharedInformer_def)
  then show ?thesis
    using wildcard_source.reader_not_found [of "sc_base c" t tm]
    by (auto simp: scopedCache_Get_def scopedCache_List_def)
qed

theorem scopedCache_missing_informer_witness:
  "scopedCache_Get documented_lib (sample_scoped_cache\<lparr>sc_base := sample_wildcard\<rparr>)
     \<lparr>knamespace = ''default'', kname = ''cm''\<rparr> (sample_object '''' '''' '''') = Panic nil_dereference"
  using scopedCache_missing_informer [of "sample_scoped_cache\<lparr>sc_base := sample_wildcard\<rparr>"
      "TypedT ''*v1.ConfigMap''" configmap_gvk configmap_gvk NamespaceScope "sample_object '''' '''' ''''"]
  by (simp add: sample_wildcard_defs configmap_gvk_def read_map_def empty_tracker_def sample_object_def)

text \<open>
  C29. \<open>scopedCache.List\<close> asks for an informer with the list object itself, so with the list's
  GroupVersionKind, whereas informers are registered under the GroupVersionKinds of single
  objects. As long as none of the objects an informer was created for has the list's
  GroupVersionKind, no \<open>List\<close> returns a result: it fails where the list's kind is not
  mapped and panics where it is.
\<close>

theorem scopedCache_List_never_Ok:
  assumes "\<forall>call \<in> set calls. wc_scheme (sc_base c) (hc_type call) (hc_meta call) = Ok (gv call)"
    and "run_hooks L (wc_scheme (sc_base c)) add calls empty_tracker = Some (wc_tracker (sc_base c))"
    and "wc_scheme (sc_base c) (ltype out) (lgvk out) = Ok g"
    and "\<forall>call \<in> set calls. gv call \<noteq> g"
  shows "\<not> is_Ok (scopedCache_List L c out lo)"
proof -
  let ?w = "sc_base c"
  have dist: "distinct (map (hook_key gv) calls)"
    and trk: "wc_tracker ?w = fold put_entry (map (hook_entry L add gv) calls) empty_tracker"
    using assms(2) by (auto simp: run_hooks_empty [OF assms(1)] split: if_splits)
  have "map_of (map (hook_entry L add gv) calls) (informersByType (ltype out), g) = None"
    using assms(4) by (auto simp: map_of_eq_None_iff hook_entry_def hook_key_def)
  then have "read_map (wc_tracker ?w) (informersByType (ltype out)) g = None"
    unfolding trk read_map_entries [OF dist] .
  then show ?thesis
    using assms(3)
    by (auto simp: scopedCache_List_def scoped_reader_def getSharedInformer_def split: outcome.splits)
qed

definition configmaplist_gvk :: gvk where
  "configmaplist_gvk = \<lparr>Group = '''', Version = ''v1'', Kind = ''ConfigMapList''\<rparr>"

definition watched_cache :: scopedCache where
  "watched_cache =
     \<lparr>sc_base = sample_wildcard\<lparr>wc_tracker := fold put_entry
         (map (hook_entry documented_lib (\<lambda>i fns. (i, None)) hc_meta) sample_calls) empty_tracker\<rparr>,
      sc_clusterName = ''c1''\<rparr>"

theorem scopedCache_List_never_Ok_witness:
  "\<not> is_Ok (scopedCache_List documented_lib watched_cache
     \<lparr>ltype = TypedT ''*v1.ConfigMapList'', lgvk = configmaplist_gvk, litems = []\<rparr> sample_list_options)"
proof (rule scopedCache_List_never_Ok [where calls = sample_calls and gv = hc_meta and
      add = "\<lambda>i fns. (i, None)" and g = configmaplist_gvk])
  have ok: "\<forall>call \<in> set sample_calls. wc_scheme (sc_base watched_cache) (hc_type call) (hc_meta call) = Ok (hc_meta call)"
    by (simp add: watched_cache_def sample_wildcard_defs)
  then show "\<forall>call \<in> set sample_calls. wc_scheme (sc_base watched_cache) (hc_type call) (hc_meta call) = Ok (hc_meta call)" .
  have "distinct (map (hook_key hc_meta) sample_calls)" by (simp add: sample_calls_def hook_key_def)
  then show "run_hooks documented_lib (wc_scheme (sc_base watched_cache)) (\<lambda>i fns. (i, None)) sample_calls
      empty_tracker = Some (wc_tracker (sc_base watched_cache))"
    by (subst run_hooks_empty [OF ok]) (simp add: watched_cache_def)
qed (simp_all add: watched_cache_def sample_wildcard_defs sample_calls_def configmap_gvk_def
    configmaplist_gvk_def)

end
