(* ===== verification/Go_URL.thy ===== *)
theory Go_URL
  imports Index_Keys
begin

text \<open>
  \<open>url.JoinPath\<close> of Go's standard library (Go 1.23), which \<open>newScopedCluster\<close> builds the
  endpoint of a cluster with. The definitions follow \<open>net/url\<close> and \<open>path\<close> step by step for
  strings without characters that take part in escaping, queries, fragments, user
  information or IPv6 literals; \<open>JoinPath\<close> leaves strings with such characters to its first
  argument.
\<close>

section \<open>Characters\<close>

definition lowers :: string where
  "lowers = ''abcdefghijklmnopqrstuvwxyz''"

definition uppers :: string where
  "uppers = ''ABCDEFGHIJKLMNOPQRSTUVWXYZ''"

definition letters :: string where
  "letters = lowers @ uppers"

definition digits :: string where
  "digits = ''0123456789''"

definition plain_char :: "char \<Rightarrow> bool" where
  "plain_char c \<longleftrightarrow> c \<in> set letters \<or> c \<in> set digits \<or> c \<in> set ''-._~/:''"

definition lower_char :: "char \<Rightarrow> char" where
  "lower_char c =
     (case map_of (zip uppers lowers) c of
        None \<Rightarrow> c
      | Some d \<Rightarrow> d)"

abbreviation slash :: char where "slash \<equiv> CHR ''/''"
abbreviation colon :: char where "colon \<equiv> CHR '':''"

section \<open>Package path\<close>

text \<open>\<open>strings.Split\<close> and \<open>strings.Join\<close> with a slash.\<close>

fun split_slash :: "string \<Rightarrow> string list" where
  "split_slash [] = [[]]"
| "split_slash (c # cs) =
     (if c = slash then [] # split_slash cs
      else (case split_slash cs of [] \<Rightarrow> [[c]] | s # ss \<Rightarrow> (c # s) # ss))"

fun join_slash :: "string list \<Rightarrow> string" where
  "join_slash [] = ''''"
| "join_slash [x] = x"
| "join_slash (x # y # zs) = x @ slash # join_slash (y # zs)"

text \<open>
  \<open>path.Clean\<close>: the elements are kept on a stack; a rooted path drops a leading \<open>..\<close>.
\<close>

fun clean_loop :: "bool \<Rightarrow> string list \<Rightarrow> string list \<Rightarrow> string list" where
  "clean_loop rooted stack [] = rev stack"
| "clean_loop rooted stack (e # es) =
     (if e = '''' \<or> e = ''.'' then clean_loop rooted stack es
      else if e = ''..'' then
        (if stack \<noteq> [] \<and> hd stack \<noteq> ''..'' then clean_loop rooted (tl stack) es
         else if rooted then clean_loop rooted stack es
         else clean_loop rooted (e # stack) es)
      else clean_loop rooted (e # stack) es)"

definition path_Clean :: "string \<Rightarrow> string" where
  "path_Clean p =
     (let rooted = prefix [slash] p;
          out = (if rooted then [slash] else []) @ join_slash (clean_loop rooted [] (split_slash p))
      in if out = '''' then ''.'' else out)"

fun path_join_loop :: "string \<Rightarrow> string list \<Rightarrow> string" where
  "path_join_loop buf [] = buf"
| "path_join_loop buf (e # es) =
     (if buf \<noteq> '''' \<or> e \<noteq> ''''
      then path_join_loop ((if buf \<noteq> '''' then buf @ [slash] else buf) @ e) es
      else path_join_loop buf es)"

definition path_Join :: "string list \<Rightarrow> string" where
  "path_Join elem = (if concat elem = '''' then '''' else path_Clean (path_join_loop '''' elem))"

section \<open>Package net/url\<close>

record url =
  Scheme :: string
  Opaque :: string
  url_Host :: string
  Path :: string
  OmitHost :: bool

definition empty_url :: url where
  "empty_url = \<lparr>Scheme = '''', Opaque = '''', url_Host = '''', Path = '''', OmitHost = False\<rparr>"

fun scheme_loop :: "string \<Rightarrow> string \<Rightarrow> string \<Rightarrow> (string \<times> string) outcome" where
  "scheme_loop rawURL acc [] = Ok ('''', rawURL)"
| "scheme_loop rawURL acc (c # cs) =
     (if c \<in> set letters then scheme_loop rawURL (acc @ [c]) cs
      else if c \<in> set digits \<or> c \<in> set ''+-.'' then
        (if acc = '''' then Ok ('''', rawURL) else scheme_loop rawURL (acc @ [c]) cs)
      else if c = colon then
        (if acc = '''' then Err (Errorf ''missing protocol scheme'' []) else Ok (acc, cs))
      else Ok ('''', rawURL))"

definition getScheme :: "string \<Rightarrow> (string \<times> string) outcome" where
  "getScheme rawURL = scheme_loop rawURL '''' rawURL"

text \<open>\<open>parseAuthority\<close> without user information and IPv6 literal: what follows the last colon
  has to be a port.\<close>

definition validOptionalPort :: "string \<Rightarrow> bool" where
  "validOptionalPort port \<longleftrightarrow>
     (case port of [] \<Rightarrow> True | c # cs \<Rightarrow> c = colon \<and> (\<forall>d \<in> set cs. d \<in> set digits))"

definition last_colon :: "string \<Rightarrow> string" where
  "last_colon host = colon # rev (takeWhile (\<lambda>c. c \<noteq> colon) (rev host))"

definition parseAuthority :: "string \<Rightarrow> string outcome" where
  "parseAuthority authority =
     (if colon \<in> set authority \<and> \<not> validOptionalPort (last_colon authority)
      then Err (Errorf ''invalid port %q after host'' [last_colon authority])
      else Ok authority)"

definition url_parse :: "string \<Rightarrow> url outcome" where
  "url_parse rawURL =
     (case getScheme rawURL of
        Err err \<Rightarrow> Err err
      | Panic p \<Rightarrow> Panic p
      | Ok (sch, rest) \<Rightarrow>
          let sch = map lower_char sch;
              u = empty_url\<lparr>Scheme := sch\<rparr>
          in if \<not> prefix [slash] rest \<and> sch \<noteq> '''' then Ok (u\<lparr>Opaque := rest\<rparr>)
             else if \<not> prefix [slash] rest \<and> colon \<in> set (takeWhile (\<lambda>c. c \<noteq> slash) rest)
             then Err (Errorf ''first path segment in URL cannot contain colon'' [])
             else if (sch \<noteq> '''' \<or> \<not> prefix [slash, slash, slash] rest) \<and> prefix [slash, slash] rest
             then (let authority = takeWhile (\<lambda>c. c \<noteq> slash) (drop 2 rest);
                       rest = dropWhile (\<lambda>c. c \<noteq> slash) (drop 2 rest)
                   in case parseAuthority authority of
                        Err err \<Rightarrow> Err err
                      | Panic p \<Rightarrow> Panic p
                      | Ok host \<Rightarrow> Ok (u\<lparr>url_Host := host, Path := rest\<rparr>))
             else Ok (u\<lparr>OmitHost := (sch \<noteq> '''' \<and> prefix [slash] rest), Path := rest\<rparr>))"

definition url_Parse :: "string \<Rightarrow> url outcome" where
  "url_Parse rawURL =
     (case url_parse rawURL of
        Err err \<Rightarrow> Err (Wrapf ''parse %q: %w'' [rawURL] err)
      | Panic p \<Rightarrow> Panic p
      | Ok u \<Rightarrow> Ok u)"

definition url_String :: "url \<Rightarrow> string" where
  "url_String u =
     (let scheme_part = (if Scheme u \<noteq> '''' then Scheme u @ [colon] else '''')
      in if Opaque u \<noteq> '''' then scheme_part @ Opaque u
         else
           let host_part =
                 (if Scheme u = '''' \<and> url_Host u = '''' \<or> OmitHost u \<and> url_Host u = '''' then ''''
                  else (if url_Host u \<noteq> '''' \<or> Path u \<noteq> '''' then [slash, slash] else '''') @ url_Host u);
               root = (if Path u \<noteq> '''' \<and> hd (Path u) \<noteq> slash \<and> url_Host u \<noteq> '''' then [slash] else '''');
               dot = (if scheme_part @ host_part @ root = '''' \<and>
                         colon \<in> set (takeWhile (\<lambda>c. c \<noteq> slash) (Path u)) then ''./'' else '''')
           in scheme_part @ host_part @ root @ dot @ Path u)"

definition url_JoinPath1 :: "url \<Rightarrow> string \<Rightarrow> url" where
  "url_JoinPath1 u elem =
     (let p = (if \<not> prefix [slash] (Path u) then drop 1 (path_Join [slash # Path u, elem])
               else path_Join [Path u, elem]);
          p = (if suffix [slash] elem \<and> \<not> suffix [slash] p then p @ [slash] else p)
      in u\<lparr>Path := p\<rparr>)"

text \<open>The package function; strings with other than plain characters are not interpreted.\<close>

definition JoinPath :: "(string \<Rightarrow> string \<Rightarrow> string outcome) \<Rightarrow> string \<Rightarrow> string \<Rightarrow> string outcome" where
  "JoinPath escaped base elem =
     (if \<not> (\<forall>c \<in> set base \<union> set elem. plain_char c) then escaped base elem
      else case url_Parse base of
             Err err \<Rightarrow> Err err
           | Panic p \<Rightarrow> Panic p
           | Ok u \<Rightarrow> Ok (url_String (url_JoinPath1 u elem)))"

section \<open>Paths\<close>

text \<open>A path element that \<open>path.Clean\<close> keeps, and the rooted path of a list of them.\<close>

definition path_part :: "string \<Rightarrow> bool" where
  "path_part e \<longleftrightarrow> e \<noteq> '''' \<and> e \<noteq> ''.'' \<and> e \<noteq> ''..'' \<and> slash \<notin> set e"

definition path_of :: "string list \<Rightarrow> string" where
  "path_of es = concat (map (\<lambda>e. slash # e) es)"

lemma path_of_simps [simp]:
  "path_of [] = ''''" "path_of (e # es) = slash # e @ path_of es"
  "path_of (es @ fs) = path_of es @ path_of fs"
  by (simp_all add: path_of_def)

lemma split_slash_nonempty [simp]: "split_slash x \<noteq> []"
  by (cases x) (auto split: list.splits)

lemma split_slash_append: "split_slash (x @ slash # y) = split_slash x @ split_slash y"
  by (induction x) (auto split: list.splits)

lemma split_slash_elem: "slash \<notin> set e \<Longrightarrow> split_slash e = [e]"
  by (induction e) auto

lemma split_slash_parts:
  "slash \<notin> set e \<Longrightarrow> \<forall>e \<in> set es. slash \<notin> set e \<Longrightarrow> split_slash (e @ path_of es) = e # es"
  by (induction es arbitrary: e) (simp_all add: split_slash_append split_slash_elem)

lemma split_slash_path_of:
  "\<forall>e \<in> set es. slash \<notin> set e \<Longrightarrow> split_slash (path_of es) = '''' # es"
  using split_slash_parts [of "''''" es] by simp

lemma clean_loop_parts:
  "\<forall>e \<in> set es. e = '''' \<or> path_part e \<Longrightarrow>
   clean_loop rooted stack es = rev stack @ filter (\<lambda>e. e \<noteq> '''') es"
  by (induction es arbitrary: stack) (auto simp: path_part_def)

lemma join_slash_path_of: "join_slash (e # es) = e @ path_of es"
  by (induction es arbitrary: e) simp_all

lemma path_Clean_parts:
  assumes "\<forall>e \<in> set (split_slash p). e = '''' \<or> path_part e" and "prefix [slash] p"
    and "filter (\<lambda>e. e \<noteq> '''') (split_slash p) = e1 # es"
  shows "path_Clean p = path_of (e1 # es)"
  using assms(2)
  by (simp add: path_Clean_def Let_def clean_loop_parts [OF assms(1)] assms(3) join_slash_path_of)

lemma filter_parts: "\<forall>e \<in> set es. path_part e \<Longrightarrow> filter (\<lambda>e. e \<noteq> '''') es = es"
  by (auto simp: filter_id_conv path_part_def)

text \<open>
  Joining a rooted path and two further elements, with or without a slash at its end.
\<close>

lemma path_Join_parts:
  assumes "\<forall>e \<in> set es. path_part e" and "path_part e1" and "path_part e2"
    and "base = path_of es \<and> es \<noteq> [] \<or> base = path_of es @ [slash]"
  shows "path_Join [base, path_of [e1, e2]] = path_of (es @ [e1, e2])"
proof -
  let ?p = "base @ slash # path_of [e1, e2]"
  have slashes: "\<forall>e \<in> set es. slash \<notin> set e" "slash \<notin> set e1" "slash \<notin> set e2"
    using assms(1-3) by (auto simp: path_part_def)
  have tail: "split_slash (slash # e1 @ slash # e2) = ['''', e1, e2]"
    using split_slash_path_of [of "[e1, e2]"] slashes by simp
  have split: "split_slash ?p = '''' # es @ (if base = path_of es then [] else ['''']) @ ['''', e1, e2]"
    using assms(4) split_slash_path_of [OF slashes(1)] tail
    by (auto simp: split_slash_append)
  have filter: "filter (\<lambda>e. e \<noteq> '''') (split_slash ?p) = es @ [e1, e2]"
    unfolding split using filter_parts [OF assms(1)] assms(2,3) by (simp add: path_part_def)
  have ne: "base \<noteq> ''''" "prefix [slash] base" using assms(4) by (auto, (cases es; auto)+)
  have parts: "\<forall>e \<in> set (split_slash ?p). e = '''' \<or> path_part e"
    unfolding split using assms(1-3) by auto
  obtain f fs where fs: "es @ [e1, e2] = f # fs" by (cases es) auto
  have "path_Clean ?p = path_of (es @ [e1, e2])"
    using path_Clean_parts [OF parts _ filter [unfolded fs]] ne(2) unfolding fs [symmetric] by simp
  then show ?thesis using ne(1) by (simp add: path_Join_def)
qed

section \<open>Joining URLs\<close>

lemma lower_letters:
  assumes "c \<in> set lowers"
  shows "lower_char c = c" and "c \<in> set letters"
proof -
  have "list_all (\<lambda>c. lower_char c = c) lowers" by code_simp
  then show "lower_char c = c" using assms by (simp add: list_all_iff)
qed (use assms in \<open>simp add: letters_def\<close>)

lemma colon_not_letter: "colon \<notin> set letters" "colon \<notin> set digits"
  by code_simp+

lemma scheme_loop_letters:
  "set sch \<subseteq> set letters \<Longrightarrow> acc @ sch \<noteq> [] \<Longrightarrow>
   scheme_loop raw acc (sch @ colon # rest) = Ok (acc @ sch, rest)"
proof (induction sch arbitrary: acc)
  case Nil
  then show ?case by (simp add: colon_not_letter)
qed simp

text \<open>
  The URLs the program is configured with: a lower-case scheme, an authority and a path of
  plain elements, none of which \<open>path.Clean\<close> would change.
\<close>

definition endpoint :: "string \<Rightarrow> string \<Rightarrow> string list \<Rightarrow> string" where
  "endpoint sch authority es = sch @ ''://'' @ authority @ path_of es"

definition endpoint_ok :: "string \<Rightarrow> string \<Rightarrow> string list \<Rightarrow> bool" where
  "endpoint_ok sch authority es \<longleftrightarrow>
     sch \<noteq> '''' \<and> set sch \<subseteq> set lowers \<and>
     authority \<noteq> '''' \<and> slash \<notin> set authority \<and> is_Ok (parseAuthority authority) \<and>
     (\<forall>c \<in> set authority. plain_char c) \<and>
     (\<forall>e \<in> set es. path_part e \<and> (\<forall>c \<in> set e. plain_char c))"

lemma parseAuthority_Ok: "is_Ok (parseAuthority a) \<Longrightarrow> parseAuthority a = Ok a"
  by (simp add: parseAuthority_def split: if_splits)

lemma url_Parse_endpoint:
  assumes "endpoint_ok sch authority es" and "rest = '''' \<or> prefix [slash] rest"
  shows "url_Parse (sch @ ''://'' @ authority @ rest) =
    Ok (empty_url\<lparr>Scheme := sch, url_Host := authority, Path := rest\<rparr>)"
proof -
  have sch: "set sch \<subseteq> set lowers" "sch \<noteq> ''''"
    and auth: "slash \<notin> set authority" "parseAuthority authority = Ok authority"
    using assms(1) by (auto simp: endpoint_ok_def parseAuthority_Ok)
  have lower: "map lower_char sch = sch" using sch(1) lower_letters(1) by (intro map_idI) blast
  have "set sch \<subseteq> set letters" using sch(1) lower_letters(2) by blast
  then have scheme: "getScheme (sch @ ''://'' @ authority @ rest) = Ok (sch, ''//'' @ authority @ rest)"
    using scheme_loop_letters [of sch "[]"] sch(2) by (simp add: getScheme_def)
  have take: "takeWhile (\<lambda>c. c \<noteq> slash) (authority @ rest) = authority"
      "dropWhile (\<lambda>c. c \<noteq> slash) (authority @ rest) = rest"
    using assms(2) auth(1) by (auto elim!: prefixE)
  show ?thesis
    unfolding url_Parse_def url_parse_def scheme
    by (simp add: Let_def lower sch(2) take auth(2))
qed

lemma plain_chars: "plain_char slash" "plain_char colon" "c \<in> set letters \<Longrightarrow> plain_char c"
  by (auto simp: plain_char_def)

lemma endpoint_plain:
  assumes "endpoint_ok sch authority es"
  shows "\<forall>c \<in> set (endpoint sch authority es). plain_char c"
proof -
  have "c \<in> set letters" if "c \<in> set sch" for c
    using assms lower_letters(2) that by (auto simp: endpoint_ok_def simp del: list.set)
  moreover have "plain_char c" if "c \<in> set (path_of es)" for c
  proof -
    from that consider "c = slash" | e where "e \<in> set es" "c \<in> set e"
      by (auto simp: path_of_def split: if_splits)
    then show ?thesis using assms plain_chars(1) by cases (auto simp: endpoint_ok_def)
  qed
  ultimately show ?thesis
    using assms plain_chars by (auto simp: endpoint_def endpoint_ok_def)
qed

lemma JoinPath_endpoint:
  assumes "endpoint_ok sch authority es" and "endpoint_ok sch authority [e1, e2]"
    and "base = endpoint sch authority es \<or> base = endpoint sch authority es @ [slash]"
  shows "JoinPath esc base (path_of [e1, e2]) = Ok (endpoint sch authority (es @ [e1, e2]))"
proof -
  let ?u = "empty_url\<lparr>Scheme := sch, url_Host := authority\<rparr>"
  have ne: "sch \<noteq> ''''" "authority \<noteq> ''''" using assms(1) by (auto simp: endpoint_ok_def)
  have parts: "\<forall>e \<in> set es. path_part e" "path_part e1" "path_part e2"
    using assms(1,2) by (auto simp: endpoint_ok_def)
  obtain rest where rest: "base = sch @ ''://'' @ authority @ rest"
    "rest = path_of es \<or> rest = path_of es @ [slash]"
    using assms(3) by (auto simp: endpoint_def)
  have "rest = '''' \<or> prefix [slash] rest" using rest(2) by (cases es) auto
  then have parse: "url_Parse base = Ok (?u\<lparr>Path := rest\<rparr>)"
    using url_Parse_endpoint [OF assms(1)] unfolding rest(1) by (simp add: empty_url_def)
  have nosuf: "\<not> suffix [slash] (path_of [e1, e2])"
    using parts(3) by (cases e2 rule: rev_cases) (auto simp: path_part_def suffix_def)
  have "\<forall>c \<in> set base \<union> set (path_of [e1, e2]). plain_char c"
    using endpoint_plain [OF assms(1)] endpoint_plain [OF assms(2)] assms(3) plain_chars
    by (auto simp: endpoint_def)
  then have join: "JoinPath esc base (path_of [e1, e2]) =
      Ok (url_String (url_JoinPath1 (?u\<lparr>Path := rest\<rparr>) (path_of [e1, e2])))"
    by (auto simp: JoinPath_def parse)
  show ?thesis
  proof (cases "rest = ''''")
    case True
    then have "es = []" using rest(2) by (cases es) auto
    then have "path_Join [[slash], path_of [e1, e2]] = path_of [e1, e2]"
      using path_Join_parts [of "[]" e1 e2 "[slash]"] parts by simp
    then show ?thesis
      unfolding join using ne True nosuf \<open>es = []\<close> parts
      by (cases e1) (auto simp: url_JoinPath1_def url_String_def Let_def empty_url_def endpoint_def path_part_def)
  next
    case False
    then have base: "rest = path_of es \<and> es \<noteq> [] \<or> rest = path_of es @ [slash]" using rest(2) by auto
    have nosuf': "\<not> suffix [slash] (path_of (es @ [e1, e2]))"
      using parts(3) by (cases e2 rule: rev_cases) (auto simp: path_part_def suffix_def)
    have pre: "prefix [slash] rest" "prefix [slash] (path_of (es @ [e1, e2]))"
      using base by (cases es; auto)+
    then show ?thesis
      unfolding join using ne nosuf nosuf' path_Join_parts [OF parts base]
      by (auto simp: url_JoinPath1_def url_String_def Let_def empty_url_def endpoint_def
          elim: prefixE)
  qed
qed

text \<open>
  A host and port without a scheme: the host is taken for a scheme and the port for an opaque
  part, and the path joined to it is lost.
\<close>

lemma scheme_loop_host:
  "\<forall>c \<in> set h. c \<in> set letters \<or> c \<in> set digits \<or> c \<in> set ''-.'' \<Longrightarrow> acc \<noteq> [] \<Longrightarrow>
   scheme_loop raw acc (h @ colon # rest) = Ok (acc @ h, rest)"
proof (induction h arbitrary: acc)
  case Nil
  then show ?case by (simp add: colon_not_letter)
qed auto

lemma JoinPath_host_port:
  assumes "c \<in> set letters" and "\<forall>c \<in> set h. c \<in> set letters \<or> c \<in> set digits \<or> c \<in> set ''-.''"
    and "port \<noteq> ''''" and "\<forall>c \<in> set port. c \<in> set digits" and "\<forall>c \<in> set elem. plain_char c"
  shows "JoinPath esc (c # h @ '':'' @ port) elem = Ok (map lower_char (c # h) @ '':'' @ port)"
proof -
  have "getScheme (c # h @ colon # port) = Ok (c # h, port)"
    using assms(1) scheme_loop_host [OF assms(2), of "[c]"] by (simp add: getScheme_def)
  moreover have "\<not> prefix [slash] port"
    using assms(3,4) by (cases port) (auto simp: digits_def)
  ultimately have "url_Parse (c # h @ colon # port) =
      Ok (empty_url\<lparr>Scheme := map lower_char (c # h), Opaque := port\<rparr>)"
    by (simp add: url_Parse_def url_parse_def empty_url_def)
  moreover have "\<forall>d \<in> set (c # h @ colon # port) \<union> set elem. plain_char d"
    using assms(1,2,4,5) by (auto simp: plain_char_def)
  ultimately show ?thesis
    using assms(3) by (auto simp: JoinPath_def url_JoinPath1_def url_String_def empty_url_def Let_def)
qed

text \<open>None of this panics by itself.\<close>

lemma scheme_loop_no_panic: "\<not> panics (scheme_loop raw acc s)"
  by (induction s arbitrary: acc) simp_all

lemma JoinPath_no_panic:
  assumes "\<not> panics (escaped base elem)"
  shows "\<not> panics (JoinPath escaped base elem)"
proof -
  have "parseAuthority a \<noteq> Panic p" for a p by (simp add: parseAuthority_def)
  then have "\<not> panics (url_parse base)"
    using scheme_loop_no_panic [of base "''''" base]
    by (auto simp: url_parse_def getScheme_def Let_def split: outcome.split)
  then show ?thesis
    using assms by (auto simp: JoinPath_def url_Parse_def split: outcome.split)
qed

end
