(* ===== verification/Scoped_Cluster.thy ===== *)
theory Scoped_Cluster
  imports Scoped_Cache Go_URL
begin

text \<open>
  The scoped cluster of \<open>virtualworkspace/cluster.go\<close>: the handle on one logical cluster the
  provider hands to the manager. It owns a configuration for the cluster's endpoint, the
  clients made from it, and the scoped cache on top of the shared wildcard cache.
\<close>

section \<open>Construction\<close>

text \<open>
  Third-party constructors used here beside those of \<open>ctor_lib\<close>: \<open>client.New\<close>, given the
  configuration, the scheme and the cache reader of its options, and the part of
  \<open>url.JoinPath\<close> left open in \<open>Go_URL\<close>. A client is an opaque handle.
\<close>

record cluster_lib = ctor_lib +
  client_New :: "rest_config \<Rightarrow> scheme \<Rightarrow> scopedCache option \<Rightarrow> nat outcome"
  JoinPath_escaped :: "string \<Rightarrow> string \<Rightarrow> string outcome"

record scopedCluster =
  cl_clusterName :: string
  cl_scheme :: scheme
  cl_config :: rest_config
  cl_httpClient :: http_client
  cl_client :: nat
  cl_mapper :: rest_mapper
  cl_cache :: scopedCache

text \<open>The cache reader of the client is commented out in the source, so it is \<open>None\<close>.\<close>

definition newScopedCluster ::
  "kcp_lib \<Rightarrow> 'a cluster_lib_scheme \<Rightarrow> rest_config \<Rightarrow> string \<Rightarrow> wildcardCache \<Rightarrow> scheme \<Rightarrow>
   scopedCluster outcome" where
  "newScopedCluster L K cfg clusterName wildcardCA scheme =
     (case JoinPath (JoinPath_escaped K) (Host cfg) (lc_RequestPath L clusterName) of
        Err err \<Rightarrow> Err (Wrapf ''failed to construct scoped cluster URL: %w'' [] err)
      | Panic p \<Rightarrow> Panic p
      | Ok host \<Rightarrow>
          (let cfg = cfg\<lparr>Host := host\<rparr>;
               ca = \<lparr>sc_base = wildcardCA, sc_clusterName = clusterName\<rparr>
           in case client_New K cfg scheme None of
                Err err \<Rightarrow> Err err
              | Panic p \<Rightarrow> Panic p
              | Ok cli \<Rightarrow>
                  (case HTTPClientFor K cfg of
                     Err err \<Rightarrow> Err err
                   | Panic p \<Rightarrow> Panic p
                   | Ok httpClient \<Rightarrow>
                       (case NewDynamicRESTMapper K cfg httpClient of
                          Err err \<Rightarrow> Err err
                        | Panic p \<Rightarrow> Panic p
                        | Ok mapper \<Rightarrow>
                            Ok \<lparr>cl_clusterName = clusterName, cl_scheme = scheme, cl_config = cfg,
                                cl_httpClient = httpClient, cl_client = cli, cl_mapper = mapper,
                                cl_cache = ca\<rparr>))))"

section \<open>Methods\<close>

definition scopedCluster_GetHTTPClient :: "scopedCluster \<Rightarrow> http_client" where
  "scopedCluster_GetHTTPClient c = cl_httpClient c"

definition scopedCluster_GetConfig :: "scopedCluster \<Rightarrow> rest_config" where
  "scopedCluster_GetConfig c = cl_config c"

definition scopedCluster_GetScheme :: "scopedCluster \<Rightarrow> scheme" where
  "scopedCluster_GetScheme c = cl_scheme c"

definition scopedCluster_GetFieldIndexer :: "scopedCluster \<Rightarrow> scopedCache" where
  "scopedCluster_GetFieldIndexer c = cl_cache c"

definition scopedCluster_GetRESTMapper :: "scopedCluster \<Rightarrow> rest_mapper" where
  "scopedCluster_GetRESTMapper c = cl_mapper c"

definition scopedCluster_GetCache :: "scopedCluster \<Rightarrow> scopedCache" where
  "scopedCluster_GetCache c = cl_cache c"

definition scopedCluster_GetClient :: "scopedCluster \<Rightarrow> nat" where
  "scopedCluster_GetClient c = cl_client c"

definition scopedCluster_GetEventRecorderFor :: "scopedCluster \<Rightarrow> string \<Rightarrow> nat outcome" where
  "scopedCluster_GetEventRecorderFor c name = Panic ''implement me''"

definition scopedCluster_GetAPIReader :: "scopedCluster \<Rightarrow> scopedCache" where
  "scopedCluster_GetAPIReader c = cl_cache c"

definition scopedCluster_Start :: "scopedCluster \<Rightarrow> go_error option" where
  "scopedCluster_Start c = Some (Errorf ''scoped cluster cannot be started'' [])"

lemmas scopedCluster_getters = scopedCluster_GetHTTPClient_def scopedCluster_GetConfig_def
  scopedCluster_GetScheme_def scopedCluster_GetFieldIndexer_def scopedCluster_GetRESTMapper_def
  scopedCluster_GetCache_def scopedCluster_GetClient_def scopedCluster_GetAPIReader_def

section \<open>Endpoints\<close>

text \<open>
  A cluster name that is one element of a URL path, as the documented \<open>RequestPath\<close> of its
  cluster path uses it.
\<close>

definition request_path_ok :: "kcp_lib \<Rightarrow> string \<Rightarrow> bool" where
  "request_path_ok L c \<longleftrightarrow> lc_RequestPath L c = ''/clusters/'' @ c"

definition url_name_ok :: "string \<Rightarrow> bool" where
  "url_name_ok c \<longleftrightarrow> path_part c \<and> (\<forall>d \<in> set c. plain_char d)"

text \<open>The endpoint of a cluster determines the cluster: its name is what follows the prefix.\<close>

definition CutPrefix :: "string \<Rightarrow> string \<Rightarrow> string option" where
  "CutPrefix p s = (if prefix p s then Some (drop (length p) s) else None)"

lemma CutPrefix_append: "CutPrefix p (p @ x) = Some x"
  by (simp add: CutPrefix_def)

lemma endpoint_snoc:
  "endpoint sch authority (es @ [e, c]) = (endpoint sch authority (es @ [e]) @ [slash]) @ c"
  by (simp add: endpoint_def)

interpretation cluster_url: key_codec
    "\<lambda>c. endpoint sch authority (es @ [''clusters'', c])"
    "CutPrefix (endpoint sch authority (es @ [''clusters'']) @ [slash])"
    "\<lambda>c. True" for sch authority es
  by unfold_locales (simp only: endpoint_snoc CutPrefix_append)

lemma newScopedCluster_Ok:
  "newScopedCluster L K cfg c w s = Ok cl \<longleftrightarrow>
     (\<exists>host cli http mapper.
        JoinPath (JoinPath_escaped K) (Host cfg) (lc_RequestPath L c) = Ok host \<and>
        client_New K (cfg\<lparr>Host := host\<rparr>) s None = Ok cli \<and>
        HTTPClientFor K (cfg\<lparr>Host := host\<rparr>) = Ok http \<and>
        NewDynamicRESTMapper K (cfg\<lparr>Host := host\<rparr>) http = Ok mapper \<and>
        cl = \<lparr>cl_clusterName = c, cl_scheme = s, cl_config = cfg\<lparr>Host := host\<rparr>,
              cl_httpClient = http, cl_client = cli, cl_mapper = mapper,
              cl_cache = \<lparr>sc_base = w, sc_clusterName = c\<rparr>\<rparr>)"
  by (auto simp: newScopedCluster_def Let_def split: outcome.splits)

lemma JoinPath_cluster:
  assumes "endpoint_ok sch authority es" and "url_name_ok c" and "request_path_ok L c"
    and "base = endpoint sch authority es \<or> base = endpoint sch authority es @ [slash]"
  shows "JoinPath esc base (lc_RequestPath L c) =
    Ok (endpoint sch authority (es @ [''clusters'', c]))"
proof -
  have "path_part ''clusters''" "\<forall>d \<in> set ''clusters''. plain_char d"
    by (simp_all add: path_part_def plain_char_def letters_def lowers_def)
  then have "endpoint_ok sch authority [''clusters'', c]"
    using assms(1,2) by (simp add: endpoint_ok_def url_name_ok_def)
  from JoinPath_endpoint [OF assms(1) this assms(4)] assms(3) show ?thesis
    by (simp add: request_path_ok_def)
qed

text \<open>
  C26. A scoped cluster talks to its own endpoint: with the URL of a virtual workspace as the
  configured host, with or without a slash at its end, a cluster that is constructed has
  the configuration for \<open>base/clusters/name\<close>, otherwise equal to the given one, and all
  three of its clients were made from that configuration; its cache and API reader are the
  scoped cache of that cluster over the given wildcard cache.
\<close>

theorem newScopedCluster_endpoint:
  assumes "endpoint_ok sch authority es" and "url_name_ok c" and "request_path_ok L c"
    and "Host cfg = endpoint sch authority es \<or> Host cfg = endpoint sch authority es @ ''/''"
    and "newScopedCluster L K cfg c w s = Ok cl"
  shows "scopedCluster_GetConfig cl =
      cfg\<lparr>Host := endpoint sch authority es @ ''/clusters/'' @ c\<rparr> \<and>
    client_New K (scopedCluster_GetConfig cl) s None = Ok (scopedCluster_GetClient cl) \<and>
    HTTPClientFor K (scopedCluster_GetConfig cl) = Ok (scopedCluster_GetHTTPClient cl) \<and>
    NewDynamicRESTMapper K (scopedCluster_GetConfig cl) (scopedCluster_GetHTTPClient cl) =
      Ok (scopedCluster_GetRESTMapper cl) \<and>
    scopedCluster_GetCache cl = \<lparr>sc_base = w, sc_clusterName = c\<rparr> \<and>
    scopedCluster_GetAPIReader cl = scopedCluster_GetCache cl"
  using JoinPath_cluster [OF assms(1-4), of "JoinPath_escaped K"] assms(5)
  by (auto simp: newScopedCluster_Ok scopedCluster_getters endpoint_def)

definition sample_cluster_lib :: cluster_lib where
  "sample_cluster_lib =
     \<lparr>default_Scheme = sample_scheme, HTTPClientFor = (\<lambda>cfg. Ok 1),
      NewDynamicRESTMapper = (\<lambda>cfg http. Ok sample_mapper), cache_New = (\<lambda>cfg opts. Ok sample_base),
      client_New = (\<lambda>cfg s reader. Ok 2),
      JoinPath_escaped = (\<lambda>base elem. Err (External ''not interpreted''))\<rparr>"

definition sample_url_config :: rest_config where
  "sample_url_config = \<lparr>Host = ''https://kcp:6443/services/'', cfg_rest = ''''\<rparr>"

lemma sample_endpoint_ok: "endpoint_ok ''https'' ''kcp:6443'' [''services'']"
  by (simp add: endpoint_ok_def path_part_def plain_char_def letters_def lowers_def digits_def
      parseAuthority_def validOptionalPort_def last_colon_def)

lemma sample_url_name_ok: "url_name_ok ''c1''" "url_name_ok ''c2''"
  by (simp_all add: url_name_ok_def path_part_def plain_char_def letters_def lowers_def digits_def)

lemma sample_request_path_ok: "request_path_ok documented_lib c"
  by (simp add: request_path_ok_def)

definition sample_cluster :: "string \<Rightarrow> scopedCluster" where
  "sample_cluster c =
     \<lparr>cl_clusterName = c, cl_scheme = sample_scheme,
      cl_config = sample_url_config\<lparr>Host := ''https://kcp:6443/services/clusters/'' @ c\<rparr>,
      cl_httpClient = 1, cl_client = 2, cl_mapper = sample_mapper,
      cl_cache = \<lparr>sc_base = sample_wildcard, sc_clusterName = c\<rparr>\<rparr>"

lemma sample_newScopedCluster:
  assumes "url_name_ok c"
  shows "newScopedCluster documented_lib sample_cluster_lib sample_url_config c sample_wildcard sample_scheme =
    Ok (sample_cluster c)"
  using JoinPath_cluster [OF sample_endpoint_ok assms sample_request_path_ok, of "Host sample_url_config"
      "JoinPath_escaped sample_cluster_lib"]
  by (simp add: newScopedCluster_def sample_cluster_lib_def sample_cluster_def Let_def
      endpoint_def sample_url_config_def)

theorem newScopedCluster_endpoint_witness:
  "Host (scopedCluster_GetConfig (sample_cluster ''c1'')) = ''https://kcp:6443/services/clusters/c1''"
  using newScopedCluster_endpoint [OF sample_endpoint_ok sample_url_name_ok(1) sample_request_path_ok _
      sample_newScopedCluster [OF sample_url_name_ok(1)]]
  by (simp add: endpoint_def sample_url_config_def)

text \<open>
  Clusters do not share an endpoint: under the same assumptions on the configured URL,
  two scoped clusters made from one configuration have the same configuration exactly when
  they are for the same logical cluster.
\<close>

lemma newScopedCluster_distinct:
  assumes "endpoint_ok sch authority es"
    and "Host cfg = endpoint sch authority es \<or> Host cfg = endpoint sch authority es @ ''/''"
    and "url_name_ok c1" and "request_path_ok L c1" and "url_name_ok c2" and "request_path_ok L c2"
    and "newScopedCluster L K cfg c1 w s = Ok cl1" and "newScopedCluster L K cfg c2 w s = Ok cl2"
  shows "scopedCluster_GetConfig cl1 = scopedCluster_GetConfig cl2 \<longleftrightarrow> c1 = c2"
proof -
  let ?E = "\<lambda>c. endpoint sch authority (es @ [''clusters'', c])"
  have "scopedCluster_GetConfig cl1 = cfg\<lparr>Host := ?E c1\<rparr>"
    using JoinPath_cluster [OF assms(1,3,4,2), of "JoinPath_escaped K"] assms(7)
    by (auto simp: newScopedCluster_Ok scopedCluster_getters)
  moreover have "scopedCluster_GetConfig cl2 = cfg\<lparr>Host := ?E c2\<rparr>"
    using JoinPath_cluster [OF assms(1,5,6,2), of "JoinPath_escaped K"] assms(8)
    by (auto simp: newScopedCluster_Ok scopedCluster_getters)
  moreover have "cfg\<lparr>Host := ?E c1\<rparr> = cfg\<lparr>Host := ?E c2\<rparr> \<longleftrightarrow> ?E c1 = ?E c2"
    by (cases cfg) (simp add: endpoint_def)
  ultimately show ?thesis
    using cluster_url.enc_inj [where x = c1 and y = c2 and sch = sch and authority = authority and es = es]
    by auto
qed

lemma newScopedCluster_distinct_witness:
  "scopedCluster_GetConfig (sample_cluster ''c1'') \<noteq> scopedCluster_GetConfig (sample_cluster ''c2'')"
  using newScopedCluster_distinct [OF sample_endpoint_ok _ sample_url_name_ok(1) sample_request_path_ok
      sample_url_name_ok(2) sample_request_path_ok sample_newScopedCluster [OF sample_url_name_ok(1)]
      sample_newScopedCluster [OF sample_url_name_ok(2)]]
  by (simp add: endpoint_def sample_url_config_def)

text \<open>
  C27. A configured host of the form \<open>host:port\<close> loses the cluster: \<open>url.JoinPath\<close> takes the
  host for a URL scheme and drops the path, so every scoped cluster gets the same
  configuration, for the bare \<open>host:port\<close> in lower case, and all their clients talk to
  the base server.
\<close>

theorem newScopedCluster_host_port:
  assumes "Host cfg = c # h @ '':'' @ port" and "c \<in> set letters"
    and "\<forall>c \<in> set h. c \<in> set letters \<or> c \<in> set digits \<or> c \<in> set ''-.''"
    and "port \<noteq> ''''" and "\<forall>c \<in> set port. c \<in> set digits"
    and "url_name_ok name" and "request_path_ok L name"
    and "newScopedCluster L K cfg name w s = Ok cl"
  shows "scopedCluster_GetConfig cl = cfg\<lparr>Host := map lower_char (c # h) @ '':'' @ port\<rparr>"
proof -
  have "\<forall>d \<in> set (lc_RequestPath L name). plain_char d"
    using assms(6,7) by (auto simp: url_name_ok_def request_path_ok_def plain_char_def letters_def lowers_def)
  from JoinPath_host_port [OF assms(2-5) this] assms(1,8) show ?thesis
    by (auto simp: newScopedCluster_Ok scopedCluster_getters)
qed

definition sample_host_port_config :: rest_config where
  "sample_host_port_config = \<lparr>Host = ''kcp:6443'', cfg_rest = ''''\<rparr>"

lemma sample_host_port_cluster:
  "newScopedCluster documented_lib sample_cluster_lib sample_host_port_config ''c1'' sample_wildcard sample_scheme =
     Ok ((sample_cluster ''c1'')\<lparr>cl_config := sample_host_port_config\<rparr>)"
proof -
  have "JoinPath (JoinPath_escaped sample_cluster_lib) ''kcp:6443'' ''/clusters/c1'' = Ok ''kcp:6443''"
    by (subst JoinPath_host_port [of "CHR ''k''" "''cp''" "''6443''", simplified])
      (simp_all add: letters_def lowers_def uppers_def digits_def plain_char_def lower_char_def)
  then show ?thesis
    by (simp add: newScopedCluster_def sample_cluster_lib_def sample_cluster_def
        sample_host_port_config_def)
qed

theorem newScopedCluster_host_port_witness:
  "scopedCluster_GetConfig ((sample_cluster ''c1'')\<lparr>cl_config := sample_host_port_config\<rparr>) =
     sample_host_port_config\<lparr>Host := ''kcp:6443''\<rparr>"
proof -
  have "Host sample_host_port_config = CHR ''k'' # ''cp'' @ '':'' @ ''6443''"
    by (simp add: sample_host_port_config_def)
  from newScopedCluster_host_port [OF this _ _ _ _ sample_url_name_ok(1) sample_request_path_ok
      sample_host_port_cluster]
  show ?thesis by (simp add: letters_def lowers_def uppers_def digits_def lower_char_def)
qed

end
