(* ===== verification/Step_Systems.thy ===== *)
theory Step_Systems
  imports Prelude
begin

text \<open>
  Reachability in a step system, and the interfaces its properties are proved through: an
  invariant, a predicate that holds of the initial states and is kept by every step, and a
  refinement, a function to the states of an abstract system under which every step is a
  step of that system or changes nothing.
\<close>

inductive reachable :: "('s \<Rightarrow> bool) \<Rightarrow> ('s \<Rightarrow> 's \<Rightarrow> bool) \<Rightarrow> 's \<Rightarrow> bool"
  for init :: "'s \<Rightarrow> bool" and step :: "'s \<Rightarrow> 's \<Rightarrow> bool" where
  reachable_init: "init s \<Longrightarrow> reachable init step s"
| reachable_step: "reachable init step s \<Longrightarrow> step s s' \<Longrightarrow> reachable init step s'"

lemma reachable_steps:
  assumes "reachable init step s" and "step\<^sup>*\<^sup>* s s'"
  shows "reachable init step s'"
  using assms(2,1) by induction (auto intro: reachable_step)

locale invariant_system =
  fixes init :: "'s \<Rightarrow> bool"
    and step :: "'s \<Rightarrow> 's \<Rightarrow> bool"
    and inv :: "'s \<Rightarrow> bool"
  assumes inv_init: "init s \<Longrightarrow> inv s"
    and inv_step: "inv s \<Longrightarrow> step s s' \<Longrightarrow> inv s'"
begin

lemma inv_reachable: "reachable init step s \<Longrightarrow> inv s"
  by (induction rule: reachable.induct) (auto intro: inv_init inv_step)

lemma inv_steps:
  assumes "step\<^sup>*\<^sup>* s s'" and "inv s"
  shows "inv s'"
  using assms by induction (auto intro: inv_step)

end

locale refinement =
  fixes cinit :: "'s \<Rightarrow> bool"
    and cstep :: "'s \<Rightarrow> 's \<Rightarrow> bool"
    and ainit :: "'t \<Rightarrow> bool"
    and astep :: "'t \<Rightarrow> 't \<Rightarrow> bool"
    and abs :: "'s \<Rightarrow> 't"
  assumes abs_init: "cinit s \<Longrightarrow> ainit (abs s)"
    and abs_step: "reachable cinit cstep s \<Longrightarrow> cstep s s' \<Longrightarrow> abs s' = abs s \<or> astep (abs s) (abs s')"
begin

lemma abs_steps:
  assumes "cstep\<^sup>*\<^sup>* s s'" and "reachable cinit cstep s"
  shows "astep\<^sup>*\<^sup>* (abs s) (abs s')"
  using assms
proof induction
  case (step t t')
  have "reachable cinit cstep t" by (rule reachable_steps [OF step.prems step.hyps(1)])
  then have "abs t' = abs t \<or> astep (abs t) (abs t')" using step.hyps(2) by (rule abs_step)
  then show ?case using step.IH [OF step.prems] by auto
qed simp

lemma abs_reachable: "reachable cinit cstep s \<Longrightarrow> reachable ainit astep (abs s)"
proof (induction rule: reachable.induct)
  case (reachable_init s)
  then show ?case by (blast intro: reachable.reachable_init abs_init)
next
  case (reachable_step s s')
  have "abs s' = abs s \<or> astep (abs s) (abs s')" by (rule abs_step [OF reachable_step.hyps])
  then show ?case using reachable_step.IH reachable.reachable_step [of ainit astep "abs s"] by auto
qed

end

end
