(* ===== verification/Provider.thy ===== *)
theory Provider
  imports Scoped_Cluster Step_Systems
begin

text \<open>
  The provider of \<open>virtualworkspace/provider.go\<close>: construction, the event handlers \<open>Run\<close>
  registers, which engage a logical cluster with the manager when its first object appears
  and disengage it when its last one is gone, \<open>Run\<close> itself and the accessors.
\<close>

section \<open>State\<close>

text \<open>
  A cancel function is known by its context, a cluster by its pointer; the n-th run of the
  slow path allocates the context and the pointer with number n. Beside the provider's own
  fields the state has what the handlers do outside them: the next number, the contexts
  that were cancelled, the calls of \<open>mgr.Engage\<close> and the log.
\<close>

datatype log_entry =
    LogError string "go_error option" string
  | LogInfo string string

record Provider =
  config :: rest_config
  pscheme :: scheme
  pcache :: wildcardCache
  pobject :: object
  clusters :: "string \<rightharpoonup> nat \<times> scopedCluster"
  cancelFns :: "string \<rightharpoonup> nat"

record provider_state = Provider +
  next_ctx :: nat
  cancelled :: "nat set"
  engaged :: "(nat \<times> string) list"
  logged :: "log_entry list"

definition log_add :: "log_entry \<Rightarrow> provider_state \<Rightarrow> provider_state" where
  "log_add e s = s\<lparr>logged := logged s @ [e]\<rparr>"

definition cancel :: "nat \<Rightarrow> provider_state \<Rightarrow> provider_state" where
  "cancel ctx s = s\<lparr>cancelled := insert ctx (cancelled s)\<rparr>"

section \<open>Construction\<close>

record Options =
  opts_Scheme :: "scheme option"
  opts_WildcardCache :: "wildcardCache option"

definition New :: "'a cluster_lib_scheme \<Rightarrow> rest_config \<Rightarrow> object \<Rightarrow> Options \<Rightarrow> Provider outcome" where
  "New K cfg obj options =
     (let scheme = (case opts_Scheme options of None \<Rightarrow> default_Scheme K | Some s \<Rightarrow> s);
          provider = (\<lambda>cache. \<lparr>config = cfg, pscheme = scheme, pcache = cache, pobject = obj,
                               clusters = Map.empty, cancelFns = Map.empty\<rparr>)
      in case opts_WildcardCache options of
           Some cache \<Rightarrow> Ok (provider cache)
         | None \<Rightarrow>
             (case NewWildcardCache (ctor_lib.truncate K) cfg
                     \<lparr>opt_Scheme = Some scheme, opt_HTTPClient = None, opt_Mapper = None, opt_NewInformer = None\<rparr> of
                Err err \<Rightarrow> Err (Wrapf ''failed to create wildcard cache: %w'' [] err)
              | Panic p \<Rightarrow> Panic p
              | Ok cache \<Rightarrow> Ok (provider cache)))"

section \<open>Accessors\<close>

definition Provider_Get :: "'a Provider_scheme \<Rightarrow> string \<Rightarrow> (nat \<times> scopedCluster) outcome" where
  "Provider_Get p name =
     (case clusters p name of
        Some cl \<Rightarrow> Ok cl
      | None \<Rightarrow> Err (Errorf ''cluster %q not found'' [name]))"

definition GetWildcard :: "'a Provider_scheme \<Rightarrow> wildcardCache" where
  "GetWildcard p = pcache p"

definition Provider_IndexField ::
  "kcp_lib \<Rightarrow> 'a Provider_scheme \<Rightarrow> go_type \<Rightarrow> string \<Rightarrow> extractor \<Rightarrow> go_error option" where
  "Provider_IndexField L p t field extractValue =
     wildcardCache_IndexField L (pcache p) t field extractValue"

section \<open>The add handler\<close>

text \<open>
  \<open>AddFunc\<close> in its three critical sections. The first, under the read lock, looks whether
  the cluster is known. The second, under the write lock, looks again, makes the cluster and
  stores it with its cancel function. Then \<open>mgr.Engage\<close> is called without a lock; the third
  section, under the write lock again, undoes the registration if it failed and the map
  still has this very cluster. \<open>engage\<close> is the manager's answer to the call, which, as each
  call has a context of its own, may differ from call to call.
\<close>

type_synonym manager = "nat \<Rightarrow> string \<Rightarrow> scopedCluster \<Rightarrow> go_error option"

definition add_known :: "string \<Rightarrow> provider_state \<Rightarrow> bool" where
  "add_known clusterName s \<longleftrightarrow> clusters s clusterName \<noteq> None"

definition add_slow ::
  "kcp_lib \<Rightarrow> 'a cluster_lib_scheme \<Rightarrow> string \<Rightarrow> provider_state \<Rightarrow>
   ((nat \<times> scopedCluster) option \<times> provider_state) outcome" where
  "add_slow L K clusterName s =
     (if clusters s clusterName \<noteq> None then Ok (None, s)
      else
        let ctx = next_ctx s;
            s = s\<lparr>next_ctx := Suc ctx\<rparr>
        in case newScopedCluster L K (config s) clusterName (pcache s) (pscheme s) of
             Panic p \<Rightarrow> Panic p
           | Err err \<Rightarrow>
               (let s = log_add (LogError ''failed to create cluster'' (Some err) clusterName) s;
                    s = cancel ctx s
                in Ok (None, s))
           | Ok cl \<Rightarrow>
               (let s = s\<lparr>clusters := (clusters s)(clusterName \<mapsto> (ctx, cl))\<rparr>;
                    s = s\<lparr>cancelFns := (cancelFns s)(clusterName \<mapsto> ctx)\<rparr>
                in Ok (Some (ctx, cl), s)))"

definition add_undo :: "string \<Rightarrow> nat \<times> scopedCluster \<Rightarrow> provider_state \<Rightarrow> provider_state" where
  "add_undo clusterName cl s =
     (let s = cancel (fst cl) s
      in if map_option fst (clusters s clusterName) = Some (fst cl)
         then (let s = s\<lparr>clusters := (clusters s)(clusterName := None)\<rparr>
               in s\<lparr>cancelFns := (cancelFns s)(clusterName := None)\<rparr>)
         else s)"

definition add_engage :: "manager \<Rightarrow> string \<Rightarrow> nat \<times> scopedCluster \<Rightarrow> provider_state \<Rightarrow> provider_state" where
  "add_engage engage clusterName cl s =
     (let s = log_add (LogInfo ''engaging cluster'' clusterName) s;
          s = s\<lparr>engaged := engaged s @ [(fst cl, clusterName)]\<rparr>
      in case engage (fst cl) clusterName (snd cl) of
           None \<Rightarrow> s
         | Some err \<Rightarrow> log_add (LogError ''failed to engage cluster'' (Some err) clusterName) s)"

text \<open>The manager's refusal, which sends the handler into the third section.\<close>

definition engage_fails :: "manager \<Rightarrow> string \<Rightarrow> nat \<times> scopedCluster \<Rightarrow> bool" where
  "engage_fails engage clusterName cl \<longleftrightarrow> engage (fst cl) clusterName (snd cl) \<noteq> None"

definition AddFunc ::
  "kcp_lib \<Rightarrow> 'a cluster_lib_scheme \<Rightarrow> manager \<Rightarrow> any \<Rightarrow> provider_state \<Rightarrow> provider_state outcome" where
  "AddFunc L K engage obj s =
     (case as_client_Object obj of
        None \<Rightarrow> Ok (log_add (LogError ''unexpected object type'' None (any_type_name obj)) s)
      | Some cobj \<Rightarrow>
          (let clusterName = lc_From L cobj
           in if add_known clusterName s then Ok s
              else (case add_slow L K clusterName s of
                      Panic p \<Rightarrow> Panic p
                    | Err err \<Rightarrow> Err err
                    | Ok (None, s) \<Rightarrow> Ok s
                    | Ok (Some cl, s) \<Rightarrow>
                        (let s = add_engage engage clusterName cl s
                         in Ok (if engage_fails engage clusterName cl then add_undo clusterName cl s
                                else s)))))"

section \<open>The delete handler\<close>

text \<open>
  \<open>DeleteFunc\<close>: the object, or the object of a tombstone, names the cluster; if the index
  of the shared informer has no key left for it, the second part, under the write lock,
  cancels the context and forgets the cluster. The index is read without the lock, so the
  two parts are separate. The result of the first part is the cluster to disengage.
\<close>

fun deleted_object :: "any \<Rightarrow> objmeta option" where
  "deleted_object (Tombstone k obj) = as_client_Object obj"
| "deleted_object obj = as_client_Object obj"

fun delete_complaint :: "any \<Rightarrow> log_entry" where
  "delete_complaint (Tombstone k obj) =
     LogError ''Tombstone contained object that is not expected'' None k"
| "delete_complaint obj =
     LogError ''Couldn't get object from tombstone'' None (any_type_name obj)"

definition delete_check ::
  "kcp_lib \<Rightarrow> indexer option \<Rightarrow> any \<Rightarrow> provider_state \<Rightarrow> (string option \<times> provider_state) outcome" where
  "delete_check L shInf obj s =
     (case deleted_object obj of
        None \<Rightarrow> Ok (None, log_add (delete_complaint obj) s)
      | Some cobj \<Rightarrow>
          (let clusterName = lc_From L cobj
           in case shInf of
                None \<Rightarrow> Panic nil_dereference
              | Some ix \<Rightarrow>
                 (case IndexKeys ix (ClusterIndexName L) clusterName of
                    Panic p \<Rightarrow> Panic p
                  | Err err \<Rightarrow>
                      Ok (None, log_add (LogError ''failed to get index keys'' (Some err) clusterName) s)
                  | Ok keys \<Rightarrow> Ok (if length keys = 0 then Some clusterName else None, s))))"

definition delete_commit :: "string \<Rightarrow> provider_state \<Rightarrow> provider_state" where
  "delete_commit clusterName s =
     (case cancelFns s clusterName of
        None \<Rightarrow> s
      | Some ctx \<Rightarrow>
          (let s = log_add (LogInfo ''disengaging cluster'' clusterName) s;
               s = cancel ctx s;
               s = s\<lparr>cancelFns := (cancelFns s)(clusterName := None)\<rparr>
           in s\<lparr>clusters := (clusters s)(clusterName := None)\<rparr>))"

definition DeleteFunc ::
  "kcp_lib \<Rightarrow> indexer option \<Rightarrow> any \<Rightarrow> provider_state \<Rightarrow> provider_state outcome" where
  "DeleteFunc L shInf obj s =
     (case delete_check L shInf obj s of
        Panic p \<Rightarrow> Panic p
      | Err err \<Rightarrow> Err err
      | Ok (None, s) \<Rightarrow> Ok s
      | Ok (Some clusterName, s) \<Rightarrow> Ok (delete_commit clusterName s))"

text \<open>
  The registered \<open>ResourceEventHandlerFuncs\<close>: there is no \<open>UpdateFunc\<close>, so updates do
  nothing.
\<close>

fun provider_handler ::
  "kcp_lib \<Rightarrow> 'a cluster_lib_scheme \<Rightarrow> manager \<Rightarrow> indexer option \<Rightarrow> provider_state handler" where
  "provider_handler L K engage shInf (OnAdd obj isInInitialList) s = AddFunc L K engage obj s"
| "provider_handler L K engage shInf (OnUpdate oldObj newObj) s = Ok s"
| "provider_handler L K engage shInf (OnDelete obj) s = DeleteFunc L shInf obj s"

section \<open>The registry invariant\<close>

text \<open>
  What holds between any two critical sections: the two maps have the same clusters, with
  matching numbers, no context belongs to two of them, and the contexts that were created and
  not cancelled are exactly the registered ones, so none leaks and none in use is dead.
  Every engagement of the manager whose context is live is the registered one of its
  cluster, and every registered cluster is scoped to its own name over the provider's cache.
\<close>

definition live :: "provider_state \<Rightarrow> nat \<Rightarrow> bool" where
  "live s ctx \<longleftrightarrow> ctx < next_ctx s \<and> ctx \<notin> cancelled s"

text \<open>A context made for a cluster: registered for it as long as it is live.\<close>

definition owned :: "provider_state \<Rightarrow> string \<Rightarrow> nat \<Rightarrow> bool" where
  "owned s n ctx \<longleftrightarrow> ctx < next_ctx s \<and> (ctx \<notin> cancelled s \<longrightarrow> cancelFns s n = Some ctx)"

definition registry_ok :: "provider_state \<Rightarrow> bool" where
  "registry_ok s \<longleftrightarrow>
     (\<forall>n. map_option fst (clusters s n) = cancelFns s n) \<and>
     (\<forall>m n ctx. cancelFns s m = Some ctx \<longrightarrow> cancelFns s n = Some ctx \<longrightarrow> m = n) \<and>
     (\<forall>ctx. live s ctx \<longleftrightarrow> (\<exists>n. cancelFns s n = Some ctx)) \<and>
     (\<forall>ctx \<in> cancelled s. ctx < next_ctx s) \<and>
     (\<forall>(ctx, n) \<in> set (engaged s). owned s n ctx) \<and>
     (\<forall>n ctx cl. clusters s n = Some (ctx, cl) \<longrightarrow>
        cl_clusterName cl = n \<and> cl_cache cl = \<lparr>sc_base = pcache s, sc_clusterName = n\<rparr>)"

lemma registry_okD:
  assumes "registry_ok s"
  shows "map_option fst (clusters s n) = cancelFns s n"
    and "cancelFns s m = Some ctx \<Longrightarrow> cancelFns s n = Some ctx \<Longrightarrow> m = n"
    and "live s ctx \<longleftrightarrow> (\<exists>n. cancelFns s n = Some ctx)"
    and "ctx \<in> cancelled s \<Longrightarrow> ctx < next_ctx s"
    and "(ctx, n) \<in> set (engaged s) \<Longrightarrow> owned s n ctx"
    and "clusters s n = Some (ctx, cl) \<Longrightarrow>
           cl_clusterName cl = n \<and> cl_cache cl = \<lparr>sc_base = pcache s, sc_clusterName = n\<rparr>"
  using assms by (auto simp: registry_ok_def)

lemma registered_iff: "registry_ok s \<Longrightarrow> clusters s n = None \<longleftrightarrow> cancelFns s n = None"
  using registry_okD(1) [of s n] by (metis map_option_is_None)

lemma registered_live: "registry_ok s \<Longrightarrow> cancelFns s n = Some ctx \<Longrightarrow> live s ctx"
  using registry_okD(3) by blast

lemma log_sel [simp]:
  "clusters (log_add e s) = clusters s" "cancelFns (log_add e s) = cancelFns s"
  "next_ctx (log_add e s) = next_ctx s" "cancelled (log_add e s) = cancelled s"
  "engaged (log_add e s) = engaged s" "pcache (log_add e s) = pcache s"
  "config (log_add e s) = config s" "pscheme (log_add e s) = pscheme s"
  by (simp_all add: log_add_def)

lemma cancel_sel [simp]:
  "clusters (cancel c s) = clusters s" "cancelFns (cancel c s) = cancelFns s"
  "next_ctx (cancel c s) = next_ctx s" "cancelled (cancel c s) = insert c (cancelled s)"
  "engaged (cancel c s) = engaged s" "pcache (cancel c s) = pcache s"
  "config (cancel c s) = config s" "pscheme (cancel c s) = pscheme s"
  by (simp_all add: cancel_def)

lemma log_ok [simp]: "registry_ok (log_add e s) = registry_ok s" "owned (log_add e s) = owned s"
  by (auto simp: registry_ok_def live_def owned_def fun_eq_iff)

text \<open>
  The two ways the registry changes. Registering a fresh context for an unknown cluster, and
  dropping a registered one together with its context, keep the invariant; both keep what
  is owned.
\<close>

lemma registry_ok_register:
  assumes ok: "registry_ok s" and new: "clusters s n = None"
    and cl: "cl_clusterName cl = n" "cl_cache cl = \<lparr>sc_base = pcache s, sc_clusterName = n\<rparr>"
  defines "s' \<equiv> s\<lparr>next_ctx := Suc (next_ctx s), clusters := (clusters s)(n \<mapsto> (next_ctx s, cl)),
                 cancelFns := (cancelFns s)(n \<mapsto> next_ctx s)\<rparr>"
  shows "registry_ok s'" and "owned s' n (next_ctx s)" and "owned s m c \<Longrightarrow> owned s' m c"
proof -
  have sel: "clusters s' = (clusters s)(n \<mapsto> (next_ctx s, cl))"
    "cancelFns s' = (cancelFns s)(n \<mapsto> next_ctx s)" "next_ctx s' = Suc (next_ctx s)"
    "cancelled s' = cancelled s" "engaged s' = engaged s" "pcache s' = pcache s"
    by (simp_all add: s'_def)
  have fresh: "cancelFns s m \<noteq> Some (next_ctx s)" for m
    using registry_okD(3) [OF ok, of "next_ctx s"] by (auto simp: live_def)
  have notc: "next_ctx s \<notin> cancelled s" using registry_okD(4) [OF ok] by blast
  have none: "cancelFns s n = None" using registered_iff [OF ok] new by blast
  have own: "owned s m c \<Longrightarrow> owned s' m c" for m c
    using none by (auto simp: owned_def sel)
  then show "owned s m c \<Longrightarrow> owned s' m c" .
  show "owned s' n (next_ctx s)" using notc by (simp add: owned_def sel)
  have live: "live s' c \<longleftrightarrow> c = next_ctx s \<or> live s c" for c
    using notc by (auto simp: live_def sel less_Suc_eq)
  show "registry_ok s'"
    unfolding registry_ok_def
  proof (intro conjI)
    show "\<forall>m. map_option fst (clusters s' m) = cancelFns s' m"
      using registry_okD(1) [OF ok] by (simp add: sel)
    show "\<forall>m n ctx. cancelFns s' m = Some ctx \<longrightarrow> cancelFns s' n = Some ctx \<longrightarrow> m = n"
      using registry_okD(2) [OF ok] fresh by (auto simp: sel)
    show "\<forall>ctx. live s' ctx \<longleftrightarrow> (\<exists>n. cancelFns s' n = Some ctx)"
      unfolding live registry_okD(3) [OF ok] sel using none by (metis (full_types) fun_upd_apply option.inject option.distinct(1))
    show "\<forall>ctx \<in> cancelled s'. ctx < next_ctx s'"
      using registry_okD(4) [OF ok] by (auto simp: sel less_Suc_eq)
    show "\<forall>(ctx, n) \<in> set (engaged s'). owned s' n ctx"
      using registry_okD(5) [OF ok] own by (auto simp: sel)
    show "\<forall>n ctx cl. clusters s' n = Some (ctx, cl) \<longrightarrow>
        cl_clusterName cl = n \<and> cl_cache cl = \<lparr>sc_base = pcache s', sc_clusterName = n\<rparr>"
      using registry_okD(6) [OF ok] cl by (auto simp: sel)
  qed
qed

lemma registry_ok_drop:
  assumes ok: "registry_ok s" and reg: "cancelFns s n = Some c"
  defines "s' \<equiv> s\<lparr>cancelled := insert c (cancelled s), clusters := (clusters s)(n := None),
                 cancelFns := (cancelFns s)(n := None)\<rparr>"
  shows "registry_ok s'" and "owned s m d \<Longrightarrow> owned s' m d"
proof -
  have sel: "clusters s' = (clusters s)(n := None)" "cancelFns s' = (cancelFns s)(n := None)"
    "next_ctx s' = next_ctx s" "cancelled s' = insert c (cancelled s)" "engaged s' = engaged s"
    "pcache s' = pcache s"
    by (simp_all add: s'_def)
  have own: "owned s m d \<Longrightarrow> owned s' m d" for m d
    using reg by (auto simp: owned_def sel)
  then show "owned s m d \<Longrightarrow> owned s' m d" .
  have lt: "c < next_ctx s" using registered_live [OF ok reg] by (simp add: live_def)
  have live: "live s' d \<longleftrightarrow> live s d \<and> d \<noteq> c" for d by (auto simp: live_def sel)
  show "registry_ok s'"
    unfolding registry_ok_def
  proof (intro conjI)
    show "\<forall>m. map_option fst (clusters s' m) = cancelFns s' m"
      using registry_okD(1) [OF ok] by (simp add: sel)
    show "\<forall>m n ctx. cancelFns s' m = Some ctx \<longrightarrow> cancelFns s' n = Some ctx \<longrightarrow> m = n"
      using registry_okD(2) [OF ok] by (simp add: sel)
    show "\<forall>ctx. live s' ctx \<longleftrightarrow> (\<exists>n. cancelFns s' n = Some ctx)"
      unfolding live registry_okD(3) [OF ok] sel fun_upd_apply
      using registry_okD(2) [OF ok _ reg] reg by (metis option.inject option.distinct(1))
    show "\<forall>ctx \<in> cancelled s'. ctx < next_ctx s'"
      using registry_okD(4) [OF ok] lt by (auto simp: sel)
    show "\<forall>(ctx, n) \<in> set (engaged s'). owned s' n ctx"
      using registry_okD(5) [OF ok] own by (auto simp: sel)
    show "\<forall>n ctx cl. clusters s' n = Some (ctx, cl) \<longrightarrow>
        cl_clusterName cl = n \<and> cl_cache cl = \<lparr>sc_base = pcache s', sc_clusterName = n\<rparr>"
      using registry_okD(6) [OF ok] by (simp add: sel)
  qed
qed

text \<open>Creating a context and cancelling it at once changes neither map.\<close>

lemma registry_ok_waste:
  assumes ok: "registry_ok s"
  defines "s' \<equiv> s\<lparr>next_ctx := Suc (next_ctx s), cancelled := insert (next_ctx s) (cancelled s)\<rparr>"
  shows "registry_ok s'" and "owned s m d \<Longrightarrow> owned s' m d"
proof -
  have own: "owned s m d \<Longrightarrow> owned s' m d" for m d by (auto simp: owned_def s'_def)
  then show "owned s m d \<Longrightarrow> owned s' m d" .
  have "live s' d \<longleftrightarrow> live s d" for d by (auto simp: live_def s'_def)
  then show "registry_ok s'"
    using ok own unfolding registry_ok_def by (auto simp: s'_def)
qed

text \<open>A critical section ends in a good registry and takes no owned context away.\<close>

definition evolves :: "provider_state \<Rightarrow> provider_state \<Rightarrow> bool" where
  "evolves s s' \<longleftrightarrow> registry_ok s' \<and> (\<forall>m d. owned s m d \<longrightarrow> owned s' m d)"

lemma evolves_refl: "registry_ok s \<Longrightarrow> evolves s s"
  by (simp add: evolves_def)

lemma evolves_trans: "evolves s s' \<Longrightarrow> evolves s' s'' \<Longrightarrow> evolves s s''"
  by (simp add: evolves_def)

lemma evolves_log [simp]: "evolves s (log_add e s') = evolves s s'" "evolves (log_add e s) s' = evolves s s'"
  by (simp_all add: evolves_def)

lemma newScopedCluster_scoped:
  "newScopedCluster L K cfg c w sch = Ok cl \<Longrightarrow>
   cl_clusterName cl = c \<and> cl_cache cl = \<lparr>sc_base = w, sc_clusterName = c\<rparr>"
  by (auto simp: newScopedCluster_Ok)

lemma add_slow_cases:
  assumes "clusters s n = None"
  shows "add_slow L K n s =
    (case newScopedCluster L K (config s) n (pcache s) (pscheme s) of
       Panic p \<Rightarrow> Panic p
     | Err e \<Rightarrow> Ok (None, log_add (LogError ''failed to create cluster'' (Some e) n)
                 (s\<lparr>next_ctx := Suc (next_ctx s), cancelled := insert (next_ctx s) (cancelled s)\<rparr>))
     | Ok cl \<Rightarrow> Ok (Some (next_ctx s, cl),
                 s\<lparr>next_ctx := Suc (next_ctx s), clusters := (clusters s)(n \<mapsto> (next_ctx s, cl)),
                   cancelFns := (cancelFns s)(n \<mapsto> next_ctx s)\<rparr>))"
  using assms
  by (simp add: add_slow_def Let_def log_add_def cancel_def split: outcome.split)

lemma add_slow_evolves:
  assumes ok: "registry_ok s" and run: "add_slow L K n s = Ok (r, s')"
  shows "evolves s s'" and "r = Some cl \<Longrightarrow> owned s' n (fst cl)"
proof -
  have "evolves s s' \<and> (r = Some cl \<longrightarrow> owned s' n (fst cl))"
  proof (cases "clusters s n")
    case None
    show ?thesis
    proof (cases "newScopedCluster L K (config s) n (pcache s) (pscheme s)")
      case (Ok c)
      then have "r = Some (next_ctx s, c)"
        and s': "s' = s\<lparr>next_ctx := Suc (next_ctx s), clusters := (clusters s)(n \<mapsto> (next_ctx s, c)),
                   cancelFns := (cancelFns s)(n \<mapsto> next_ctx s)\<rparr>"
        using run by (auto simp: add_slow_cases [OF None])
      with registry_ok_register [OF ok None] newScopedCluster_scoped [OF Ok] show ?thesis
        by (auto simp: evolves_def)
    next
      case (Err e)
      then have "r = None" "evolves s s'"
        using run registry_ok_waste [OF ok] by (auto simp: add_slow_cases [OF None] evolves_def)
      then show ?thesis by simp
    next
      case (Panic p)
      then show ?thesis using run by (simp add: add_slow_cases [OF None])
    qed
  next
    case (Some c)
    then show ?thesis using run ok by (simp add: add_slow_def evolves_refl)
  qed
  then show "evolves s s'" and "r = Some cl \<Longrightarrow> owned s' n (fst cl)" by blast+
qed

lemma add_engage_sel [simp]:
  "clusters (add_engage engage n cl s) = clusters s"
  "cancelFns (add_engage engage n cl s) = cancelFns s"
  "next_ctx (add_engage engage n cl s) = next_ctx s"
  "cancelled (add_engage engage n cl s) = cancelled s"
  "engaged (add_engage engage n cl s) = engaged s @ [(fst cl, n)]"
  "pcache (add_engage engage n cl s) = pcache s"
  by (simp_all add: add_engage_def Let_def split: option.split)

lemma add_engage_owned [simp]: "owned (add_engage engage n cl s) = owned s"
  by (simp add: owned_def fun_eq_iff)

lemma add_engage_evolves:
  assumes "registry_ok s" and "owned s n (fst cl)"
  shows "evolves s (add_engage engage n cl s)"
  using assms by (auto simp: evolves_def registry_ok_def live_def)

lemma add_undo_cases:
  assumes ok: "registry_ok s" and own: "owned s n (fst cl)"
  shows "add_undo n cl s =
    (if cancelFns s n = Some (fst cl)
     then s\<lparr>cancelled := insert (fst cl) (cancelled s), clusters := (clusters s)(n := None),
            cancelFns := (cancelFns s)(n := None)\<rparr>
     else s)"
proof (cases "cancelFns s n = Some (fst cl)")
  case True
  then show ?thesis using registry_okD(1) [OF ok, of n] by (simp add: add_undo_def cancel_def Let_def)
next
  case False
  then have "fst cl \<in> cancelled s" using own by (auto simp: owned_def)
  then show ?thesis
    using False registry_okD(1) [OF ok, of n]
    by (simp add: add_undo_def cancel_def Let_def insert_absorb del: map_option_eq_Some)
qed

lemma add_undo_evolves:
  assumes ok: "registry_ok s" and own: "owned s n (fst cl)"
  shows "evolves s (add_undo n cl s)"
  using registry_ok_drop [OF ok, of n "fst cl"] evolves_refl [OF ok]
  by (auto simp: add_undo_cases [OF ok own] evolves_def)

lemma delete_check_evolves:
  "registry_ok s \<Longrightarrow> delete_check L shInf obj s = Ok (r, s') \<Longrightarrow> evolves s s'"
  by (auto simp: delete_check_def Let_def evolves_refl split: option.splits outcome.splits)

lemma delete_commit_cases:
  "delete_commit n s =
     (case cancelFns s n of
        None \<Rightarrow> s
      | Some c \<Rightarrow> log_add (LogInfo ''disengaging cluster'' n)
          (s\<lparr>cancelled := insert c (cancelled s), clusters := (clusters s)(n := None),
             cancelFns := (cancelFns s)(n := None)\<rparr>))"
  by (simp add: delete_commit_def Let_def log_add_def cancel_def split: option.split)

lemma delete_commit_evolves: "registry_ok s \<Longrightarrow> evolves s (delete_commit n s)"
  using registry_ok_drop [of s n]
  by (auto simp: delete_commit_cases evolves_refl evolves_def split: option.split)

lemma AddFunc_evolves:
  assumes ok: "registry_ok s" and run: "AddFunc L K engage obj s = Ok s'"
  shows "evolves s s'"
proof (cases "as_client_Object obj")
  case None
  then show ?thesis using run ok by (auto simp: AddFunc_def evolves_refl)
next
  case (Some m)
  let ?n = "lc_From L m"
  show ?thesis
  proof (cases "add_known ?n s")
    case True
    then show ?thesis using run ok Some by (auto simp: AddFunc_def evolves_refl)
  next
    case False
    then obtain r s1 where slow: "add_slow L K ?n s = Ok (r, s1)"
      using run Some by (auto simp: AddFunc_def Let_def split: outcome.splits)
    note ev = add_slow_evolves [OF ok slow]
    show ?thesis
    proof (cases r)
      case None
      then show ?thesis using run Some False slow ev(1) by (simp add: AddFunc_def)
    next
      case (Some cl)
      let ?s = "add_engage engage ?n cl s1"
      have ok1: "registry_ok s1" using ev(1) by (simp add: evolves_def)
      note e = add_engage_evolves [OF ok1 ev(2) [OF Some], of engage]
      then have ok2: "registry_ok ?s" and own: "owned ?s ?n (fst cl)"
        using ev(2) [OF Some] by (simp_all add: evolves_def)
      have "s' = (if engage_fails engage ?n cl then add_undo ?n cl ?s else ?s)"
        using run \<open>as_client_Object obj = Some m\<close> False slow Some by (simp add: AddFunc_def Let_def)
      then show ?thesis
        using evolves_trans [OF ev(1) e] add_undo_evolves [OF ok2 own] evolves_trans by metis
    qed
  qed
qed

lemma DeleteFunc_evolves:
  assumes "registry_ok s" and "DeleteFunc L shInf obj s = Ok s'"
  shows "evolves s s'"
proof -
  obtain r s1 where check: "delete_check L shInf obj s = Ok (r, s1)"
    using assms(2) by (auto simp: DeleteFunc_def split: outcome.splits)
  note ev = delete_check_evolves [OF assms(1) check]
  then have "registry_ok s1" by (simp add: evolves_def)
  from evolves_trans [OF ev delete_commit_evolves [OF this]] show ?thesis
    using assms(2) check ev by (cases r) (auto simp: DeleteFunc_def)
qed

section \<open>Correctness of the handlers\<close>

lemma AddFunc_new:
  assumes "as_client_Object obj = Some m" and "n = lc_From L m" and "clusters s n = None"
  shows "AddFunc L K engage obj s =
    (case newScopedCluster L K (config s) n (pcache s) (pscheme s) of
       Panic p \<Rightarrow> Panic p
     | Err e \<Rightarrow> Ok (log_add (LogError ''failed to create cluster'' (Some e) n)
                 (s\<lparr>next_ctx := Suc (next_ctx s), cancelled := insert (next_ctx s) (cancelled s)\<rparr>))
     | Ok c \<Rightarrow>
         (let cl = (next_ctx s, c);
              s' = add_engage engage n cl
                (s\<lparr>next_ctx := Suc (next_ctx s), clusters := (clusters s)(n \<mapsto> (next_ctx s, c)),
                   cancelFns := (cancelFns s)(n \<mapsto> next_ctx s)\<rparr>)
          in Ok (if engage_fails engage n cl then add_undo n cl s' else s')))"
proof -
  have "\<not> add_known n s" using assms(3) by (simp add: add_known_def)
  then have "AddFunc L K engage obj s =
      (case add_slow L K n s of
         Panic p \<Rightarrow> Panic p
       | Err err \<Rightarrow> Err err
       | Ok (None, s) \<Rightarrow> Ok s
       | Ok (Some cl, s) \<Rightarrow>
           (let s = add_engage engage n cl s
            in Ok (if engage_fails engage n cl then add_undo n cl s else s)))"
    using assms(1) unfolding assms(2) by (simp add: AddFunc_def Let_def)
  then show ?thesis by (simp add: add_slow_cases [OF assms(3)] Let_def split: outcome.split)
qed

text \<open>
  C21. \<open>AddFunc\<close> is all or nothing. For an object of a cluster that is not registered it makes
  one context and one cluster. If the cluster can be made and the manager engages it, both
  are registered and the context stays live; if either fails, both maps are as before and
  the context is cancelled. For a registered cluster nothing happens.
\<close>

theorem AddFunc_atomic:
  assumes "as_client_Object obj = Some m" and "n = lc_From L m" and "registry_ok s"
  shows "(clusters s n \<noteq> None \<longrightarrow> AddFunc L K engage obj s = Ok s) \<and>
    (clusters s n = None \<longrightarrow>
      (case newScopedCluster L K (config s) n (pcache s) (pscheme s) of
         Panic p \<Rightarrow> AddFunc L K engage obj s = Panic p
       | Err e \<Rightarrow> (\<exists>s'. AddFunc L K engage obj s = Ok s' \<and> clusters s' = clusters s \<and>
           cancelFns s' = cancelFns s \<and> engaged s' = engaged s \<and> next_ctx s' = Suc (next_ctx s) \<and>
           cancelled s' = insert (next_ctx s) (cancelled s))
       | Ok cl \<Rightarrow> (\<exists>s'. AddFunc L K engage obj s = Ok s' \<and>
           engaged s' = engaged s @ [(next_ctx s, n)] \<and> next_ctx s' = Suc (next_ctx s) \<and>
           (if engage (next_ctx s) n cl = None
            then clusters s' = (clusters s)(n \<mapsto> (next_ctx s, cl)) \<and>
                 cancelFns s' = (cancelFns s)(n \<mapsto> next_ctx s) \<and> cancelled s' = cancelled s
            else clusters s' = clusters s \<and> cancelFns s' = cancelFns s \<and>
                 cancelled s' = insert (next_ctx s) (cancelled s)))))"
proof (intro conjI impI)
  assume "clusters s n \<noteq> None"
  then show "AddFunc L K engage obj s = Ok s"
    using assms(1,2) by (simp add: AddFunc_def add_known_def Let_def)
next
  assume new: "clusters s n = None"
  then have "cancelFns s n = None" using registered_iff [OF assms(3)] by blast
  then have same: "(clusters s)(n := None) = clusters s" "(cancelFns s)(n := None) = cancelFns s"
    using new by (auto simp: fun_eq_iff)
  show "case newScopedCluster L K (config s) n (pcache s) (pscheme s) of
         Panic p \<Rightarrow> AddFunc L K engage obj s = Panic p
       | Err e \<Rightarrow> (\<exists>s'. AddFunc L K engage obj s = Ok s' \<and> clusters s' = clusters s \<and>
           cancelFns s' = cancelFns s \<and> engaged s' = engaged s \<and> next_ctx s' = Suc (next_ctx s) \<and>
           cancelled s' = insert (next_ctx s) (cancelled s))
       | Ok cl \<Rightarrow> (\<exists>s'. AddFunc L K engage obj s = Ok s' \<and>
           engaged s' = engaged s @ [(next_ctx s, n)] \<and> next_ctx s' = Suc (next_ctx s) \<and>
           (if engage (next_ctx s) n cl = None
            then clusters s' = (clusters s)(n \<mapsto> (next_ctx s, cl)) \<and>
                 cancelFns s' = (cancelFns s)(n \<mapsto> next_ctx s) \<and> cancelled s' = cancelled s
            else clusters s' = clusters s \<and> cancelFns s' = cancelFns s \<and>
                 cancelled s' = insert (next_ctx s) (cancelled s)))"
    using same
    by (cases "newScopedCluster L K (config s) n (pcache s) (pscheme s)")
      (auto simp: AddFunc_new [OF assms(1,2) new] engage_fails_def add_undo_def Let_def)
qed

definition start_state :: "Provider \<Rightarrow> provider_state" where
  "start_state p =
     \<lparr>config = config p, pscheme = pscheme p, pcache = pcache p, pobject = pobject p,
      clusters = clusters p, cancelFns = cancelFns p,
      next_ctx = 0, cancelled = {}, engaged = [], logged = []\<rparr>"

lemma start_state_sel [simp]:
  "clusters (start_state p) = clusters p" "cancelFns (start_state p) = cancelFns p"
  "config (start_state p) = config p" "pcache (start_state p) = pcache p"
  "pscheme (start_state p) = pscheme p" "next_ctx (start_state p) = 0"
  "cancelled (start_state p) = {}" "engaged (start_state p) = []" "logged (start_state p) = []"
  by (simp_all add: start_state_def)

lemma start_state_ok: "clusters p = Map.empty \<Longrightarrow> cancelFns p = Map.empty \<Longrightarrow> registry_ok (start_state p)"
  by (simp add: registry_ok_def live_def)

definition sample_provider :: Provider where
  "sample_provider =
     \<lparr>config = sample_url_config, pscheme = sample_scheme, pcache = sample_wildcard,
      pobject = sample_object '''' '''' '''', clusters = Map.empty, cancelFns = Map.empty\<rparr>"

lemma sample_provider_sel [simp]:
  "config sample_provider = sample_url_config" "pscheme sample_provider = sample_scheme"
  "pcache sample_provider = sample_wildcard" "clusters sample_provider = Map.empty"
  "cancelFns sample_provider = Map.empty"
  by (simp_all add: sample_provider_def)

lemma sample_start_ok: "registry_ok (start_state sample_provider)"
  by (rule start_state_ok) simp_all

text \<open>A manager that engages every cluster but the one named \<open>c2\<close>.\<close>

definition picky_manager :: manager where
  "picky_manager ctx n cl = (if n = ''c2'' then Some (External ''refused'') else None)"

theorem AddFunc_atomic_witness:
  "(\<exists>s'. AddFunc documented_lib sample_cluster_lib picky_manager (Obj (sample_object ''c1'' ''d'' ''cm''))
      (start_state sample_provider) = Ok s' \<and> clusters s' = [''c1'' \<mapsto> (0, sample_cluster ''c1'')]) \<and>
   (\<exists>s'. AddFunc documented_lib sample_cluster_lib picky_manager (Obj (sample_object ''c2'' ''d'' ''cm''))
      (start_state sample_provider) = Ok s' \<and> clusters s' = Map.empty \<and> cancelled s' = {0})"
proof -
  have 1: "as_client_Object (Obj (sample_object ''c1'' ''d'' ''cm'')) = Some (sample_meta ''c1'' ''d'' ''cm'')"
    and 2: "as_client_Object (Obj (sample_object ''c2'' ''d'' ''cm'')) = Some (sample_meta ''c2'' ''d'' ''cm'')"
    by simp_all
  show ?thesis
    using AddFunc_atomic [OF 1 _ sample_start_ok, of "''c1''" documented_lib sample_cluster_lib picky_manager]
      AddFunc_atomic [OF 2 _ sample_start_ok, of "''c2''" documented_lib sample_cluster_lib picky_manager]
      sample_newScopedCluster [OF sample_url_name_ok(1)] sample_newScopedCluster [OF sample_url_name_ok(2)]
    by (auto simp: picky_manager_def)
qed

text \<open>What the handler reads from the index of a store as documented.\<close>

lemma index_empty_iff:
  assumes "store_ready L si items"
  shows "\<exists>ks. IndexKeys (GetIndexer si) (ClusterIndexName L) n = Ok ks \<and>
    (length ks = 0 \<longleftrightarrow> objects_of L n items = {})"
proof -
  have ix: "indexer_ok (GetIndexer si) items"
    and aware: "GetIndexers (GetIndexer si) (ClusterIndexName L) = Some (ClusterIndexFunc L)"
    and keyed: "well_keyed L items"
    using assms by (auto simp: store_ready_def cluster_aware_def)
  obtain ks where ks: "IndexKeys (GetIndexer si) (ClusterIndexName L) n = Ok ks"
    and mset: "mset ks = mset (map fst (filter (\<lambda>(k, a). files_under (ClusterIndexFunc L) n a) items))"
    using indexer_ok_IndexKeys [OF ix aware] by blast
  have hit: "files_under (ClusterIndexFunc L) n a \<longleftrightarrow>
      (\<exists>ob m. a = Obj ob \<and> ometa ob = Some m \<and> lc_From L m = n)" if "(k, a) \<in> set items" for k a
    using well_keyedD [OF keyed that] files_under_cluster [of a _ L n] by fastforce
  have "length ks = 0 \<longleftrightarrow> (\<forall>(k, a) \<in> set items. \<not> files_under (ClusterIndexFunc L) n a)"
    using arg_cong [OF mset, of size] by (auto simp: filter_empty_conv)
  also have "\<dots> \<longleftrightarrow> objects_of L n items = {}"
    using hit by (fastforce simp: objects_of_def stored_objects_mem split: option.splits)
  finally show ?thesis using ks by blast
qed

lemma delete_check_index:
  assumes "store_ready L si items" and "deleted_object obj = Some m"
  shows "delete_check L (Some (GetIndexer si)) obj s =
    Ok (if objects_of L (lc_From L m) items = {} then Some (lc_From L m) else None, s)"
  using index_empty_iff [OF assms(1), of "lc_From L m"] assms(2)
  by (auto simp: delete_check_def Let_def)

text \<open>
  C22. \<open>DeleteFunc\<close> disengages a cluster exactly when its last object is gone: with the
  informer's store as documented, for a deleted object or a tombstone of cluster \<open>n\<close>, the
  cluster is removed from both maps and its context cancelled if the store has no object of
  \<open>n\<close> left; if it has one, nothing changes.
\<close>

theorem DeleteFunc_last_object:
  assumes "store_ready L si items" and "deleted_object obj = Some m" and "n = lc_From L m"
    and "registry_ok s"
  shows "\<exists>s'. DeleteFunc L (Some (GetIndexer si)) obj s = Ok s' \<and>
    (if objects_of L n items = {}
     then clusters s' = (clusters s)(n := None) \<and> cancelFns s' = (cancelFns s)(n := None) \<and>
          cancelled s' = cancelled s \<union> set_option (cancelFns s n)
     else s' = s)"
proof -
  have "(clusters s)(n := None) = clusters s" "(cancelFns s)(n := None) = cancelFns s"
    if "cancelFns s n = None"
    using that registered_iff [OF assms(4), of n] by (auto simp: fun_eq_iff)
  then show ?thesis
    using delete_check_index [OF assms(1,2), of s] assms(3)
    by (auto simp: DeleteFunc_def delete_commit_cases split: option.split)
qed

definition engaged_state :: provider_state where
  "engaged_state = (start_state sample_provider)\<lparr>next_ctx := 1,
     clusters := [''c1'' \<mapsto> (0, sample_cluster ''c1'')], cancelFns := [''c1'' \<mapsto> 0]\<rparr>"

lemma engaged_state_ok: "registry_ok engaged_state"
  using registry_ok_register(1) [OF sample_start_ok, of "''c1''" "sample_cluster ''c1''"]
  by (simp add: engaged_state_def sample_cluster_def)

definition empty_informer :: shared_informer where
  "empty_informer = \<lparr>inf_id = 3, GetIndexer = snapshot_indexer (cluster_indexers documented_lib) []\<rparr>"

lemma empty_informer_ready: "store_ready documented_lib empty_informer []"
  using cluster_snapshot_ok [of documented_lib "[]"] cluster_aware_snapshot [OF documented_lib_ok]
  by (simp add: store_ready_def empty_informer_def well_keyed_def)

theorem DeleteFunc_last_object_witness:
  "\<exists>s'. DeleteFunc documented_lib (Some (GetIndexer empty_informer))
       (Tombstone ''k'' (Obj (sample_object ''c1'' ''d'' ''cm''))) engaged_state = Ok s' \<and>
     clusters s' = Map.empty \<and> cancelled s' = {0}"
proof -
  have ob: "deleted_object (Tombstone ''k'' (Obj (sample_object ''c1'' ''d'' ''cm''))) =
      Some (sample_meta ''c1'' ''d'' ''cm'')" by simp
  have cl: "''c1'' = lc_From documented_lib (sample_meta ''c1'' ''d'' ''cm'')" by simp
  show ?thesis
    using DeleteFunc_last_object [OF empty_informer_ready ob cl engaged_state_ok]
    by (auto simp: objects_of_def stored_objects_def map_filter_def engaged_state_def)
qed

text \<open>
  Values of an unexpected type (a tombstone without an API object included) never take
  the provider down: neither handler panics on them, whatever the shared informer, and all
  they do is add one entry to the log. (The handlers of the scoped informers panic instead.)
\<close>

lemma handlers_ill_typed:
  "(as_client_Object obj = None \<longrightarrow>
      (\<exists>e. AddFunc L K engage obj s = Ok (s\<lparr>logged := logged s @ [e]\<rparr>))) \<and>
   (deleted_object obj = None \<longrightarrow>
      (\<exists>e. DeleteFunc L shInf obj s = Ok (s\<lparr>logged := logged s @ [e]\<rparr>)))"
  by (auto simp: AddFunc_def DeleteFunc_def delete_check_def log_add_def)

lemma handlers_ill_typed_witness:
  "\<exists>e. DeleteFunc documented_lib None (Tombstone ''k'' (Other ''nil'')) engaged_state =
     Ok (engaged_state\<lparr>logged := logged engaged_state @ [e]\<rparr>)"
  using handlers_ill_typed [of "Tombstone ''k'' (Other ''nil'')" documented_lib sample_cluster_lib
      picky_manager engaged_state None]
  by simp

lemma provider_handler_evolves:
  "registry_ok s \<Longrightarrow> provider_handler L K engage shInf e s = Ok s' \<Longrightarrow> evolves s s'"
  by (cases e) (auto intro: AddFunc_evolves DeleteFunc_evolves evolves_refl)

lemma deliver_evolves:
  "registry_ok s \<Longrightarrow> deliver (provider_handler L K engage shInf) es s = Ok s' \<Longrightarrow> evolves s s'"
proof (induction es arbitrary: s)
  case (Cons e es)
  then obtain s1 where e: "provider_handler L K engage shInf e s = Ok s1"
    and es: "deliver (provider_handler L K engage shInf) es s1 = Ok s'"
    by (auto split: outcome.splits)
  have ev: "evolves s s1" using provider_handler_evolves [OF Cons.prems(1) e] .
  then have "evolves s1 s'" using Cons.IH es by (auto simp: evolves_def)
  with ev show ?case by (rule evolves_trans)
qed (simp add: evolves_refl)

text \<open>
  The registry invariant holds along every sequence of events a single listener
  delivers, whatever the manager answers: as long as no handler panics, both maps agree,
  exactly the registered contexts are live, and every cluster \<open>Get\<close> hands out is the scoped
  cluster of the name asked for, with a live context.
\<close>

lemma provider_registry_invariant:
  assumes "clusters p = Map.empty" and "cancelFns p = Map.empty"
    and "deliver (provider_handler L K engage shInf) es (start_state p) = Ok s"
  shows "registry_ok s \<and>
    (\<forall>n ctx cl. Provider_Get s n = Ok (ctx, cl) \<longrightarrow>
       live s ctx \<and> cancelFns s n = Some ctx \<and> cl_clusterName cl = n \<and>
       sc_clusterName (scopedCluster_GetCache cl) = n)"
proof -
  have ok: "registry_ok s"
    using deliver_evolves [OF start_state_ok [OF assms(1,2)] assms(3)] by (simp add: evolves_def)
  have "live s ctx \<and> cancelFns s n = Some ctx \<and> cl_clusterName cl = n \<and>
      sc_clusterName (scopedCluster_GetCache cl) = n" if "Provider_Get s n = Ok (ctx, cl)" for n ctx cl
  proof -
    have c: "clusters s n = Some (ctx, cl)" using that by (simp add: Provider_Get_def split: option.splits)
    then have "cancelFns s n = Some ctx" using registry_okD(1) [OF ok, of n] by simp
    then show ?thesis
      using registered_live [OF ok] registry_okD(6) [OF ok c] by (simp add: scopedCluster_getters)
  qed
  with ok show ?thesis by blast
qed

definition sample_add :: "string \<Rightarrow> event" where
  "sample_add c = OnAdd (Obj (sample_object c ''d'' ''cm'')) True"

lemma sample_deliver:
  "\<exists>s. deliver (provider_handler documented_lib sample_cluster_lib picky_manager None)
     [sample_add ''c1'', sample_add ''c1'', OnDelete (Other ''nil'')] (start_state sample_provider) = Ok s \<and>
     clusters s = [''c1'' \<mapsto> (0, sample_cluster ''c1'')]"
  using sample_newScopedCluster [OF sample_url_name_ok(1)]
    AddFunc_new [of "Obj (sample_object ''c1'' ''d'' ''cm'')" "sample_meta ''c1'' ''d'' ''cm''" "''c1''"
      documented_lib "start_state sample_provider" sample_cluster_lib picky_manager]
  by (simp add: sample_add_def DeleteFunc_def delete_check_def Let_def engage_fails_def picky_manager_def)
    (simp add: AddFunc_def add_known_def Let_def DeleteFunc_def delete_check_def)

lemma provider_registry_invariant_witness:
  "\<exists>s. Provider_Get s ''c1'' = Ok (0, sample_cluster ''c1'') \<and> live s 0"
proof -
  obtain s where run: "deliver (provider_handler documented_lib sample_cluster_lib picky_manager None)
     [sample_add ''c1'', sample_add ''c1'', OnDelete (Other ''nil'')] (start_state sample_provider) = Ok s"
    and s: "clusters s = [''c1'' \<mapsto> (0, sample_cluster ''c1'')]"
    using sample_deliver by blast
  have "Provider_Get s ''c1'' = Ok (0, sample_cluster ''c1'')" by (simp add: Provider_Get_def s)
  then show ?thesis using provider_registry_invariant [OF _ _ run] by auto
qed

section \<open>Construction and Run\<close>

text \<open>
  \<open>Run\<close>, whose effects are whether the handlers were registered, the cache was started and
  the error group was waited for. The parameters are the tracker \<open>GetInformer\<close> leaves behind
  and the methods of the informer handles. \<open>Run_setup\<close> is the part before the cache is
  started, with its result the index the event handlers read: that of the shared informer
  \<open>getSharedInformer\<close> found, whose flag \<open>found\<close> is dropped, so they may hold a nil informer.
\<close>

record run_result =
  run_error :: "go_error option"
  handlers_registered :: bool
  cache_started :: bool
  group_waited :: bool

definition Run_setup ::
  "kcp_lib \<Rightarrow> 'a cluster_lib_scheme \<Rightarrow> manager \<Rightarrow> (nat \<Rightarrow> provider_state informer) \<Rightarrow> informerTracker \<Rightarrow>
   'b Provider_scheme \<Rightarrow> indexer option outcome" where
  "Run_setup L K engage informers tracker p =
     (case base_GetInformer (wc_Cache (pcache p)) (otype (pobject p)) of
        Panic e \<Rightarrow> Panic e
      | Err err \<Rightarrow> Err (Wrapf ''failed to get logical cluster informer: %w'' [] err)
      | Ok handle \<Rightarrow>
          (case getSharedInformer ((pcache p)\<lparr>wc_tracker := tracker\<rparr>) (otype (pobject p)) (ogvk (pobject p)) of
             Panic e \<Rightarrow> Panic e
           | Err err \<Rightarrow> Err (Wrapf ''failed to get shared informer: %w'' [] err)
           | Ok (shInf, g, sc, found) \<Rightarrow>
               (case AddEventHandler (informers handle)
                       (provider_handler L K engage (map_option GetIndexer shInf)) of
                  Panic e \<Rightarrow> Panic e
                | Err err \<Rightarrow> Err (Wrapf ''failed to add EventHandler: %w'' [] err)
                | Ok registration \<Rightarrow> Ok (map_option GetIndexer shInf))))"

text \<open>What \<open>Run\<close> returns when the cache does not sync in time.\<close>

definition sync_error :: go_error where
  "sync_error = Errorf ''failed to sync wildcard cache'' []"

definition Run ::
  "kcp_lib \<Rightarrow> 'a cluster_lib_scheme \<Rightarrow> manager \<Rightarrow> (nat \<Rightarrow> provider_state informer) \<Rightarrow> informerTracker \<Rightarrow>
   Provider \<Rightarrow> run_result outcome" where
  "Run L K engage informers tracker p =
     (case Run_setup L K engage informers tracker p of
        Panic e \<Rightarrow> Panic e
      | Err err \<Rightarrow> Ok \<lparr>run_error = Some err, handlers_registered = False,
                       cache_started = False, group_waited = False\<rparr>
      | Ok shInf \<Rightarrow>
          if \<not> WaitForCacheSync (wc_Cache (pcache p))
          then Ok \<lparr>run_error = Some sync_error, handlers_registered = True,
                   cache_started = True, group_waited = False\<rparr>
          else Ok \<lparr>run_error = base_Start (wc_Cache (pcache p)), handlers_registered = True,
                   cache_started = True, group_waited = True\<rparr>)"

text \<open>
  \<open>Run\<close> starts the cache only with its handlers in place, reports success only if the
  cache synced and its goroutine ended without an error, and waits for that goroutine in
  every case but one: when the cache does not sync in time \<open>Run\<close> returns an error and leaves
  the cache, and with it the handlers, running.
\<close>

lemma Run_protocol:
  assumes "Run L K engage informers tracker p = Ok r"
  shows "(cache_started r \<longleftrightarrow> handlers_registered r) \<and>
    (run_error r = None \<longleftrightarrow>
       handlers_registered r \<and> group_waited r \<and> base_Start (wc_Cache (pcache p)) = None) \<and>
    (cache_started r \<and> \<not> group_waited r \<longleftrightarrow>
       handlers_registered r \<and> \<not> WaitForCacheSync (wc_Cache (pcache p))) \<and>
    (group_waited r \<longrightarrow> run_error r = base_Start (wc_Cache (pcache p)))"
  using assms by (auto simp: Run_def split: outcome.splits if_splits)

definition slow_provider :: Provider where
  "slow_provider = sample_provider\<lparr>pcache := sample_wildcard\<lparr>wc_Cache := sample_base\<lparr>WaitForCacheSync := False\<rparr>\<rparr>\<rparr>"

definition sample_informers :: "nat \<Rightarrow> provider_state informer" where
  "sample_informers i =
     \<lparr>AddEventHandler = (\<lambda>h. Ok 0), AddEventHandlerWithResyncPeriod = (\<lambda>h period. Ok 0)\<rparr>"

lemma Run_setup_start_state [simp]:
  "Run_setup L K engage informers tracker (start_state p) = Run_setup L K engage informers tracker p"
  by (simp add: Run_setup_def start_state_def Provider.defs cong: outcome.case_cong)

lemma sample_Run_setup:
  "Run_setup documented_lib sample_cluster_lib picky_manager sample_informers empty_tracker sample_provider = Ok None"
  "Run_setup documented_lib sample_cluster_lib picky_manager sample_informers empty_tracker slow_provider = Ok None"
  by (simp_all add: Run_setup_def slow_provider_def sample_informers_def sample_provider_def
      sample_wildcard_defs sample_base_def getSharedInformer_def Let_def configmap_gvk_def read_map_def
      empty_tracker_def)

lemma Run_protocol_witness:
  "\<exists>r. Run documented_lib sample_cluster_lib picky_manager sample_informers empty_tracker slow_provider = Ok r \<and>
     run_error r \<noteq> None \<and> cache_started r \<and> \<not> group_waited r"
proof -
  have slow: "\<not> WaitForCacheSync (wc_Cache (pcache slow_provider))" by (simp add: slow_provider_def)
  then obtain r where r: "Run documented_lib sample_cluster_lib picky_manager sample_informers empty_tracker
      slow_provider = Ok r" "handlers_registered r"
    by (simp add: Run_def sample_Run_setup)
  then show ?thesis using Run_protocol [OF r(1)] slow by auto
qed

lemma New_Ok:
  "New K cfg obj options = Ok p \<Longrightarrow>
     config p = cfg \<and> pobject p = obj \<and> clusters p = Map.empty \<and> cancelFns p = Map.empty \<and>
     pscheme p = (case opts_Scheme options of None \<Rightarrow> default_Scheme K | Some s \<Rightarrow> s) \<and>
     (case opts_WildcardCache options of
        Some cache \<Rightarrow> pcache p = cache
      | None \<Rightarrow> NewWildcardCache (ctor_lib.truncate K) cfg
          \<lparr>opt_Scheme = Some (pscheme p), opt_HTTPClient = None, opt_Mapper = None, opt_NewInformer = None\<rparr> = Ok (pcache p))"
  by (auto simp: New_def Let_def split: option.splits outcome.splits)

text \<open>
  \<open>New\<close> starts with an empty registry and the defaulted options: the given scheme or the
  client-go one, and the given wildcard cache or the one \<open>NewWildcardCache\<close> makes for the
  configuration with that scheme, its tracker empty; \<open>Get\<close> finds no cluster yet.
\<close>

lemma New_starts_empty:
  assumes "New K cfg obj options = Ok p"
  shows "config p = cfg \<and> (\<forall>n. Provider_Get p n = Err (Errorf ''cluster %q not found'' [n])) \<and>
    pscheme p = (case opts_Scheme options of None \<Rightarrow> default_Scheme K | Some s \<Rightarrow> s) \<and>
    (case opts_WildcardCache options of
       Some cache \<Rightarrow> GetWildcard p = cache
     | None \<Rightarrow> NewWildcardCache (ctor_lib.truncate K) cfg
           \<lparr>opt_Scheme = Some (pscheme p), opt_HTTPClient = None, opt_Mapper = None, opt_NewInformer = None\<rparr> =
           Ok (GetWildcard p) \<and>
         wc_scheme (GetWildcard p) = pscheme p \<and> wc_tracker (GetWildcard p) = empty_tracker)"
  using New_Ok [OF assms]
  by (auto simp: Provider_Get_def GetWildcard_def NewWildcardCache_fields split: option.splits)

lemma New_starts_empty_witness:
  "\<exists>p. New sample_cluster_lib sample_url_config (sample_object '''' '''' '''')
       \<lparr>opts_Scheme = None, opts_WildcardCache = None\<rparr> = Ok p \<and>
     Provider_Get p ''c1'' = Err (Errorf ''cluster %q not found'' [''c1''])"
proof -
  have "\<exists>p. New sample_cluster_lib sample_url_config (sample_object '''' '''' '''')
      \<lparr>opts_Scheme = None, opts_WildcardCache = None\<rparr> = Ok p"
    by (simp add: New_def Let_def NewWildcardCache_def default_HTTPClient_def default_Mapper_def
        sample_cluster_lib_def ctor_lib.defs)
  then show ?thesis using New_starts_empty by blast
qed

end
