(* ===== verification/Provider_Concurrent.thy ===== *)
theory Provider_Concurrent
  imports Provider
begin

text \<open>
  The handlers of the provider as threads. Each critical section of \<open>provider.go\<close> (the code
  between a \<open>Lock\<close> and its \<open>Unlock\<close>), each read of the informer's index and each call of
  \<open>mgr.Engage\<close> is one step; between two steps of a handler any step of any other may happen.
  \<open>Provider_Locks\<close> shows that the mutex makes these sections atomic.
\<close>

section \<open>Threads\<close>

datatype thread =
    Add_Start any
  | Add_Slow string
  | Add_Engage string "nat \<times> scopedCluster"
  | Add_Fail string "nat \<times> scopedCluster"
  | Del_Start any
  | Del_Commit string
  | Finished

text \<open>One step of a handler, from its program point to the next.\<close>

fun run_thread ::
  "kcp_lib \<Rightarrow> 'a cluster_lib_scheme \<Rightarrow> manager \<Rightarrow> indexer option \<Rightarrow> thread \<Rightarrow> provider_state \<Rightarrow>
   (thread \<times> provider_state) outcome" where
  "run_thread L K engage shInf (Add_Start obj) s =
     (case as_client_Object obj of
        None \<Rightarrow> Ok (Finished, log_add (LogError ''unexpected object type'' None (any_type_name obj)) s)
      | Some cobj \<Rightarrow>
          Ok (if add_known (lc_From L cobj) s then Finished else Add_Slow (lc_From L cobj), s))"
| "run_thread L K engage shInf (Add_Slow n) s =
     (case add_slow L K n s of
        Panic p \<Rightarrow> Panic p
      | Err err \<Rightarrow> Err err
      | Ok (r, s) \<Rightarrow> Ok (case r of None \<Rightarrow> Finished | Some cl \<Rightarrow> Add_Engage n cl, s))"
| "run_thread L K engage shInf (Add_Engage n cl) s =
     Ok (if engage_fails engage n cl then Add_Fail n cl else Finished, add_engage engage n cl s)"
| "run_thread L K engage shInf (Add_Fail n cl) s = Ok (Finished, add_undo n cl s)"
| "run_thread L K engage shInf (Del_Start obj) s =
     (case delete_check L shInf obj s of
        Panic p \<Rightarrow> Panic p
      | Err err \<Rightarrow> Err err
      | Ok (r, s) \<Rightarrow> Ok (case r of None \<Rightarrow> Finished | Some n \<Rightarrow> Del_Commit n, s))"
| "run_thread L K engage shInf (Del_Commit n) s = Ok (Finished, delete_commit n s)"
| "run_thread L K engage shInf Finished s = Ok (Finished, s)"

text \<open>A thread run on its own, with fuel for its steps.\<close>

fun run_alone ::
  "kcp_lib \<Rightarrow> 'a cluster_lib_scheme \<Rightarrow> manager \<Rightarrow> indexer option \<Rightarrow> nat \<Rightarrow> thread \<Rightarrow> provider_state \<Rightarrow>
   provider_state outcome option" where
  "run_alone L K engage shInf n Finished s = Some (Ok s)"
| "run_alone L K engage shInf 0 t s = None"
| "run_alone L K engage shInf (Suc n) t s =
     (case run_thread L K engage shInf t s of
        Panic p \<Rightarrow> Some (Panic p)
      | Err err \<Rightarrow> Some (Err err)
      | Ok (t', s') \<Rightarrow> run_alone L K engage shInf n t' s')"

lemma run_alone_add:
  "run_alone L K engage shInf 4 (Add_Start obj) s = Some (AddFunc L K engage obj s)"
proof -
  have four: "(4 :: nat) = Suc (Suc (Suc (Suc 0)))" by simp
  show ?thesis
  proof (cases "as_client_Object obj")
    case None
    then show ?thesis by (simp add: four AddFunc_def)
  next
    case (Some m)
    then show ?thesis
      by (cases "add_slow L K (lc_From L m) s")
        (auto simp: four AddFunc_def Let_def split: option.split)
  qed
qed

lemma run_alone_delete:
  "run_alone L K engage shInf 4 (Del_Start obj) s = Some (DeleteFunc L shInf obj s)"
proof -
  have four: "(4 :: nat) = Suc (Suc (Suc (Suc 0)))" by simp
  show ?thesis by (auto simp: four DeleteFunc_def split: outcome.split option.split)
qed

text \<open>
  The threads are the handlers: run without interruption, an add thread computes exactly
  \<open>AddFunc\<close> and a delete thread exactly \<open>DeleteFunc\<close>, panics included, and both end within
  four steps.
\<close>

lemma threads_are_handlers:
  "run_alone L K engage shInf 4 (Add_Start obj) s = Some (AddFunc L K engage obj s) \<and>
   run_alone L K engage shInf 4 (Del_Start obj) s = Some (DeleteFunc L shInf obj s)"
  by (simp add: run_alone_add run_alone_delete)

section \<open>Interleavings\<close>

text \<open>
  A state of the system is the provider's and the threads started so far. At any time a new
  handler may start, and any thread may take its next step; the informer's index it sees is
  arbitrary, since the store changes independently of the handlers.
\<close>

record system =
  sys_state :: provider_state
  sys_threads :: "thread list"

inductive sys_step :: "kcp_lib \<Rightarrow> 'a cluster_lib_scheme \<Rightarrow> manager \<Rightarrow> system \<Rightarrow> system \<Rightarrow> bool"
  for L :: kcp_lib and K :: "'a cluster_lib_scheme" and engage :: manager where
  start_add: "sys_step L K engage \<sigma> (\<sigma>\<lparr>sys_threads := sys_threads \<sigma> @ [Add_Start obj]\<rparr>)"
| start_delete: "sys_step L K engage \<sigma> (\<sigma>\<lparr>sys_threads := sys_threads \<sigma> @ [Del_Start obj]\<rparr>)"
| thread_step: "i < length (sys_threads \<sigma>) \<Longrightarrow>
    run_thread L K engage shInf (sys_threads \<sigma> ! i) (sys_state \<sigma>) = Ok (t, s) \<Longrightarrow>
    sys_step L K engage \<sigma> \<lparr>sys_state = s, sys_threads = (sys_threads \<sigma>)[i := t]\<rparr>"

definition sys_init :: "Provider \<Rightarrow> system \<Rightarrow> bool" where
  "sys_init p \<sigma> \<longleftrightarrow> clusters p = Map.empty \<and> cancelFns p = Map.empty \<and>
     \<sigma> = \<lparr>sys_state = start_state p, sys_threads = []\<rparr>"

section \<open>Invariants under all interleavings\<close>

text \<open>
  A thread that holds a context owns it. A registered cluster is engaged and was accepted by
  the manager, or the thread that registered it is still about to engage or undo it.
\<close>

fun thread_ok :: "provider_state \<Rightarrow> thread \<Rightarrow> bool" where
  "thread_ok s (Add_Engage n cl) = owned s n (fst cl)"
| "thread_ok s (Add_Fail n cl) = owned s n (fst cl)"
| "thread_ok s _ = True"

definition accepted :: "manager \<Rightarrow> provider_state \<Rightarrow> string \<Rightarrow> nat \<times> scopedCluster \<Rightarrow> bool" where
  "accepted engage s n cl \<longleftrightarrow> (fst cl, n) \<in> set (engaged s) \<and> \<not> engage_fails engage n cl"

definition registrations_ok :: "manager \<Rightarrow> provider_state \<Rightarrow> thread list \<Rightarrow> bool" where
  "registrations_ok engage s ts \<longleftrightarrow>
     (\<forall>n cl. clusters s n = Some cl \<longrightarrow>
        accepted engage s n cl \<or> Add_Engage n cl \<in> set ts \<or> Add_Fail n cl \<in> set ts)"

definition sys_inv :: "manager \<Rightarrow> system \<Rightarrow> bool" where
  "sys_inv engage \<sigma> \<longleftrightarrow>
     registry_ok (sys_state \<sigma>) \<and> (\<forall>t \<in> set (sys_threads \<sigma>). thread_ok (sys_state \<sigma>) t) \<and>
     registrations_ok engage (sys_state \<sigma>) (sys_threads \<sigma>)"

lemma thread_ok_evolves: "evolves s s' \<Longrightarrow> thread_ok s t \<Longrightarrow> thread_ok s' t"
  by (cases t) (auto simp: evolves_def)

lemma run_thread_evolves:
  assumes "registry_ok s" and "thread_ok s t" and "run_thread L K engage shInf t s = Ok (t', s')"
  shows "evolves s s' \<and> thread_ok s' t'"
proof (cases t)
  case (Add_Start obj)
  then show ?thesis using assms by (auto simp: evolves_refl split: option.splits)
next
  case (Add_Slow n)
  then obtain r where slow: "add_slow L K n s = Ok (r, s')"
    and t': "t' = (case r of None \<Rightarrow> Finished | Some cl \<Rightarrow> Add_Engage n cl)"
    using assms(3) by (auto split: outcome.splits)
  show ?thesis using add_slow_evolves [OF assms(1) slow] by (auto simp: t' split: option.split)
next
  case (Add_Engage n cl)
  then show ?thesis using assms add_engage_evolves [of s n cl engage] by auto
next
  case (Add_Fail n cl)
  then show ?thesis using assms add_undo_evolves [of s n cl] by auto
next
  case (Del_Start obj)
  then show ?thesis
    using assms by (auto dest: delete_check_evolves split: outcome.splits option.split)
next
  case (Del_Commit n)
  then show ?thesis using assms delete_commit_evolves by auto
next
  case Finished
  then show ?thesis using assms by (simp add: evolves_refl)
qed

lemma set_list_update: "x \<in> set xs \<Longrightarrow> x = xs ! i \<or> x \<in> set (xs[i := y])"
  by (metis in_set_conv_nth length_list_update nth_list_update_neq)

lemma set_update_in: "i < length xs \<Longrightarrow> y \<in> set (xs[i := y])"
  by (simp add: set_update_memI)

text \<open>
  What a step does to the registered clusters: those that stay keep their acceptance, and a
  new one, or one whose thread moves on, is accounted for by the thread's next point.
\<close>

lemma run_thread_registrations:
  assumes ok: "registry_ok s" and run: "run_thread L K engage shInf t s = Ok (t', s')"
    and reg: "clusters s' n = Some cl"
  shows "clusters s n = Some cl \<and> (accepted engage s n cl \<longrightarrow> accepted engage s' n cl) \<and>
      (t \<noteq> Add_Engage n cl \<and> t \<noteq> Add_Fail n cl \<or> accepted engage s' n cl \<or> t' = Add_Fail n cl) \<or>
    t' = Add_Engage n cl"
proof (cases t)
  case (Add_Start obj)
  then show ?thesis using run reg by (auto simp: accepted_def split: option.splits)
next
  case (Add_Slow m)
  then obtain r where slow: "add_slow L K m s = Ok (r, s')"
    and t': "t' = (case r of None \<Rightarrow> Finished | Some cl \<Rightarrow> Add_Engage m cl)"
    using run by (auto split: outcome.splits)
  show ?thesis
  proof (cases "clusters s m")
    case None
    then show ?thesis
      using slow reg
      by (auto simp: add_slow_cases accepted_def t' Add_Slow split: outcome.splits if_splits)
  next
    case (Some c)
    then show ?thesis using slow reg by (simp add: add_slow_def Add_Slow)
  qed
next
  case (Add_Engage m c)
  then show ?thesis using run reg by (auto simp: accepted_def)
next
  case (Add_Fail m c)
  then have s': "s' = add_undo m c s" using run by simp
  have "cl \<noteq> c \<or> n \<noteq> m" using reg by (cases c) (auto simp: s' add_undo_def Let_def split: if_splits)
  then show ?thesis
    using reg Add_Fail by (auto simp: s' add_undo_def Let_def accepted_def split: if_splits)
next
  case (Del_Start obj)
  then show ?thesis
    using run reg
    by (auto simp: accepted_def delete_check_def Let_def split: outcome.splits option.splits)
next
  case (Del_Commit m)
  then show ?thesis
    using run reg by (auto simp: delete_commit_cases accepted_def split: option.splits if_splits)
next
  case Finished
  then show ?thesis using run reg by simp
qed

lemma registrations_step:
  assumes ok: "registry_ok (sys_state \<sigma>)" and old: "registrations_ok engage (sys_state \<sigma>) (sys_threads \<sigma>)"
    and i: "i < length (sys_threads \<sigma>)"
    and run: "run_thread L K engage shInf (sys_threads \<sigma> ! i) (sys_state \<sigma>) = Ok (t, s)"
  shows "registrations_ok engage s ((sys_threads \<sigma>)[i := t])"
  unfolding registrations_ok_def
proof (intro allI impI)
  fix n cl assume reg: "clusters s n = Some cl"
  let ?ts = "sys_threads \<sigma>"
  have t: "t \<in> set (?ts[i := t])" using i by (rule set_update_in)
  show "accepted engage s n cl \<or> Add_Engage n cl \<in> set (?ts[i := t]) \<or> Add_Fail n cl \<in> set (?ts[i := t])"
    using run_thread_registrations [OF ok run reg]
  proof
    assume "t = Add_Engage n cl"
    then show ?thesis using t by simp
  next
    assume a: "clusters (sys_state \<sigma>) n = Some cl \<and>
      (accepted engage (sys_state \<sigma>) n cl \<longrightarrow> accepted engage s n cl) \<and>
      (?ts ! i \<noteq> Add_Engage n cl \<and> ?ts ! i \<noteq> Add_Fail n cl \<or> accepted engage s n cl \<or> t = Add_Fail n cl)"
    then have "accepted engage (sys_state \<sigma>) n cl \<or> Add_Engage n cl \<in> set ?ts \<or> Add_Fail n cl \<in> set ?ts"
      using old unfolding registrations_ok_def by blast
    then show ?thesis
      using a t set_list_update [of "Add_Engage n cl" ?ts i t] set_list_update [of "Add_Fail n cl" ?ts i t]
      by metis
  qed
qed

interpretation conc: invariant_system "sys_init p" "sys_step L K engage" "sys_inv engage"
  for p L and K :: "'a cluster_lib_scheme" and engage
proof
  fix \<sigma> assume "sys_init p \<sigma>"
  then show "sys_inv engage \<sigma>"
    by (auto simp: sys_init_def sys_inv_def registrations_ok_def start_state_ok)
next
  fix \<sigma> \<sigma>' assume inv: "sys_inv engage \<sigma>" and step: "sys_step L K engage \<sigma> \<sigma>'"
  from step show "sys_inv engage \<sigma>'"
  proof cases
    case (thread_step i shInf t s)
    let ?ts = "sys_threads \<sigma>"
    have ok: "registry_ok (sys_state \<sigma>)" and ts: "\<forall>t \<in> set ?ts. thread_ok (sys_state \<sigma>) t"
      using inv by (auto simp: sys_inv_def)
    have ev: "evolves (sys_state \<sigma>) s" and t: "thread_ok s t"
      using run_thread_evolves [OF ok _ thread_step(3)] ts thread_step(2) by auto
    have "thread_ok s u" if "u \<in> set (?ts[i := t])" for u
      using that set_update_subset_insert [of ?ts i t] ts t thread_ok_evolves [OF ev] by blast
    then show ?thesis
      using registrations_step [OF ok _ thread_step(2,3)] inv ev
      by (auto simp: sys_inv_def thread_step(1) evolves_def)
  qed (use inv in \<open>auto simp: sys_inv_def registrations_ok_def\<close>)
qed

text \<open>
  What the provider was made with does not change, and every registered cluster is the one
  \<open>newScopedCluster\<close> makes from it.
\<close>

definition same_setup :: "'a Provider_scheme \<Rightarrow> 'b Provider_scheme \<Rightarrow> bool" where
  "same_setup s p \<longleftrightarrow> config s = config p \<and> pscheme s = pscheme p \<and> pcache s = pcache p"

definition made_by :: "kcp_lib \<Rightarrow> 'a cluster_lib_scheme \<Rightarrow> Provider \<Rightarrow> system \<Rightarrow> bool" where
  "made_by L K p \<sigma> \<longleftrightarrow> same_setup (sys_state \<sigma>) p \<and>
     (\<forall>n ctx cl. clusters (sys_state \<sigma>) n = Some (ctx, cl) \<longrightarrow>
        newScopedCluster L K (config p) n (pcache p) (pscheme p) = Ok cl)"

lemma add_slow_made:
  assumes "add_slow L K m s = Ok (r, s')"
  shows "same_setup s' s \<and> (clusters s' n = Some (ctx, cl) \<longrightarrow>
    clusters s n = Some (ctx, cl) \<or> newScopedCluster L K (config s) n (pcache s) (pscheme s) = Ok cl)"
proof (cases "clusters s m")
  case None
  then show ?thesis
    using assms by (auto simp: add_slow_cases same_setup_def split: outcome.splits if_splits)
next
  case (Some c)
  then show ?thesis using assms by (simp add: add_slow_def same_setup_def)
qed

lemma run_thread_made:
  assumes "run_thread L K engage shInf t s = Ok (t', s')"
  shows "same_setup s' s \<and> (clusters s' n = Some (ctx, cl) \<longrightarrow>
    clusters s n = Some (ctx, cl) \<or> newScopedCluster L K (config s) n (pcache s) (pscheme s) = Ok cl)"
proof (cases t)
  case (Add_Slow m)
  then obtain r where "add_slow L K m s = Ok (r, s')" using assms by (auto split: outcome.splits)
  then show ?thesis by (rule add_slow_made)
next
  case (Del_Commit m)
  then show ?thesis
    using assms by (auto simp: delete_commit_cases same_setup_def split: option.splits if_splits)
next
  case (Add_Fail m c)
  then show ?thesis
    using assms by (auto simp: add_undo_def Let_def same_setup_def split: if_splits)
next
  case (Add_Engage m c)
  then show ?thesis
    using assms by (auto simp: same_setup_def add_engage_def Let_def log_add_def split: option.splits)
qed (use assms in \<open>auto simp: same_setup_def delete_check_def Let_def split: option.splits outcome.splits\<close>)

interpretation made: invariant_system "sys_init p" "sys_step L K engage" "made_by L K p"
  for p L and K :: "'a cluster_lib_scheme" and engage
proof
  fix \<sigma> assume "sys_init p \<sigma>"
  then show "made_by L K p \<sigma>"
    by (auto simp: sys_init_def made_by_def same_setup_def)
next
  fix \<sigma> \<sigma>' assume inv: "made_by L K p \<sigma>" and step: "sys_step L K engage \<sigma> \<sigma>'"
  from step show "made_by L K p \<sigma>'"
  proof cases
    case (thread_step i shInf t s)
    note made = run_thread_made [OF thread_step(3)]
    show ?thesis using inv made by (fastforce simp: made_by_def same_setup_def thread_step(1))
  qed (use inv in \<open>simp_all add: made_by_def same_setup_def\<close>)
qed

text \<open>The client of a registered cluster is made for the cluster's endpoint below the provider's URL.\<close>

lemma cluster_client:
  assumes url: "endpoint_ok sch authority es"
      "Host (config p) = endpoint sch authority es \<or> Host (config p) = endpoint sch authority es @ [slash]"
    and name: "url_name_ok n" "request_path_ok L n"
    and reach: "reachable (sys_init p) (sys_step L K engage) \<sigma>"
    and reg: "clusters (sys_state \<sigma>) n = Some (ctx, cl)"
  shows "client_New K ((config p)\<lparr>Host := endpoint sch authority es @ ''/clusters/'' @ n\<rparr>) (pscheme p) None =
    Ok (scopedCluster_GetClient cl)"
proof -
  have "made_by L K p \<sigma>" using made.inv_reachable [OF reach] .
  then have "newScopedCluster L K (config p) n (pcache p) (pscheme p) = Ok cl"
    using reg by (simp add: made_by_def)
  then show ?thesis
    using JoinPath_cluster [OF url(1) name url(2), of "JoinPath_escaped K"]
    by (auto simp: newScopedCluster_Ok scopedCluster_getters endpoint_def)
qed

lemma provider_cluster_client:
  assumes new: "New K cfg obj options = Ok p"
    and url: "endpoint_ok sch authority es"
      "Host cfg = endpoint sch authority es \<or> Host cfg = endpoint sch authority es @ [slash]"
    and name: "url_name_ok n" "request_path_ok L n"
    and reach: "reachable (sys_init p) (sys_step L K engage) \<sigma>"
    and reg: "clusters (sys_state \<sigma>) n = Some (ctx, cl)"
  shows "client_New K (cfg\<lparr>Host := endpoint sch authority es @ ''/clusters/'' @ n\<rparr>)
    (case opts_Scheme options of None \<Rightarrow> default_Scheme K | Some s \<Rightarrow> s) None = Ok (scopedCluster_GetClient cl)"
  using cluster_client [OF url(1) _ name reach reg] url(2) New_Ok [OF new] by auto

section \<open>Schedules\<close>

text \<open>The step relation as a function: a schedule says which step happens next.\<close>

datatype move = StartAdd any | StartDelete any | StepThread nat "indexer option"

fun run_schedule ::
  "kcp_lib \<Rightarrow> 'a cluster_lib_scheme \<Rightarrow> manager \<Rightarrow> move list \<Rightarrow> system \<Rightarrow> system option" where
  "run_schedule L K engage [] \<sigma> = Some \<sigma>"
| "run_schedule L K engage (StartAdd obj # ms) \<sigma> =
     run_schedule L K engage ms (\<sigma>\<lparr>sys_threads := sys_threads \<sigma> @ [Add_Start obj]\<rparr>)"
| "run_schedule L K engage (StartDelete obj # ms) \<sigma> =
     run_schedule L K engage ms (\<sigma>\<lparr>sys_threads := sys_threads \<sigma> @ [Del_Start obj]\<rparr>)"
| "run_schedule L K engage (StepThread i shInf # ms) \<sigma> =
     (if i < length (sys_threads \<sigma>)
      then (case run_thread L K engage shInf (sys_threads \<sigma> ! i) (sys_state \<sigma>) of
              Ok (t, s) \<Rightarrow>
                run_schedule L K engage ms \<lparr>sys_state = s, sys_threads = (sys_threads \<sigma>)[i := t]\<rparr>
            | _ \<Rightarrow> None)
      else None)"

lemma run_schedule_steps: "run_schedule L K engage ms \<sigma> = Some \<sigma>' \<Longrightarrow> (sys_step L K engage)\<^sup>*\<^sup>* \<sigma> \<sigma>'"
proof (induction ms arbitrary: \<sigma>)
  case (Cons m ms)
  show ?case
  proof (cases m)
    case (StepThread i shInf)
    then obtain t s where i: "i < length (sys_threads \<sigma>)"
      and run: "run_thread L K engage shInf (sys_threads \<sigma> ! i) (sys_state \<sigma>) = Ok (t, s)"
      and rest: "run_schedule L K engage ms \<lparr>sys_state = s, sys_threads = (sys_threads \<sigma>)[i := t]\<rparr> = Some \<sigma>'"
      using Cons.prems by (auto split: if_splits outcome.splits)
    show ?thesis using thread_step [OF i run] Cons.IH [OF rest] by (rule converse_rtranclp_into_rtranclp)
  qed (use Cons in \<open>auto intro: converse_rtranclp_into_rtranclp start_add start_delete\<close>)
qed simp

lemma run_schedule_reachable:
  "sys_init p \<sigma> \<Longrightarrow> run_schedule L K engage ms \<sigma> = Some \<sigma>' \<Longrightarrow>
   reachable (sys_init p) (sys_step L K engage) \<sigma>'"
  by (rule reachable_steps [OF reachable_init run_schedule_steps])

text \<open>A handler that runs from beginning to end without another step in between.\<close>

lemma run_alone_steps:
  assumes "run_alone L K engage shInf k t s = Some (Ok s')" and "i < length ts" and "ts ! i = t"
  shows "(sys_step L K engage)\<^sup>*\<^sup>* \<lparr>sys_state = s, sys_threads = ts\<rparr> \<lparr>sys_state = s', sys_threads = ts[i := Finished]\<rparr>"
  using assms
proof (induction k arbitrary: t s ts)
  case 0
  then have "t = Finished \<and> s' = s" by (cases t) auto
  with 0 show ?case by (metis list_update_id rtranclp.rtrancl_refl)
next
  case (Suc k)
  show ?case
  proof (cases "t = Finished")
    case True
    then show ?thesis using Suc.prems by (metis list_update_id outcome.inject(1) option.inject
        rtranclp.rtrancl_refl run_alone.simps(1))
  next
    case False
    then obtain t1 s1 where run: "run_thread L K engage shInf t s = Ok (t1, s1)"
      and rest: "run_alone L K engage shInf k t1 s1 = Some (Ok s')"
      using Suc.prems(1) by (cases t) (auto split: outcome.splits prod.splits)
    have "sys_step L K engage \<lparr>sys_state = s, sys_threads = ts\<rparr> \<lparr>sys_state = s1, sys_threads = ts[i := t1]\<rparr>"
      using thread_step [of i "\<lparr>sys_state = s, sys_threads = ts\<rparr>" L K engage shInf t1 s1] run Suc.prems(2,3)
      by simp
    moreover have "(sys_step L K engage)\<^sup>*\<^sup>* \<lparr>sys_state = s1, sys_threads = ts[i := t1]\<rparr>
        \<lparr>sys_state = s', sys_threads = ts[i := Finished]\<rparr>"
      using Suc.IH [OF rest, of "ts[i := t1]"] Suc.prems(2) by simp
    ultimately show ?thesis by (rule converse_rtranclp_into_rtranclp)
  qed
qed

lemma AddFunc_steps:
  assumes "AddFunc L K engage obj (sys_state \<sigma>) = Ok s"
  shows "(sys_step L K engage)\<^sup>*\<^sup>* \<sigma> \<lparr>sys_state = s, sys_threads = sys_threads \<sigma> @ [Finished]\<rparr>"
proof -
  let ?ts = "sys_threads \<sigma> @ [Add_Start obj]"
  have "sys_step L K engage \<sigma> (\<sigma>\<lparr>sys_threads := ?ts\<rparr>)" by (rule start_add)
  moreover have "(sys_step L K engage)\<^sup>*\<^sup>* \<lparr>sys_state = sys_state \<sigma>, sys_threads = ?ts\<rparr>
      \<lparr>sys_state = s, sys_threads = ?ts[length (sys_threads \<sigma>) := Finished]\<rparr>"
    using run_alone_steps [where i = "length (sys_threads \<sigma>)"] run_alone_add [of L K engage None obj] assms
    by (metis length_append_singleton lessI nth_append_length)
  moreover have "\<lparr>sys_state = sys_state \<sigma>, sys_threads = ?ts\<rparr> = \<sigma>\<lparr>sys_threads := ?ts\<rparr>" by simp
  ultimately show ?thesis by (metis converse_rtranclp_into_rtranclp list_update_length)
qed

text \<open>
  A schedule for the witnesses: two add handlers for one cluster pass the fast path together,
  both take the slow path, and the one that came first engages the cluster.
\<close>

definition race :: "move list" where
  "race = [StartAdd (Obj (sample_object ''c1'' ''d'' ''a'')), StartAdd (Obj (sample_object ''c1'' ''d'' ''b'')),
     StepThread 0 None, StepThread 1 None, StepThread 1 None, StepThread 0 None, StepThread 1 None]"

definition race_start :: system where
  "race_start = \<lparr>sys_state = start_state sample_provider, sys_threads = []\<rparr>"

definition race_end :: system where
  "race_end = \<lparr>sys_state = engaged_state\<lparr>engaged := [(0, ''c1'')], logged := [LogInfo ''engaging cluster'' ''c1'']\<rparr>,
     sys_threads = [Finished, Finished]\<rparr>"

lemma race_init: "sys_init sample_provider race_start"
  by (simp add: sys_init_def race_start_def)

lemma race_runs: "run_schedule documented_lib sample_cluster_lib picky_manager race race_start = Some race_end"
proof -
  have slow: "add_slow documented_lib sample_cluster_lib ''c1'' (start_state sample_provider) =
      Ok (Some (0, sample_cluster ''c1''), engaged_state)"
    using sample_newScopedCluster [OF sample_url_name_ok(1)]
    by (simp add: add_slow_cases engaged_state_def)
  have again: "add_slow documented_lib sample_cluster_lib ''c1'' engaged_state = Ok (None, engaged_state)"
    by (simp add: add_slow_def engaged_state_def)
  show ?thesis
    by (simp add: race_def race_start_def race_end_def slow again add_known_def engage_fails_def
        add_engage_def log_add_def picky_manager_def)
      (simp add: engaged_state_def start_state_def)
qed

lemma race_reachable: "reachable (sys_init sample_provider)
    (sys_step documented_lib sample_cluster_lib picky_manager) race_end"
  by (rule run_schedule_reachable [OF race_init race_runs])

section \<open>Properties of every reachable state\<close>

text \<open>
  C4. Concurrency safety. In every state reachable by any interleaving of any number of add
  and delete handlers, whatever the manager answers: the two maps of the provider have the
  same clusters with matching contexts; a context was created and not cancelled exactly if
  it is registered, so no context leaks and no registered one is dead; and no context is
  registered twice.
\<close>

theorem concurrent_registry:
  assumes "reachable (sys_init p) (sys_step L K engage) \<sigma>"
  shows "(\<forall>n. map_option fst (clusters (sys_state \<sigma>) n) = cancelFns (sys_state \<sigma>) n) \<and>
    (\<forall>ctx. ctx < next_ctx (sys_state \<sigma>) \<and> ctx \<notin> cancelled (sys_state \<sigma>) \<longleftrightarrow>
       (\<exists>n. cancelFns (sys_state \<sigma>) n = Some ctx)) \<and>
    (\<forall>m n ctx. cancelFns (sys_state \<sigma>) m = Some ctx \<and> cancelFns (sys_state \<sigma>) n = Some ctx \<longrightarrow> m = n)"
proof -
  have ok: "registry_ok (sys_state \<sigma>)"
    using conc.inv_reachable [OF assms] by (simp add: sys_inv_def)
  show ?thesis
    using registry_okD(1-3) [OF ok] by (auto simp: live_def)
qed

theorem concurrent_registry_witness:
  "\<exists>n. cancelFns (sys_state race_end) n = Some 0"
proof -
  have "0 < next_ctx (sys_state race_end)" "0 \<notin> cancelled (sys_state race_end)"
    by (simp_all add: race_end_def engaged_state_def)
  then show ?thesis using concurrent_registry [OF race_reachable] by blast
qed

text \<open>
  C16. The manager never runs two live engagements of one cluster: of all the calls of
  \<open>mgr.Engage\<close> made for a name, in any interleaving, at most one has a context that is not
  cancelled, and that one is the cluster \<open>Get\<close> returns for the name.
\<close>

theorem one_live_engagement:
  assumes "reachable (sys_init p) (sys_step L K engage) \<sigma>"
    and "(ctx, n) \<in> set (engaged (sys_state \<sigma>))" and "ctx \<notin> cancelled (sys_state \<sigma>)"
  shows "(\<exists>cl. Provider_Get (sys_state \<sigma>) n = Ok (ctx, cl) \<and> cl_clusterName cl = n) \<and>
    (\<forall>ctx'. (ctx', n) \<in> set (engaged (sys_state \<sigma>)) \<and> ctx' \<notin> cancelled (sys_state \<sigma>) \<longrightarrow> ctx' = ctx)"
proof -
  have ok: "registry_ok (sys_state \<sigma>)"
    using conc.inv_reachable [OF assms(1)] by (simp add: sys_inv_def)
  have reg: "cancelFns (sys_state \<sigma>) n = Some c"
    if "(c, n) \<in> set (engaged (sys_state \<sigma>))" "c \<notin> cancelled (sys_state \<sigma>)" for c
    using registry_okD(5) [OF ok that(1)] that(2) by (simp add: owned_def)
  have here: "cancelFns (sys_state \<sigma>) n = Some ctx" using reg assms(2,3) .
  then obtain cl where cl: "clusters (sys_state \<sigma>) n = Some (ctx, cl)"
    using registry_okD(1) [OF ok, of n] by auto
  have "c = ctx" if "(c, n) \<in> set (engaged (sys_state \<sigma>))" "c \<notin> cancelled (sys_state \<sigma>)" for c
    using reg [OF that] here by simp
  moreover have "Provider_Get (sys_state \<sigma>) n = Ok (ctx, cl)" by (simp add: Provider_Get_def cl)
  ultimately show ?thesis using registry_okD(6) [OF ok cl] by blast
qed

theorem one_live_engagement_witness:
  "\<exists>cl. Provider_Get (sys_state race_end) ''c1'' = Ok (0, cl) \<and> cl_clusterName cl = ''c1''"
proof -
  have "(0, ''c1'') \<in> set (engaged (sys_state race_end))" "0 \<notin> cancelled (sys_state race_end)"
    by (simp_all add: race_end_def engaged_state_def)
  then show ?thesis using one_live_engagement [OF race_reachable] by blast
qed

text \<open>
  C17. When all handlers have returned, every cluster the provider reports was given to the
  manager, which accepted it: a refused engagement leaves no registration behind, and no
  registration skips the manager.
\<close>

theorem idle_clusters_accepted:
  assumes "reachable (sys_init p) (sys_step L K engage) \<sigma>"
    and "\<forall>t \<in> set (sys_threads \<sigma>). t = Finished"
    and "Provider_Get (sys_state \<sigma>) n = Ok (ctx, cl)"
  shows "(ctx, n) \<in> set (engaged (sys_state \<sigma>)) \<and> engage ctx n cl = None \<and>
    ctx \<notin> cancelled (sys_state \<sigma>)"
proof -
  have inv: "sys_inv engage \<sigma>" using conc.inv_reachable [OF assms(1)] .
  have reg: "clusters (sys_state \<sigma>) n = Some (ctx, cl)"
    using assms(3) by (simp add: Provider_Get_def split: option.splits)
  then have "accepted engage (sys_state \<sigma>) n (ctx, cl)"
    using inv assms(2) unfolding sys_inv_def registrations_ok_def by blast
  moreover have "live (sys_state \<sigma>) ctx"
    using inv reg registry_okD(1) [of "sys_state \<sigma>" n] registered_live
    by (auto simp: sys_inv_def)
  ultimately show ?thesis by (simp add: accepted_def engage_fails_def live_def)
qed

theorem idle_clusters_accepted_witness:
  "(0, ''c1'') \<in> set (engaged (sys_state race_end)) \<and> picky_manager 0 ''c1'' (sample_cluster ''c1'') = None"
proof -
  have "\<forall>t \<in> set (sys_threads race_end). t = Finished"
    and "Provider_Get (sys_state race_end) ''c1'' = Ok (0, sample_cluster ''c1'')"
    by (simp_all add: race_end_def engaged_state_def Provider_Get_def)
  then show ?thesis using idle_clusters_accepted [OF race_reachable] by blast
qed

end
