(* ===== verification/Provider_Sync.thy ===== *)
theory Provider_Sync
  imports Provider_Concurrent
begin

text \<open>
  The provider against a changing store: the informer's store, the queue of notifications it
  delivers to the handlers of \<open>Run\<close>, one after the other and in order, and the handlers
  themselves. The specification is that the provider follows the store: when all
  notifications are handled, the registered clusters are the clusters with objects, up to
  those whose engagement failed.
\<close>

section \<open>The system\<close>

text \<open>
  The store's contents, the notifications not yet handled, the cluster a delete handler has
  found empty and is about to disengage (between its read of the index and its critical
  section), and the provider. An informer publishes a notification after it has updated its
  store; that delay only keeps the handler from acting, so here both happen at once.
\<close>

record sync =
  sy_items :: "(string \<times> any) list"
  sy_queue :: "event list"
  sy_commit :: "string option"
  sy_provider :: provider_state

definition sync_init :: "Provider \<Rightarrow> sync \<Rightarrow> bool" where
  "sync_init p \<sigma> \<longleftrightarrow> clusters p = Map.empty \<and> cancelFns p = Map.empty \<and>
     \<sigma> = \<lparr>sy_items = [], sy_queue = [], sy_commit = None, sy_provider = start_state p\<rparr>"

text \<open>
  Changes of the store: a new object, a new version of an object (in the same cluster, under
  the same key), and a deletion, notified with the object or with a tombstone, either in its
  last known version.
\<close>

inductive store_step :: "kcp_lib \<Rightarrow> sync \<Rightarrow> sync \<Rightarrow> bool" for L :: kcp_lib where
  store_add: "ometa ob = Some m \<Longrightarrow> cluster_name_ok (lc_From L m) \<Longrightarrow> object_key_ok (meta_key m) \<Longrightarrow>
    k = clusteredStoreKey (lc_From L m) (meta_key m) \<Longrightarrow> k \<notin> fst ` set (sy_items \<sigma>) \<Longrightarrow>
    store_step L \<sigma> (\<sigma>\<lparr>sy_items := sy_items \<sigma> @ [(k, Obj ob)],
                       sy_queue := sy_queue \<sigma> @ [OnAdd (Obj ob) ini]\<rparr>)"
| store_update: "(k, Obj ob) \<in> set (sy_items \<sigma>) \<Longrightarrow> ometa ob = Some m \<Longrightarrow> ometa ob' = Some m' \<Longrightarrow>
    lc_From L m' = lc_From L m \<Longrightarrow> meta_key m' = meta_key m \<Longrightarrow>
    store_step L \<sigma> (\<sigma>\<lparr>sy_items := map (\<lambda>(k', a). (k', if k' = k then Obj ob' else a)) (sy_items \<sigma>),
                       sy_queue := sy_queue \<sigma> @ [OnUpdate (Obj ob) (Obj ob')]\<rparr>)"
| store_delete: "(k, Obj ob) \<in> set (sy_items \<sigma>) \<Longrightarrow> ometa ob = Some m \<Longrightarrow>
    deleted_object gone = Some m' \<Longrightarrow> lc_From L m' = lc_From L m \<Longrightarrow>
    store_step L \<sigma> (\<sigma>\<lparr>sy_items := filter (\<lambda>(k', a). k' \<noteq> k) (sy_items \<sigma>),
                       sy_queue := sy_queue \<sigma> @ [OnDelete gone]\<rparr>)"

text \<open>
  The handlers. An add runs as a whole, since it reads nothing of the store; a delete reads
  the index, which answers for the store of that moment, and disengages in a second step.
\<close>

inductive handler_step :: "kcp_lib \<Rightarrow> 'a cluster_lib_scheme \<Rightarrow> manager \<Rightarrow> sync \<Rightarrow> sync \<Rightarrow> bool"
  for L :: kcp_lib and K :: "'a cluster_lib_scheme" and engage :: manager where
  handle_add: "sy_commit \<sigma> = None \<Longrightarrow> sy_queue \<sigma> = OnAdd obj ini # q \<Longrightarrow>
    AddFunc L K engage obj (sy_provider \<sigma>) = Ok s \<Longrightarrow>
    handler_step L K engage \<sigma> (\<sigma>\<lparr>sy_queue := q, sy_provider := s\<rparr>)"
| handle_update: "sy_commit \<sigma> = None \<Longrightarrow> sy_queue \<sigma> = OnUpdate old new # q \<Longrightarrow>
    handler_step L K engage \<sigma> (\<sigma>\<lparr>sy_queue := q\<rparr>)"
| handle_delete: "sy_commit \<sigma> = None \<Longrightarrow> sy_queue \<sigma> = OnDelete obj # q \<Longrightarrow>
    store_ready L si (sy_items \<sigma>) \<Longrightarrow>
    delete_check L (Some (GetIndexer si)) obj (sy_provider \<sigma>) = Ok (r, s) \<Longrightarrow>
    handler_step L K engage \<sigma> (\<sigma>\<lparr>sy_queue := q, sy_commit := r, sy_provider := s\<rparr>)"
| handle_commit: "sy_commit \<sigma> = Some n \<Longrightarrow>
    handler_step L K engage \<sigma> (\<sigma>\<lparr>sy_commit := None, sy_provider := delete_commit n (sy_provider \<sigma>)\<rparr>)"

definition sync_step :: "kcp_lib \<Rightarrow> 'a cluster_lib_scheme \<Rightarrow> manager \<Rightarrow> sync \<Rightarrow> sync \<Rightarrow> bool" where
  "sync_step L K engage \<sigma> \<sigma>' \<longleftrightarrow> store_step L \<sigma> \<sigma>' \<or> handler_step L K engage \<sigma> \<sigma>'"

definition quiescent :: "sync \<Rightarrow> bool" where
  "quiescent \<sigma> \<longleftrightarrow> sy_queue \<sigma> = [] \<and> sy_commit \<sigma> = None"

section \<open>Clusters in the store and in the queue\<close>

abbreviation present :: "kcp_lib \<Rightarrow> string \<Rightarrow> (string \<times> any) list \<Rightarrow> bool" where
  "present L n items \<equiv> objects_of L n items \<noteq> {}"

lemma present_iff:
  "present L n items \<longleftrightarrow> (\<exists>k ob m. (k, Obj ob) \<in> set items \<and> ometa ob = Some m \<and> lc_From L m = n)"
  by (fastforce simp: objects_of_def stored_objects_mem split: option.splits)

lemma presentI: "(k, Obj ob) \<in> set items \<Longrightarrow> ometa ob = Some m \<Longrightarrow> lc_From L m = n \<Longrightarrow> present L n items"
  unfolding present_iff by blast

lemma present_add:
  "ometa ob = Some m \<Longrightarrow> present L n (items @ [(k, Obj ob)]) \<longleftrightarrow> present L n items \<or> lc_From L m = n"
  by (auto simp: present_iff)

lemma present_update:
  assumes "distinct (map fst items)" and "(k, Obj ob) \<in> set items" and "ometa ob = Some m"
    and "ometa ob' = Some m'" and "lc_From L m' = lc_From L m"
  shows "present L n (map (\<lambda>(k', a). (k', if k' = k then Obj ob' else a)) items) \<longleftrightarrow> present L n items"
proof -
  let ?upd = "\<lambda>(k', a). (k', if k' = k then Obj ob' else a)"
  have same: "ob1 = ob" if "(k, Obj ob1) \<in> set items" for ob1
    using assms(1,2) that by (metis map_of_is_SomeI option.inject any.inject(1))
  show ?thesis
  proof
    assume "present L n (map ?upd items)"
    then obtain k1 ob1 m1 where ob1: "(k1, Obj ob1) \<in> ?upd ` set items" "ometa ob1 = Some m1" "lc_From L m1 = n"
      unfolding present_iff set_map by blast
    show "present L n items"
    proof (cases "k1 = k")
      case True
      then have "ob1 = ob'" using ob1(1) by auto
      then show ?thesis using ob1 assms(2-5) unfolding present_iff by auto
    next
      case False
      then have "(k1, Obj ob1) \<in> set items" using ob1(1) by (auto split: if_splits)
      then show ?thesis using ob1 unfolding present_iff by blast
    qed
  next
    assume "present L n items"
    then obtain k1 ob1 m1 where ob1: "(k1, Obj ob1) \<in> set items" "ometa ob1 = Some m1" "lc_From L m1 = n"
      unfolding present_iff by auto
    have mem: "?upd (k1, Obj ob1) \<in> set (map ?upd items)"
      unfolding set_map using ob1(1) by (rule imageI)
    show "present L n (map ?upd items)"
    proof (cases "k1 = k")
      case True
      then have eq: "?upd (k1, Obj ob1) = (k, Obj ob')" and n: "lc_From L m' = n"
        using ob1 same assms(3-5) by auto
      show ?thesis using mem [unfolded eq] assms(4) n by (rule presentI)
    next
      case False
      then have eq: "?upd (k1, Obj ob1) = (k1, Obj ob1)" by simp
      show ?thesis using mem [unfolded eq] ob1(2,3) by (rule presentI)
    qed
  qed
qed

lemma present_delete:
  assumes "distinct (map fst items)" and "(k, Obj ob) \<in> set items" and "ometa ob = Some m"
  shows "present L n (filter (\<lambda>(k', a). k' \<noteq> k) items) \<Longrightarrow> present L n items"
    and "present L n items \<Longrightarrow> n \<noteq> lc_From L m \<Longrightarrow> present L n (filter (\<lambda>(k', a). k' \<noteq> k) items)"
proof -
  show "present L n (filter (\<lambda>(k', a). k' \<noteq> k) items) \<Longrightarrow> present L n items"
    by (auto simp: present_iff)
  assume "present L n items" and other: "n \<noteq> lc_From L m"
  then obtain k1 ob1 m1 where ob1: "(k1, Obj ob1) \<in> set items" "ometa ob1 = Some m1" "lc_From L m1 = n"
    by (auto simp: present_iff)
  have "k1 \<noteq> k"
  proof
    assume "k1 = k"
    then have "Obj ob1 = Obj ob" using assms(1,2) ob1(1) by (metis map_of_is_SomeI option.inject)
    then show False using ob1 assms(3) other by simp
  qed
  then show "present L n (filter (\<lambda>(k', a). k' \<noteq> k) items)"
    using ob1 unfolding present_iff by fastforce
qed

text \<open>Add and delete notifications for a cluster.\<close>

fun adds :: "kcp_lib \<Rightarrow> string \<Rightarrow> event \<Rightarrow> bool" where
  "adds L n (OnAdd obj ini) = event_of L n (OnAdd obj ini)"
| "adds L n _ = False"

fun dels :: "kcp_lib \<Rightarrow> string \<Rightarrow> event \<Rightarrow> bool" where
  "dels L n (OnDelete obj) = event_of L n (OnDelete obj)"
| "dels L n _ = False"

text \<open>Every add notification of the cluster is followed by a delete notification of it.\<close>

fun adds_followed :: "kcp_lib \<Rightarrow> string \<Rightarrow> event list \<Rightarrow> bool" where
  "adds_followed L n [] = True"
| "adds_followed L n (e # q) = ((adds L n e \<longrightarrow> (\<exists>d \<in> set q. dels L n d)) \<and> adds_followed L n q)"

lemma adds_followed_snoc:
  "\<not> adds L n e \<Longrightarrow> adds_followed L n q \<Longrightarrow> adds_followed L n (q @ [e])"
  by (induction q) auto

lemma adds_followed_delete: "dels L n d \<Longrightarrow> adds_followed L n (q @ [d])"
proof (induction q)
  case Nil
  then show ?case by (cases d) auto
qed auto

lemma event_meta_deleted: "event_meta (OnDelete obj) = deleted_object obj"
  by (cases obj) simp_all

lemma dels_iff: "dels L n (OnDelete obj) \<longleftrightarrow> (\<exists>m. deleted_object obj = Some m \<and> lc_From L m = n)"
  by (simp add: event_of_def event_meta_deleted split: option.split)

lemma adds_iff: "adds L n (OnAdd obj ini) \<longleftrightarrow> (\<exists>m. as_client_Object obj = Some m \<and> lc_From L m = n)"
  by (simp add: event_of_def split: option.split)

declare adds.simps(1) [simp del] dels.simps(1) [simp del] adds_iff [simp] dels_iff [simp]

section \<open>What an add does\<close>

text \<open>The log's record that the cluster could not be made or engaged.\<close>

definition add_failed :: "provider_state \<Rightarrow> string \<Rightarrow> bool" where
  "add_failed s n \<longleftrightarrow>
     (\<exists>e. LogError ''failed to create cluster'' (Some e) n \<in> set (logged s)) \<or>
     (\<exists>e. LogError ''failed to engage cluster'' (Some e) n \<in> set (logged s))"

lemma add_failed_log: "add_failed s n \<Longrightarrow> add_failed (log_add e s) n"
  by (auto simp: add_failed_def log_add_def)

lemma AddFunc_outcome:
  assumes ok: "registry_ok s" and m: "as_client_Object obj = Some m"
    and run: "AddFunc L K engage obj s = Ok s'"
  shows "(\<forall>n. n \<noteq> lc_From L m \<longrightarrow> clusters s' n = clusters s n) \<and>
    (clusters s' (lc_From L m) \<noteq> None \<or> add_failed s' (lc_From L m)) \<and>
    (\<forall>n. add_failed s n \<longrightarrow> add_failed s' n)"
proof -
  let ?n = "lc_From L m"
  show ?thesis
  proof (cases "clusters s ?n")
    case (Some cl)
    then have "s' = s" using run m by (simp add: AddFunc_def add_known_def Let_def)
    then show ?thesis using Some by simp
  next
    case None
    note new = AddFunc_new [OF m refl None, of K engage]
    show ?thesis
    proof (cases "newScopedCluster L K (config s) ?n (pcache s) (pscheme s)")
      case (Ok c)
      then show ?thesis
        using run unfolding new
        by (cases "engage (next_ctx s) ?n c")
          (auto simp: engage_fails_def add_undo_def add_engage_def log_add_def cancel_def Let_def add_failed_def)
    next
      case (Err e)
      then show ?thesis using run unfolding new by (auto simp: add_failed_def log_add_def)
    next
      case (Panic p)
      then show ?thesis using run unfolding new by simp
    qed
  qed
qed

section \<open>The invariant\<close>

text \<open>
  For each cluster: if the store has objects of it, it is registered, or its engagement
  failed, or an add notification is queued, which is so in any case while a delete handler
  is about to disengage it; if the store has none, a registered cluster is about to be
  disengaged by a handler or a queued delete notification, and so is every cluster a queued
  add notification is yet to register.
\<close>

definition follows :: "kcp_lib \<Rightarrow> sync \<Rightarrow> string \<Rightarrow> bool" where
  "follows L \<sigma> n \<longleftrightarrow>
     (if present L n (sy_items \<sigma>)
      then (\<exists>e \<in> set (sy_queue \<sigma>). adds L n e) \<or>
           sy_commit \<sigma> \<noteq> Some n \<and>
           (clusters (sy_provider \<sigma>) n \<noteq> None \<or> add_failed (sy_provider \<sigma>) n)
      else adds_followed L n (sy_queue \<sigma>) \<and>
           (clusters (sy_provider \<sigma>) n \<noteq> None \<longrightarrow>
              sy_commit \<sigma> = Some n \<or> (\<exists>e \<in> set (sy_queue \<sigma>). dels L n e)))"

definition sync_inv :: "kcp_lib \<Rightarrow> sync \<Rightarrow> bool" where
  "sync_inv L \<sigma> \<longleftrightarrow>
     well_keyed L (sy_items \<sigma>) \<and> distinct (map fst (sy_items \<sigma>)) \<and> registry_ok (sy_provider \<sigma>) \<and>
     (\<forall>e \<in> set (sy_queue \<sigma>). event_typed e) \<and> (\<forall>n. follows L \<sigma> n)"

lemma map_fst_update: "map fst (map (\<lambda>(k', a). (k', if k' = k then b else a)) xs) = map fst xs"
  by (induction xs) auto

lemma well_keyed_update:
  assumes "well_keyed L items" and "distinct (map fst items)" and "(k, Obj ob) \<in> set items"
    and "ometa ob = Some m" and "ometa ob' = Some m'" and "lc_From L m' = lc_From L m"
    and "meta_key m' = meta_key m"
  shows "well_keyed L (map (\<lambda>(k', a). (k', if k' = k then Obj ob' else a)) items)"
  using assms well_keyedD [OF assms(1,3)] unfolding well_keyed_def by (fastforce split: if_splits)

lemma well_keyed_snoc:
  "well_keyed L items \<Longrightarrow> ometa ob = Some m \<Longrightarrow> cluster_name_ok (lc_From L m) \<Longrightarrow>
   object_key_ok (meta_key m) \<Longrightarrow>
   well_keyed L (items @ [(clusteredStoreKey (lc_From L m) (meta_key m), Obj ob)])"
  by (simp add: well_keyed_def)

lemma well_keyed_filter: "well_keyed L items \<Longrightarrow> well_keyed L (filter P items)"
  by (auto simp: well_keyed_def)

lemma distinct_filter_fst: "distinct (map fst items) \<Longrightarrow> distinct (map fst (filter P items))"
  by (induction items) auto

lemma store_step_inv:
  assumes "sync_inv L \<sigma>" and "store_step L \<sigma> \<sigma>'"
  shows "sync_inv L \<sigma>'"
proof -
  have fol: "follows L \<sigma> n" for n using assms(1) by (simp add: sync_inv_def)
  show ?thesis using assms(2)
proof cases
  case (store_add ob m k ini)
  have "follows L \<sigma>' n" for n
    using fol [of n] store_add(2) adds_followed_snoc [of L n "OnAdd (Obj ob) ini" "sy_queue \<sigma>"]
    by (auto simp: follows_def store_add(1) present_add split: if_splits)
  then show ?thesis
    using assms(1) store_add well_keyed_snoc [of L "sy_items \<sigma>" ob m]
    by (auto simp: sync_inv_def event_typed_def)
next
  case (store_update k ob m ob' m')
  have "follows L \<sigma>' n" for n
    using fol [of n] present_update [OF _ store_update(2-5), of n]
      adds_followed_snoc [of L n "OnUpdate (Obj ob) (Obj ob')" "sy_queue \<sigma>"]
    using assms(1) by (auto simp: sync_inv_def follows_def store_update(1) split: if_splits)
  then show ?thesis
    using assms(1) store_update well_keyed_update [OF _ _ store_update(2-6)]
    by (auto simp: sync_inv_def event_typed_def map_fst_update simp del: map_map)
next
  case (store_delete k ob m gone m')
  have dist: "distinct (map fst (sy_items \<sigma>))" using assms(1) by (simp add: sync_inv_def)
  have dels: "dels L n (OnDelete gone) \<longleftrightarrow> n = lc_From L m" for n
    using store_delete(4,5) by auto
  have "follows L \<sigma>' n" for n
    using fol [of n] present_delete [OF dist store_delete(2,3), of L n] dels [of n]
      adds_followed_snoc [of L n "OnDelete gone" "sy_queue \<sigma>"]
      adds_followed_delete [of L n "OnDelete gone" "sy_queue \<sigma>"]
    unfolding follows_def store_delete(1) by (auto split: if_splits)
  then show ?thesis
    using assms(1) store_delete well_keyed_filter [of L "sy_items \<sigma>"] distinct_filter_fst [OF dist]
    by (auto simp: sync_inv_def event_typed_def event_meta_deleted)
qed
qed

text \<open>A delete handler reads the index; committing forgets one cluster.\<close>

lemma delete_commit_sel:
  assumes "registry_ok s"
  shows "clusters (delete_commit n s) = (clusters s)(n := None)"
    and "add_failed s m \<Longrightarrow> add_failed (delete_commit n s) m"
proof -
  have "clusters s n = None" if "cancelFns s n = None" using that registered_iff [OF assms, of n] by simp
  then show "clusters (delete_commit n s) = (clusters s)(n := None)"
    by (auto simp: delete_commit_cases fun_eq_iff split: option.split)
  assume "add_failed s m"
  then show "add_failed (delete_commit n s) m"
    by (auto simp: delete_commit_cases add_failed_def log_add_def split: option.split)
qed

lemma handle_add_inv:
  assumes inv: "sync_inv L \<sigma>" and c: "sy_commit \<sigma> = None" and q: "sy_queue \<sigma> = OnAdd obj ini # q"
    and run: "AddFunc L K engage obj (sy_provider \<sigma>) = Ok s"
  shows "sync_inv L (\<sigma>\<lparr>sy_queue := q, sy_provider := s\<rparr>)"
proof -
  have fol: "follows L \<sigma> n" for n using inv by (simp add: sync_inv_def)
  have ok: "registry_ok (sy_provider \<sigma>)" using inv by (simp add: sync_inv_def)
  have "event_typed (OnAdd obj ini)" using inv q by (simp add: sync_inv_def)
  then obtain m where m: "as_client_Object obj = Some m" by (auto simp: event_typed_def)
  note out = AddFunc_outcome [OF ok m run]
  have "follows L (\<sigma>\<lparr>sy_queue := q, sy_provider := s\<rparr>) n" for n
    using fol [of n] c q out m by (cases "n = lc_From L m") (auto simp: follows_def split: if_splits)
  then show ?thesis using inv c q AddFunc_evolves [OF ok run] by (auto simp: sync_inv_def evolves_def)
qed

lemma handle_delete_inv:
  assumes inv: "sync_inv L \<sigma>" and c: "sy_commit \<sigma> = None" and q: "sy_queue \<sigma> = OnDelete obj # q"
    and ready: "store_ready L si (sy_items \<sigma>)"
    and run: "delete_check L (Some (GetIndexer si)) obj (sy_provider \<sigma>) = Ok (r, s)"
  shows "sync_inv L (\<sigma>\<lparr>sy_queue := q, sy_commit := r, sy_provider := s\<rparr>)"
proof -
  have fol: "follows L \<sigma> n" for n using inv by (simp add: sync_inv_def)
  have "event_typed (OnDelete obj)" using inv q by (simp add: sync_inv_def)
  then obtain m where m: "deleted_object obj = Some m" by (auto simp: event_typed_def event_meta_deleted)
  have r: "r = (if present L (lc_From L m) (sy_items \<sigma>) then None else Some (lc_From L m))"
    and s: "s = sy_provider \<sigma>"
    using delete_check_index [OF ready m, of "sy_provider \<sigma>"] run by (simp_all split: if_splits)
  have "follows L (\<sigma>\<lparr>sy_queue := q, sy_commit := r, sy_provider := s\<rparr>) n" for n
    using fol [of n] c q m by (auto simp: follows_def r s split: if_splits)
  then show ?thesis using inv c q s by (auto simp: sync_inv_def)
qed

lemma handler_step_inv:
  assumes inv: "sync_inv L \<sigma>" and step: "handler_step L K engage \<sigma> \<sigma>'"
  shows "sync_inv L \<sigma>'"
proof -
  have fol: "follows L \<sigma> n" for n using inv by (simp add: sync_inv_def)
  have ok: "registry_ok (sy_provider \<sigma>)" using inv by (simp add: sync_inv_def)
  show ?thesis using step
  proof cases
    case (handle_add obj ini q s)
    then show ?thesis using handle_add_inv [OF inv] by blast
  next
    case (handle_update old new q)
    have "follows L \<sigma>' n" for n
      using fol [of n] handle_update(2,3) by (auto simp: follows_def handle_update(1) split: if_splits)
    then show ?thesis using inv handle_update by (auto simp: sync_inv_def)
  next
    case (handle_delete obj q si r s)
    then show ?thesis using handle_delete_inv [OF inv] by blast
  next
    case (handle_commit c)
    have "follows L \<sigma>' n" for n
      using fol [of n] handle_commit(2) delete_commit_sel(1) [OF ok, of c]
        delete_commit_sel(2) [OF ok, of n c]
      by (auto simp: follows_def handle_commit(1) split: if_splits)
    then show ?thesis
      using inv handle_commit delete_commit_evolves [OF ok, of c]
      by (auto simp: sync_inv_def evolves_def)
  qed
qed

interpretation sync: invariant_system "sync_init p" "sync_step L K engage" "sync_inv L"
  for p L and K :: "'a cluster_lib_scheme" and engage
proof
  fix \<sigma> assume "sync_init p \<sigma>"
  then show "sync_inv L \<sigma>"
    by (auto simp: sync_init_def sync_inv_def follows_def start_state_ok well_keyed_def
        objects_of_def stored_objects_def map_filter_def)
qed (auto simp: sync_step_def intro: store_step_inv handler_step_inv)

section \<open>Following the store\<close>

lemma sync_inv_quiescent:
  assumes "sync_inv L \<sigma>" and "quiescent \<sigma>"
  shows "(clusters (sy_provider \<sigma>) n \<noteq> None \<longrightarrow> present L n (sy_items \<sigma>)) \<and>
    (present L n (sy_items \<sigma>) \<longrightarrow> clusters (sy_provider \<sigma>) n \<noteq> None \<or> add_failed (sy_provider \<sigma>) n)"
proof -
  have "follows L \<sigma> n" using assms(1) by (simp add: sync_inv_def)
  then show ?thesis using assms(2) by (auto simp: follows_def quiescent_def split: if_splits)
qed

lemma Provider_Get_Ok: "is_Ok (Provider_Get s n) \<longleftrightarrow> clusters s n \<noteq> None"
  by (simp add: Provider_Get_def split: option.split)

text \<open>
  C1. The provider follows the store. Objects come, change and go in any order, between any
  two steps of the handlers; whenever all notifications are handled, \<open>Get\<close> finds only
  clusters with objects in the store, and every cluster with objects is found unless the
  log says that it could not be made or engaged.
\<close>

theorem provider_follows_store:
  assumes "reachable (sync_init p) (sync_step L K engage) \<sigma>" and "quiescent \<sigma>"
  shows "(is_Ok (Provider_Get (sy_provider \<sigma>) n) \<longrightarrow> present L n (sy_items \<sigma>)) \<and>
    (present L n (sy_items \<sigma>) \<longrightarrow>
       is_Ok (Provider_Get (sy_provider \<sigma>) n) \<or> add_failed (sy_provider \<sigma>) n)"
  using sync_inv_quiescent [OF sync.inv_reachable [OF assms(1)] assms(2)]
  by (simp add: Provider_Get_Ok)

text \<open>A first object of a cluster arrives, and its notification is handled.\<close>

definition arrived :: sync where
  "arrived =
     \<lparr>sy_items = [sample_item ''c1'' ''default'' ''cm''],
      sy_queue = [OnAdd (Obj (sample_object ''c1'' ''default'' ''cm'')) True],
      sy_commit = None, sy_provider = start_state sample_provider\<rparr>"

definition handled :: sync where
  "handled = arrived\<lparr>sy_queue := [],
     sy_provider := add_engage picky_manager ''c1'' (0, sample_cluster ''c1'') engaged_state\<rparr>"

lemma arrived_reachable:
  "reachable (sync_init sample_provider) (sync_step documented_lib K engage) arrived"
proof -
  let ?\<sigma>0 = "\<lparr>sy_items = [], sy_queue = [], sy_commit = None, sy_provider = start_state sample_provider\<rparr>"
  let ?m = "sample_meta ''c1'' ''default'' ''cm''"
  have "sync_init sample_provider ?\<sigma>0" by (simp add: sync_init_def)
  moreover have "store_step documented_lib ?\<sigma>0 arrived"
    using store_add [of "sample_object ''c1'' ''default'' ''cm''" ?m documented_lib
        "clusteredStoreKey ''c1'' (meta_key ?m)" ?\<sigma>0 True]
    by (simp add: arrived_def sample_item_def cluster_name_ok_def object_key_ok_def meta_key_def sample_meta_def
        annotation_From_def)
  ultimately show ?thesis by (blast intro: reachable.intros sync_step_def [THEN iffD2])
qed

lemma handled_reachable:
  "reachable (sync_init sample_provider) (sync_step documented_lib sample_cluster_lib picky_manager) handled"
proof -
  let ?ob = "Obj (sample_object ''c1'' ''default'' ''cm'')"
  have m: "as_client_Object ?ob = Some (sample_meta ''c1'' ''default'' ''cm'')" by simp
  have "AddFunc documented_lib sample_cluster_lib picky_manager ?ob (start_state sample_provider) =
      Ok (add_engage picky_manager ''c1'' (0, sample_cluster ''c1'') engaged_state)"
    using AddFunc_new [OF m, of "''c1''" documented_lib "start_state sample_provider" sample_cluster_lib picky_manager]
      sample_newScopedCluster [OF sample_url_name_ok(1)]
    by (simp add: Let_def engage_fails_def picky_manager_def engaged_state_def)
  then have "handler_step documented_lib sample_cluster_lib picky_manager arrived handled"
    unfolding handled_def by (intro handle_add) (simp_all add: arrived_def)
  then have "sync_step documented_lib sample_cluster_lib picky_manager arrived handled"
    by (simp add: sync_step_def)
  with arrived_reachable show ?thesis by (rule reachable_step)
qed

theorem provider_follows_store_witness:
  "is_Ok (Provider_Get (sy_provider handled) ''c1'') \<and> present documented_lib ''c1'' (sy_items handled)"
proof -
  have "quiescent handled" by (simp add: quiescent_def handled_def arrived_def)
  moreover have "is_Ok (Provider_Get (sy_provider handled) ''c1'')"
    by (simp add: Provider_Get_Ok handled_def engaged_state_def)
  ultimately show ?thesis using provider_follows_store [OF handled_reachable] by blast
qed

text \<open>The steps the handlers have left to do.\<close>

definition pending :: "sync \<Rightarrow> nat" where
  "pending \<sigma> = 2 * length (sy_queue \<sigma>) + (if sy_commit \<sigma> = None then 0 else 1)"

lemma pending_zero: "pending \<sigma> = 0 \<longleftrightarrow> quiescent \<sigma>"
  by (simp add: pending_def quiescent_def)

lemma handler_step_pending: "handler_step L K engage \<sigma> \<sigma>' \<Longrightarrow> pending \<sigma>' < pending \<sigma>"
  by (erule handler_step.cases) (auto simp: pending_def)

lemma handler_step_items: "handler_step L K engage \<sigma> \<sigma>' \<Longrightarrow> sy_items \<sigma>' = sy_items \<sigma>"
  by (erule handler_step.cases) auto

lemma AddFunc_total:
  assumes "\<And>cfg n w sch. \<not> panics (newScopedCluster L K cfg n w sch)"
  shows "\<exists>s'. AddFunc L K engage obj s = Ok s'"
proof (cases "as_client_Object obj")
  case None
  then show ?thesis by (simp add: AddFunc_def)
next
  case (Some m)
  show ?thesis
  proof (cases "clusters s (lc_From L m)")
    case None
    then show ?thesis
      using AddFunc_new [OF Some refl None, of K engage] assms [of "config s" "lc_From L m" "pcache s" "pscheme s"]
      by (auto simp: Let_def split: outcome.splits)
  next
    case (Some c)
    then show ?thesis using \<open>as_client_Object obj = Some m\<close> by (simp add: AddFunc_def add_known_def Let_def)
  qed
qed

lemma handler_progress:
  assumes lib: "lib_ok L" and nopanic: "\<And>cfg n w sch. \<not> panics (newScopedCluster L K cfg n w sch)"
    and inv: "sync_inv L \<sigma>" and busy: "\<not> quiescent \<sigma>"
  shows "\<exists>\<sigma>'. handler_step L K engage \<sigma> \<sigma>'"
proof (cases "sy_commit \<sigma>")
  case (Some n)
  then show ?thesis using handle_commit by blast
next
  case None
  then obtain e q where q: "sy_queue \<sigma> = e # q" using busy by (cases "sy_queue \<sigma>") (auto simp: quiescent_def)
  show ?thesis
  proof (cases e)
    case (OnAdd obj ini)
    then show ?thesis
      using handle_add [OF None q [unfolded OnAdd]] AddFunc_total [OF nopanic] by blast
  next
    case (OnUpdate old new)
    then show ?thesis using handle_update [OF None q [unfolded OnUpdate]] by blast
  next
    case (OnDelete obj)
    let ?si = "\<lparr>inf_id = 0, GetIndexer = snapshot_indexer (cluster_indexers L) (sy_items \<sigma>)\<rparr>"
    have "store_ready L ?si (sy_items \<sigma>)"
      using inv lib by (simp add: store_ready_def sync_inv_def cluster_snapshot_ok cluster_aware_snapshot)
    moreover obtain m where "deleted_object obj = Some m"
      using inv q OnDelete by (auto simp: sync_inv_def event_typed_def event_meta_deleted)
    ultimately show ?thesis
      using handle_delete [OF None q [unfolded OnDelete]] delete_check_index by blast
  qed
qed

lemma handlers_drain:
  assumes "lib_ok L" and "\<And>cfg n w sch. \<not> panics (newScopedCluster L K cfg n w sch)"
    and "sync_inv L \<sigma>"
  shows "\<exists>k \<sigma>'. k \<le> pending \<sigma> \<and> (handler_step L K engage ^^ k) \<sigma> \<sigma>' \<and> quiescent \<sigma>' \<and>
    sync_inv L \<sigma>' \<and> sy_items \<sigma>' = sy_items \<sigma>"
  using assms(3)
proof (induction "pending \<sigma>" arbitrary: \<sigma> rule: less_induct)
  case less
  show ?case
  proof (cases "quiescent \<sigma>")
    case True
    then show ?thesis using less.prems by (intro exI [of _ 0] exI [of _ \<sigma>]) simp
  next
    case False
    then obtain \<sigma>1 where step: "handler_step L K engage \<sigma> \<sigma>1"
      using handler_progress [OF assms(1,2) less.prems] by blast
    note lt = handler_step_pending [OF step]
    obtain k \<sigma>' where k: "k \<le> pending \<sigma>1" "(handler_step L K engage ^^ k) \<sigma>1 \<sigma>'"
      and rest: "quiescent \<sigma>'" "sync_inv L \<sigma>'" "sy_items \<sigma>' = sy_items \<sigma>1"
      using less.hyps [OF lt handler_step_inv [OF less.prems step]] by blast
    have "(handler_step L K engage ^^ Suc k) \<sigma> \<sigma>'" using step k(2) by (rule relpowp_Suc_I2)
    moreover have "Suc k \<le> pending \<sigma>" using k(1) lt by simp
    ultimately show ?thesis using rest handler_step_items [OF step] by metis
  qed
qed

text \<open>
  C3. The handlers catch up. If making a cluster does not panic, then from every reachable
  state, once the store rests, the handlers finish by themselves, in at most two steps per
  queued notification and one for a pending disengagement; no sequence of handler steps
  goes on for longer; and then the clusters \<open>Get\<close> finds are those with objects in that
  store, up to logged failures.
\<close>

theorem handlers_catch_up:
  assumes "reachable (sync_init p) (sync_step L K engage) \<sigma>"
    and "lib_ok L" and "\<And>cfg n w sch. \<not> panics (newScopedCluster L K cfg n w sch)"
  shows "(\<exists>k \<sigma>'. k \<le> 2 * length (sy_queue \<sigma>) + 1 \<and> (handler_step L K engage ^^ k) \<sigma> \<sigma>' \<and>
      quiescent \<sigma>' \<and> sy_items \<sigma>' = sy_items \<sigma> \<and>
      (\<forall>n. (is_Ok (Provider_Get (sy_provider \<sigma>') n) \<longrightarrow> present L n (sy_items \<sigma>)) \<and>
         (present L n (sy_items \<sigma>) \<longrightarrow>
            is_Ok (Provider_Get (sy_provider \<sigma>') n) \<or> add_failed (sy_provider \<sigma>') n))) \<and>
    (\<forall>\<sigma>1 \<sigma>2. handler_step L K engage \<sigma>1 \<sigma>2 \<longrightarrow> pending \<sigma>2 < pending \<sigma>1)"
proof -
  obtain k \<sigma>' where k: "k \<le> pending \<sigma>" "(handler_step L K engage ^^ k) \<sigma> \<sigma>'"
    and q: "quiescent \<sigma>'" "sync_inv L \<sigma>'" "sy_items \<sigma>' = sy_items \<sigma>"
    using handlers_drain [OF assms(2,3) sync.inv_reachable [OF assms(1)]] by blast
  have "k \<le> 2 * length (sy_queue \<sigma>) + 1" using k(1) by (simp add: pending_def split: if_splits)
  moreover have "(is_Ok (Provider_Get (sy_provider \<sigma>') n) \<longrightarrow> present L n (sy_items \<sigma>)) \<and>
      (present L n (sy_items \<sigma>) \<longrightarrow>
         is_Ok (Provider_Get (sy_provider \<sigma>') n) \<or> add_failed (sy_provider \<sigma>') n)" for n
    using sync_inv_quiescent [OF q(2,1), of n] unfolding Provider_Get_Ok q(3) .
  ultimately show ?thesis using k(2) q(1,3) handler_step_pending by blast
qed

lemma sample_no_panic: "\<not> panics (newScopedCluster documented_lib sample_cluster_lib cfg n w sch)"
proof -
  have "\<not> panics (JoinPath (JoinPath_escaped sample_cluster_lib) (Host cfg) (lc_RequestPath documented_lib n))"
    by (rule JoinPath_no_panic) (simp add: sample_cluster_lib_def)
  then show ?thesis
    by (auto simp: newScopedCluster_def sample_cluster_lib_def Let_def split: outcome.split)
qed

theorem handlers_catch_up_witness:
  "\<exists>\<sigma>. quiescent \<sigma> \<and> sy_items \<sigma> = sy_items arrived \<and>
     (is_Ok (Provider_Get (sy_provider \<sigma>) ''c1'') \<or> add_failed (sy_provider \<sigma>) ''c1'')"
proof -
  have "present documented_lib ''c1'' (sy_items arrived)"
    by (rule presentI [where k = "clusteredStoreKey ''c1'' \<lparr>knamespace = ''default'', kname = ''cm''\<rparr>" and
          m = "sample_meta ''c1'' ''default'' ''cm''" and ob = "sample_object ''c1'' ''default'' ''cm''"])
      (simp_all add: arrived_def sample_item_def)
  with handlers_catch_up [OF arrived_reachable documented_lib_ok sample_no_panic, of picky_manager]
  show ?thesis by metis
qed

end
