(* ===== verification/Provider_Spec.thy ===== *)
theory Provider_Spec
  imports Provider_Concurrent
begin

text \<open>
  What the provider promises, as an abstract system: a table of engagements, each with a fresh
  context of its own. The interleaved handlers of \<open>provider.go\<close> refine it: every step of a
  handler is one step of the table or invisible.
\<close>

section \<open>The abstract registry\<close>

text \<open>
  A cluster that is not in the table is entered under a new context; a context may be given up
  without an entry; an entry is taken out, and its context ends with it.
\<close>

record registry =
  reg_table :: "string \<rightharpoonup> nat"
  reg_live :: "nat set"
  reg_next :: nat

definition registry_init :: "registry \<Rightarrow> bool" where
  "registry_init R \<longleftrightarrow> R = \<lparr>reg_table = Map.empty, reg_live = {}, reg_next = 0\<rparr>"

inductive registry_step :: "registry \<Rightarrow> registry \<Rightarrow> bool" where
  engage: "reg_table R n = None \<Longrightarrow>
    registry_step R \<lparr>reg_table = (reg_table R)(n \<mapsto> reg_next R), reg_live = insert (reg_next R) (reg_live R),
                     reg_next = Suc (reg_next R)\<rparr>"
| give_up: "registry_step R (R\<lparr>reg_next := Suc (reg_next R)\<rparr>)"
| disengage: "reg_table R n = Some c \<Longrightarrow>
    registry_step R (R\<lparr>reg_table := (reg_table R)(n := None), reg_live := reg_live R - {c}\<rparr>)"

inductive_cases registry_stepE: "registry_step R R'"

text \<open>Contexts count up, and one that is not in use never comes into use again.\<close>

lemma registry_step_retired:
  assumes "registry_step R R'" and "c < reg_next R" and "c \<notin> ran (reg_table R)"
  shows "c < reg_next R' \<and> c \<notin> ran (reg_table R')"
  using assms by cases (auto simp: ran_def split: if_splits)

lemma registry_steps_retired:
  assumes "registry_step\<^sup>*\<^sup>* R R'" and "c < reg_next R" and "c \<notin> ran (reg_table R)"
  shows "c \<notin> ran (reg_table R')"
proof -
  have "c < reg_next R' \<and> c \<notin> ran (reg_table R')"
    using assms by induction (auto dest: registry_step_retired)
  then show ?thesis by simp
qed

text \<open>In every reachable table the live contexts are the entries, one cluster for each.\<close>

definition registry_inv :: "registry \<Rightarrow> bool" where
  "registry_inv R \<longleftrightarrow> reg_live R = ran (reg_table R) \<and> inj_on (reg_table R) (dom (reg_table R)) \<and>
     (\<forall>c \<in> reg_live R. c < reg_next R)"

interpretation spec: invariant_system registry_init registry_step registry_inv
proof
  fix R assume "registry_init R"
  then show "registry_inv R" by (simp add: registry_init_def registry_inv_def)
next
  fix R R' assume inv: "registry_inv R" and step: "registry_step R R'"
  from step show "registry_inv R'"
  proof cases
    case (engage n)
    have "reg_table R m \<noteq> Some (reg_next R)" for m
      using inv by (force simp: registry_inv_def ran_def)
    then show ?thesis
      using inv engage by (auto simp: registry_inv_def inj_on_def less_Suc_eq dom_def)
  next
    case give_up
    then show ?thesis using inv by (auto simp: registry_inv_def less_Suc_eq)
  next
    case (disengage n c)
    have inj: "inj_on (reg_table R) (dom (reg_table R))" using inv by (simp add: registry_inv_def)
    have only: "m = n" if "reg_table R m = Some c" for m
      by (rule inj_onD [OF inj]) (use that disengage(2) in auto)
    have "ran ((reg_table R)(n := None)) = ran (reg_table R) - {c}"
    proof (intro set_eqI iffI)
      fix d assume d: "d \<in> ran (reg_table R) - {c}"
      then obtain m where m: "reg_table R m = Some d" by (auto simp: ran_def)
      then have "m \<noteq> n" using d disengage(2) by auto
      then have "((reg_table R)(n := None)) m = Some d" using m by simp
      then show "d \<in> ran ((reg_table R)(n := None))" by (rule ranI)
    qed (auto simp: ran_def dest: only split: if_splits)
    moreover have "inj_on ((reg_table R)(n := None)) (dom ((reg_table R)(n := None)))"
      using inj by (auto simp: inj_on_def)
    ultimately show ?thesis using inv disengage(1) by (simp add: registry_inv_def)
  qed
qed

section \<open>The provider refines it\<close>

definition registry_of :: "provider_state \<Rightarrow> registry" where
  "registry_of s = \<lparr>reg_table = cancelFns s, reg_live = Collect (live s), reg_next = next_ctx s\<rparr>"

lemma registry_of_log [simp]: "registry_of (log_add e s) = registry_of s"
  by (simp add: registry_of_def live_def [abs_def])

lemma registry_of_engage [simp]: "registry_of (add_engage engage n cl s) = registry_of s"
  by (simp add: registry_of_def live_def [abs_def])

lemma registry_of_start: "registry_init (registry_of (start_state p)) \<longleftrightarrow> cancelFns p = Map.empty"
  by (auto simp: registry_init_def registry_of_def live_def)

text \<open>Taking a registered cluster out, by the undo of an add or by a delete.\<close>

lemma registry_of_drop:
  assumes "registry_ok s" and "cancelFns s n = Some c"
  shows "registry_step (registry_of s)
    (registry_of (s\<lparr>cancelled := insert c (cancelled s), clusters := (clusters s)(n := None),
                    cancelFns := (cancelFns s)(n := None)\<rparr>))"
proof -
  have "Collect (live (s\<lparr>cancelled := insert c (cancelled s), clusters := (clusters s)(n := None),
                    cancelFns := (cancelFns s)(n := None)\<rparr>)) = Collect (live s) - {c}"
    by (auto simp: live_def)
  then show ?thesis
    using registry_step.disengage [of "registry_of s" n c] assms(2) by (simp add: registry_of_def)
qed

lemma add_slow_refines:
  assumes ok: "registry_ok s" and run: "add_slow L K n s = Ok (r, s')"
  shows "registry_of s' = registry_of s \<or> registry_step (registry_of s) (registry_of s')"
proof (cases "clusters s n")
  case None
  have fresh: "next_ctx s \<notin> cancelled s" using registry_okD(4) [OF ok] by blast
  have none: "cancelFns s n = None" using registered_iff [OF ok] None by blast
  show ?thesis
  proof (cases "newScopedCluster L K (config s) n (pcache s) (pscheme s)")
    case (Ok cl)
    then have "registry_of s' = \<lparr>reg_table = (cancelFns s)(n \<mapsto> next_ctx s),
        reg_live = insert (next_ctx s) (Collect (live s)), reg_next = Suc (next_ctx s)\<rparr>"
      using run fresh by (auto simp: add_slow_cases [OF None] registry_of_def live_def less_Suc_eq)
    then show ?thesis using registry_step.engage [of "registry_of s" n] none by (simp add: registry_of_def)
  next
    case (Err e)
    then have "registry_of s' = (registry_of s)\<lparr>reg_next := Suc (next_ctx s)\<rparr>"
      using run by (auto simp: add_slow_cases [OF None] registry_of_def live_def less_Suc_eq)
    then show ?thesis using registry_step.give_up [of "registry_of s"] by (simp add: registry_of_def)
  qed (use run in \<open>simp add: add_slow_cases [OF None]\<close>)
next
  case (Some c)
  then show ?thesis using run by (simp add: add_slow_def)
qed

lemma run_thread_refines:
  assumes ok: "registry_ok s" and thr: "thread_ok s t" and run: "run_thread L K engage shInf t s = Ok (t', s')"
  shows "registry_of s' = registry_of s \<or> registry_step (registry_of s) (registry_of s')"
proof (cases t)
  case (Add_Slow n)
  then obtain r where "add_slow L K n s = Ok (r, s')" using run by (auto split: outcome.splits)
  then show ?thesis by (rule add_slow_refines [OF ok])
next
  case (Add_Fail n cl)
  then have "s' = add_undo n cl s" and "owned s n (fst cl)" using run thr by simp_all
  then show ?thesis using registry_of_drop [OF ok] add_undo_cases [OF ok] by simp
next
  case (Del_Commit n)
  then show ?thesis
    using run registry_of_drop [OF ok] by (auto simp: delete_commit_cases split: option.splits)
qed (use run in \<open>auto simp: delete_check_def Let_def split: option.splits outcome.splits\<close>)

interpretation provider_refinement: refinement "sys_init p" "sys_step L K engage"
    registry_init registry_step "\<lambda>\<sigma>. registry_of (sys_state \<sigma>)"
  for p L and K :: "'a cluster_lib_scheme" and engage
proof
  fix \<sigma> assume "sys_init p \<sigma>"
  then show "registry_init (registry_of (sys_state \<sigma>))" by (auto simp: sys_init_def registry_of_start)
next
  fix \<sigma> \<sigma>' assume reach: "reachable (sys_init p) (sys_step L K engage) \<sigma>" and step: "sys_step L K engage \<sigma> \<sigma>'"
  have inv: "sys_inv engage \<sigma>" by (rule conc.inv_reachable [OF reach])
  from step show "registry_of (sys_state \<sigma>') = registry_of (sys_state \<sigma>) \<or>
      registry_step (registry_of (sys_state \<sigma>)) (registry_of (sys_state \<sigma>'))"
  proof cases
    case (thread_step i shInf t s)
    then show ?thesis
      using run_thread_refines [OF _ _ thread_step(3)] inv by (simp add: sys_inv_def)
  qed simp_all
qed

text \<open>
  C2. The provider is a registry. Under every interleaving of its handlers, each run of the
  provider is, seen through its table of cancel functions, a run of the abstract registry,
  from any reachable state on; \<open>Get\<close> answers exactly for the entries of that table; and a
  context that is no longer registered never becomes registered again, so an engagement that
  ended is not revived.
\<close>

theorem provider_refines_registry:
  assumes "reachable (sys_init p) (sys_step L K engage) \<sigma>" and "(sys_step L K engage)\<^sup>*\<^sup>* \<sigma> \<sigma>'"
  shows "reachable registry_init registry_step (registry_of (sys_state \<sigma>)) \<and>
    registry_step\<^sup>*\<^sup>* (registry_of (sys_state \<sigma>)) (registry_of (sys_state \<sigma>')) \<and>
    (\<forall>n. (\<exists>cl. Provider_Get (sys_state \<sigma>') n = Ok cl) \<longleftrightarrow> reg_table (registry_of (sys_state \<sigma>')) n \<noteq> None) \<and>
    (\<forall>c < next_ctx (sys_state \<sigma>). c \<notin> ran (cancelFns (sys_state \<sigma>)) \<longrightarrow> c \<notin> ran (cancelFns (sys_state \<sigma>')))"
proof -
  have steps: "registry_step\<^sup>*\<^sup>* (registry_of (sys_state \<sigma>)) (registry_of (sys_state \<sigma>'))"
    using assms(2,1) by (rule provider_refinement.abs_steps)
  have "sys_inv engage \<sigma>'" by (rule conc.inv_reachable [OF reachable_steps [OF assms]])
  then have "registry_ok (sys_state \<sigma>')" by (simp add: sys_inv_def)
  then have "(\<exists>cl. Provider_Get (sys_state \<sigma>') n = Ok cl) \<longleftrightarrow> reg_table (registry_of (sys_state \<sigma>')) n \<noteq> None" for n
    using registered_iff [of "sys_state \<sigma>'" n] by (auto simp: Provider_Get_def registry_of_def split: option.split)
  moreover have "c \<notin> ran (cancelFns (sys_state \<sigma>'))"
    if "c < next_ctx (sys_state \<sigma>)" "c \<notin> ran (cancelFns (sys_state \<sigma>))" for c
    using registry_steps_retired [OF steps, of c] that by (simp add: registry_of_def)
  ultimately show ?thesis using provider_refinement.abs_reachable [OF assms(1)] steps by blast
qed

theorem provider_refines_registry_witness:
  "reachable registry_init registry_step (registry_of (sys_state race_start)) \<and>
   registry_step\<^sup>*\<^sup>* (registry_of (sys_state race_start)) (registry_of (sys_state race_end)) \<and>
   reg_table (registry_of (sys_state race_end)) ''c1'' = Some 0"
  using provider_refines_registry [OF reachable_init [where init = "sys_init sample_provider", OF race_init]
      run_schedule_steps [OF race_runs]]
  by (simp add: registry_of_def race_end_def engaged_state_def)

end
