(* ===== verification/Provider_Locks.thy ===== *)
theory Provider_Locks
  imports Provider_Concurrent
begin

text \<open>
  The handlers and \<open>Get\<close> with the mutex of the provider: every call of \<open>Lock\<close>, \<open>Unlock\<close>,
  \<open>RLock\<close> and \<open>RUnlock\<close>, every read and every write of the maps in \<open>provider.go\<close> is a step of its
  own, and a goroutine that waits for the lock is blocked. Two things are shown: the critical
  sections are atomic, so that this system refines the one of \<open>Provider_Concurrent\<close>, whose steps
  are whole sections; and no goroutine waits for ever, since every path through a handler gives
  the lock back.
\<close>

section \<open>The read-write mutex\<close>

text \<open>
  \<open>sync.RWMutex\<close>: whether a writer holds it, the number of readers that hold it, and the number of
  calls of \<open>Lock\<close> that wait. \<open>Lock\<close> has two steps, the call and its return. Whether a call of \<open>RLock\<close>
  gets through while a writer waits is up to the implementation, \<open>grant\<close>: it does when nobody
  holds or waits for the lock as a writer, and does not while a writer holds it.
\<close>

record rwmutex =
  w_held :: bool
  r_count :: nat
  w_waiting :: nat

definition free_mutex :: rwmutex where
  "free_mutex = \<lparr>w_held = False, r_count = 0, w_waiting = 0\<rparr>"

definition rwmutex_ok :: "(rwmutex \<Rightarrow> bool) \<Rightarrow> bool" where
  "rwmutex_ok grant \<longleftrightarrow>
     (\<forall>m. \<not> w_held m \<and> w_waiting m = 0 \<longrightarrow> grant m) \<and> (\<forall>m. grant m \<longrightarrow> \<not> w_held m)"

definition writers_first :: "rwmutex \<Rightarrow> bool" where
  "writers_first m \<longleftrightarrow> \<not> w_held m \<and> w_waiting m = 0"

lemma writers_first_ok: "rwmutex_ok writers_first"
  by (simp add: rwmutex_ok_def writers_first_def)

section \<open>Program points\<close>

text \<open>
  The point a goroutine has reached. The first five are calls of the mutex with the point after
  them, \<open>Waiting\<close> a call of \<open>Lock\<close> that has not returned. Then the points of \<open>AddFunc\<close>, of
  \<open>DeleteFunc\<close> and of \<open>Get\<close>, in the order of the code. \<open>Returned_Get\<close> holds the result of \<open>Get\<close>.
\<close>

datatype point =
    RLock point | RUnlock point | Lock point | Waiting_Lock point | Unlock point
  | Add_Begin any
  | Fast_Read any string
  | Slow_Check string
  | Slow_Make string
  | Slow_Cancel nat
  | Slow_PutCluster string "nat \<times> scopedCluster"
  | Slow_PutCancel string "nat \<times> scopedCluster"
  | Engage_Call string "nat \<times> scopedCluster"
  | Undo_Cancel string "nat \<times> scopedCluster"
  | Undo_Check string "nat \<times> scopedCluster"
  | Undo_DelCluster string
  | Undo_DelCancel string
  | Del_Begin any
  | Del_Check string
  | Del_Cancel string nat
  | Del_DelCancel string
  | Del_DelCluster string
  | Get_Read string
  | Returned_Get "(nat \<times> scopedCluster) outcome"
  | Done

text \<open>One step of a goroutine between two calls of the mutex.\<close>

fun code_step ::
  "kcp_lib \<Rightarrow> 'a cluster_lib_scheme \<Rightarrow> manager \<Rightarrow> indexer option \<Rightarrow> point \<Rightarrow> provider_state \<Rightarrow>
   (point \<times> provider_state) outcome" where
  "code_step L K engage shInf (Add_Begin obj) s =
     (case as_client_Object obj of
        None \<Rightarrow> Ok (Done, log_add (LogError ''unexpected object type'' None (any_type_name obj)) s)
      | Some cobj \<Rightarrow> Ok (RLock (Fast_Read obj (lc_From L cobj)), s))"
| "code_step L K engage shInf (Fast_Read obj n) s =
     Ok (if clusters s n \<noteq> None then RUnlock Done else RUnlock (Lock (Slow_Check n)), s)"
| "code_step L K engage shInf (Slow_Check n) s =
     Ok (if clusters s n \<noteq> None then Unlock Done else Slow_Make n, s)"
| "code_step L K engage shInf (Slow_Make n) s =
     (let ctx = next_ctx s;
          s = s\<lparr>next_ctx := Suc ctx\<rparr>
      in case newScopedCluster L K (config s) n (pcache s) (pscheme s) of
           Panic p \<Rightarrow> Panic p
         | Err err \<Rightarrow> Ok (Slow_Cancel ctx, log_add (LogError ''failed to create cluster'' (Some err) n) s)
         | Ok cl \<Rightarrow> Ok (Slow_PutCluster n (ctx, cl), s))"
| "code_step L K engage shInf (Slow_Cancel ctx) s = Ok (Unlock Done, cancel ctx s)"
| "code_step L K engage shInf (Slow_PutCluster n cl) s =
     Ok (Slow_PutCancel n cl, s\<lparr>clusters := (clusters s)(n \<mapsto> cl)\<rparr>)"
| "code_step L K engage shInf (Slow_PutCancel n cl) s =
     Ok (Unlock (Engage_Call n cl), s\<lparr>cancelFns := (cancelFns s)(n \<mapsto> fst cl)\<rparr>)"
| "code_step L K engage shInf (Engage_Call n cl) s =
     Ok (if engage_fails engage n cl then Lock (Undo_Cancel n cl) else Done, add_engage engage n cl s)"
| "code_step L K engage shInf (Undo_Cancel n cl) s = Ok (Undo_Check n cl, cancel (fst cl) s)"
| "code_step L K engage shInf (Undo_Check n cl) s =
     Ok (if map_option fst (clusters s n) = Some (fst cl) then Undo_DelCluster n else Unlock Done, s)"
| "code_step L K engage shInf (Undo_DelCluster n) s =
     Ok (Undo_DelCancel n, s\<lparr>clusters := (clusters s)(n := None)\<rparr>)"
| "code_step L K engage shInf (Undo_DelCancel n) s =
     Ok (Unlock Done, s\<lparr>cancelFns := (cancelFns s)(n := None)\<rparr>)"
| "code_step L K engage shInf (Del_Begin obj) s =
     (case delete_check L shInf obj s of
        Panic p \<Rightarrow> Panic p
      | Err err \<Rightarrow> Err err
      | Ok (r, s) \<Rightarrow> Ok (case r of None \<Rightarrow> Done | Some n \<Rightarrow> Lock (Del_Check n), s))"
| "code_step L K engage shInf (Del_Check n) s =
     (case cancelFns s n of
        None \<Rightarrow> Ok (Unlock Done, s)
      | Some ctx \<Rightarrow> Ok (Del_Cancel n ctx, log_add (LogInfo ''disengaging cluster'' n) s))"
| "code_step L K engage shInf (Del_Cancel n ctx) s = Ok (Del_DelCancel n, cancel ctx s)"
| "code_step L K engage shInf (Del_DelCancel n) s =
     Ok (Del_DelCluster n, s\<lparr>cancelFns := (cancelFns s)(n := None)\<rparr>)"
| "code_step L K engage shInf (Del_DelCluster n) s =
     Ok (Unlock Done, s\<lparr>clusters := (clusters s)(n := None)\<rparr>)"
| "code_step L K engage shInf (Get_Read n) s = Ok (RUnlock (Returned_Get (Provider_Get s n)), s)"
| "code_step L K engage shInf p s = Ok (p, s)"

fun returned :: "point \<Rightarrow> bool" where
  "returned Done = True"
| "returned (Returned_Get r) = True"
| "returned _ = False"

text \<open>
  One step of a goroutine: \<open>None\<close> where it is blocked or has returned. To unlock a mutex that is
  not locked is a fatal error of Go's run time.
\<close>

fun goroutine_step ::
  "(rwmutex \<Rightarrow> bool) \<Rightarrow> kcp_lib \<Rightarrow> 'a cluster_lib_scheme \<Rightarrow> manager \<Rightarrow> indexer option \<Rightarrow> point \<Rightarrow>
   provider_state \<Rightarrow> rwmutex \<Rightarrow> (point \<times> provider_state \<times> rwmutex) outcome option" where
  "goroutine_step grant L K engage shInf (RLock p) s m =
     (if grant m then Some (Ok (p, s, m\<lparr>r_count := Suc (r_count m)\<rparr>)) else None)"
| "goroutine_step grant L K engage shInf (RUnlock p) s m =
     Some (if r_count m = 0 then Panic ''sync: RUnlock of unlocked RWMutex''
           else Ok (p, s, m\<lparr>r_count := r_count m - 1\<rparr>))"
| "goroutine_step grant L K engage shInf (Lock p) s m =
     Some (Ok (Waiting_Lock p, s, m\<lparr>w_waiting := Suc (w_waiting m)\<rparr>))"
| "goroutine_step grant L K engage shInf (Waiting_Lock p) s m =
     (if \<not> w_held m \<and> r_count m = 0
      then Some (Ok (p, s, m\<lparr>w_held := True, w_waiting := w_waiting m - 1\<rparr>)) else None)"
| "goroutine_step grant L K engage shInf (Unlock p) s m =
     Some (if \<not> w_held m then Panic ''sync: Unlock of unlocked RWMutex''
           else Ok (p, s, m\<lparr>w_held := False\<rparr>))"
| "goroutine_step grant L K engage shInf p s m =
     (if returned p then None
      else Some (case code_step L K engage shInf p s of
                   Panic e \<Rightarrow> Panic e
                 | Err err \<Rightarrow> Err err
                 | Ok (p', s') \<Rightarrow> Ok (p', s', m)))"

section \<open>The system\<close>

text \<open>At any time a new handler or a call of \<open>Get\<close> may start, or a goroutine may take its next step.\<close>

record locked =
  lk_state :: provider_state
  lk_mutex :: rwmutex
  lk_handlers :: "point list"
  lk_gets :: "point list"

definition lk_points :: "locked \<Rightarrow> point list" where
  "lk_points l = lk_handlers l @ lk_gets l"

inductive move_step ::
  "(rwmutex \<Rightarrow> bool) \<Rightarrow> kcp_lib \<Rightarrow> 'a cluster_lib_scheme \<Rightarrow> manager \<Rightarrow> locked \<Rightarrow> locked \<Rightarrow> bool"
  for grant and L :: kcp_lib and K :: "'a cluster_lib_scheme" and engage :: manager where
  handler_moves: "i < length (lk_handlers l) \<Longrightarrow>
    goroutine_step grant L K engage shInf (lk_handlers l ! i) (lk_state l) (lk_mutex l) = Some (Ok (p, s, m)) \<Longrightarrow>
    move_step grant L K engage l
      (l\<lparr>lk_state := s, lk_mutex := m, lk_handlers := (lk_handlers l)[i := p]\<rparr>)"
| get_moves: "i < length (lk_gets l) \<Longrightarrow>
    goroutine_step grant L K engage shInf (lk_gets l ! i) (lk_state l) (lk_mutex l) = Some (Ok (p, s, m)) \<Longrightarrow>
    move_step grant L K engage l
      (l\<lparr>lk_state := s, lk_mutex := m, lk_gets := (lk_gets l)[i := p]\<rparr>)"

inductive lk_step ::
  "(rwmutex \<Rightarrow> bool) \<Rightarrow> kcp_lib \<Rightarrow> 'a cluster_lib_scheme \<Rightarrow> manager \<Rightarrow> locked \<Rightarrow> locked \<Rightarrow> bool"
  for grant and L :: kcp_lib and K :: "'a cluster_lib_scheme" and engage :: manager where
  add_arrives: "lk_step grant L K engage l (l\<lparr>lk_handlers := lk_handlers l @ [Add_Begin obj]\<rparr>)"
| delete_arrives: "lk_step grant L K engage l (l\<lparr>lk_handlers := lk_handlers l @ [Del_Begin obj]\<rparr>)"
| get_arrives: "lk_step grant L K engage l (l\<lparr>lk_gets := lk_gets l @ [RLock (Get_Read n)]\<rparr>)"
| moves: "move_step grant L K engage l l' \<Longrightarrow> lk_step grant L K engage l l'"

definition lk_init :: "(rwmutex \<Rightarrow> bool) \<Rightarrow> Provider \<Rightarrow> locked \<Rightarrow> bool" where
  "lk_init grant p l \<longleftrightarrow> rwmutex_ok grant \<and> clusters p = Map.empty \<and> cancelFns p = Map.empty \<and>
     l = \<lparr>lk_state = start_state p, lk_mutex = free_mutex, lk_handlers = [], lk_gets = []\<rparr>"

section \<open>Who holds the lock\<close>

fun writing :: "point \<Rightarrow> bool" where
  "writing (Unlock p) = True"
| "writing (Slow_Check n) = True"
| "writing (Slow_Make n) = True"
| "writing (Slow_Cancel ctx) = True"
| "writing (Slow_PutCluster n cl) = True"
| "writing (Slow_PutCancel n cl) = True"
| "writing (Undo_Cancel n cl) = True"
| "writing (Undo_Check n cl) = True"
| "writing (Undo_DelCluster n) = True"
| "writing (Undo_DelCancel n) = True"
| "writing (Del_Check n) = True"
| "writing (Del_Cancel n ctx) = True"
| "writing (Del_DelCancel n) = True"
| "writing (Del_DelCluster n) = True"
| "writing _ = False"

fun reading :: "point \<Rightarrow> bool" where
  "reading (RUnlock p) = True"
| "reading (Fast_Read obj n) = True"
| "reading (Get_Read n) = True"
| "reading _ = False"

fun waiting :: "point \<Rightarrow> bool" where
  "waiting (Waiting_Lock p) = True"
| "waiting _ = False"

text \<open>
  The points a goroutine can be at: a lock is taken for the beginning of a section and given back
  outside of all sections.
\<close>

fun point_ok :: "kcp_lib \<Rightarrow> point \<Rightarrow> bool" where
  "point_ok L (RLock p) \<longleftrightarrow> reading p \<and> (\<forall>q. p \<noteq> RUnlock q) \<and> point_ok L p"
| "point_ok L (RUnlock p) \<longleftrightarrow> \<not> reading p \<and> \<not> writing p \<and> \<not> waiting p \<and> point_ok L p"
| "point_ok L (Lock p) \<longleftrightarrow> (\<exists>n cl. p = Slow_Check n \<or> p = Undo_Cancel n cl \<or> p = Del_Check n)"
| "point_ok L (Waiting_Lock p) \<longleftrightarrow> (\<exists>n cl. p = Slow_Check n \<or> p = Undo_Cancel n cl \<or> p = Del_Check n)"
| "point_ok L (Unlock p) \<longleftrightarrow> \<not> reading p \<and> \<not> writing p \<and> \<not> waiting p \<and> point_ok L p"
| "point_ok L (Fast_Read obj n) \<longleftrightarrow> (\<exists>m. as_client_Object obj = Some m \<and> lc_From L m = n)"
| "point_ok L _ \<longleftrightarrow> True"

fun get_point :: "point \<Rightarrow> bool" where
  "get_point (RLock p) \<longleftrightarrow> get_point p"
| "get_point (RUnlock p) \<longleftrightarrow> (\<exists>r. p = Returned_Get r)"
| "get_point (Get_Read n) \<longleftrightarrow> True"
| "get_point (Returned_Get r) \<longleftrightarrow> True"
| "get_point _ \<longleftrightarrow> False"

text \<open>The mutex agrees with the points: one writer at most, and no reader beside it.\<close>

definition how_many :: "('b \<Rightarrow> bool) \<Rightarrow> 'b list \<Rightarrow> nat" where
  "how_many P xs = length (filter P xs)"

definition mutex_ok :: "rwmutex \<Rightarrow> point list \<Rightarrow> bool" where
  "mutex_ok m ps \<longleftrightarrow> how_many writing ps = (if w_held m then 1 else 0) \<and> how_many reading ps = r_count m \<and>
     how_many waiting ps = w_waiting m \<and> (w_held m \<longrightarrow> r_count m = 0)"

definition lk_inv :: "(rwmutex \<Rightarrow> bool) \<Rightarrow> kcp_lib \<Rightarrow> locked \<Rightarrow> bool" where
  "lk_inv grant L l \<longleftrightarrow> rwmutex_ok grant \<and> mutex_ok (lk_mutex l) (lk_points l) \<and>
     (\<forall>p \<in> set (lk_points l). point_ok L p) \<and> (\<forall>p \<in> set (lk_gets l). get_point p) \<and>
     (\<forall>n. Slow_Make n \<in> set (lk_points l) \<longrightarrow> clusters (lk_state l) n = None)"

lemma how_many_simps [simp]:
  "how_many P [] = 0" "how_many P (x # xs) = (if P x then Suc (how_many P xs) else how_many P xs)"
  "how_many P (xs @ ys) = how_many P xs + how_many P ys"
  by (simp_all add: how_many_def)

lemma how_many_update:
  "i < length xs \<Longrightarrow>
   how_many P (xs[i := y]) + (if P (xs ! i) then 1 else 0) = how_many P xs + (if P y then 1 else 0)"
proof (induction xs arbitrary: i)
  case (Cons x xs)
  then show ?case by (cases i) auto
qed simp

lemma how_many_pos: "i < length xs \<Longrightarrow> P (xs ! i) \<Longrightarrow> 0 < how_many P xs"
  using nth_mem [of i xs] by (auto simp: how_many_def filter_empty_conv)

text \<open>A goroutine is before a call of the mutex, or it has returned, or it runs code.\<close>

fun mutex_call :: "point \<Rightarrow> bool" where
  "mutex_call (RLock p) = True"
| "mutex_call (RUnlock p) = True"
| "mutex_call (Lock p) = True"
| "mutex_call (Waiting_Lock p) = True"
| "mutex_call (Unlock p) = True"
| "mutex_call _ = False"

lemma goroutine_step_code:
  assumes "\<not> mutex_call p"
  shows "goroutine_step grant L K engage shInf p s m = Some (Ok (p', s', m')) \<longleftrightarrow>
    \<not> returned p \<and> m' = m \<and> code_step L K engage shInf p s = Ok (p', s')"
  using assms by (cases p) (auto split: outcome.splits)

lemma code_step_point:
  assumes "code_step L K engage shInf p s = Ok (p', s')" and "\<not> mutex_call p"
  shows "reading p' = reading p \<and> writing p' = writing p \<and> \<not> waiting p' \<and> \<not> waiting p \<and>
    (point_ok L p \<longrightarrow> point_ok L p')"
  using assms
  by (cases p) (auto simp: Let_def split: option.splits outcome.splits if_splits)

lemma goroutine_step_point:
  assumes step: "goroutine_step grant L K engage shInf p s m = Some (Ok (p', s', m'))"
    and ok: "point_ok L p" and grant: "rwmutex_ok grant"
    and held: "reading p \<longrightarrow> 0 < r_count m" "writing p \<longrightarrow> w_held m" "waiting p \<longrightarrow> 0 < w_waiting m"
      "w_held m \<longrightarrow> r_count m = 0"
  shows "point_ok L p' \<and> (w_held m' \<longrightarrow> r_count m' = 0) \<and>
    r_count m' + of_bool (reading p) = r_count m + of_bool (reading p') \<and>
    w_waiting m' + of_bool (waiting p) = w_waiting m + of_bool (waiting p') \<and>
    of_bool (w_held m') + of_bool (writing p) = (of_bool (w_held m) + of_bool (writing p') :: nat)"
proof (cases "mutex_call p")
  case True
  have grantD: "grant m \<longrightarrow> \<not> w_held m" using grant by (simp add: rwmutex_ok_def)
  show ?thesis
  proof (cases p)
    case (RLock q)
    then have "\<not> writing q" "\<not> waiting q" using ok by (cases q; simp)+
    then show ?thesis using RLock step ok grantD by (auto split: if_splits)
  qed (use True step ok held in \<open>auto split: if_splits\<close>)
next
  case False
  then show ?thesis
    using step code_step_point [of L K engage shInf p s p' s'] ok held(4) by (simp add: goroutine_step_code)
qed

lemma mutex_ok_holds:
  assumes "mutex_ok m ps" and "i < length ps"
  shows "reading (ps ! i) \<longrightarrow> 0 < r_count m" "writing (ps ! i) \<longrightarrow> w_held m" "waiting (ps ! i) \<longrightarrow> 0 < w_waiting m"
    "w_held m \<longrightarrow> r_count m = 0"
  using assms how_many_pos [OF assms(2), of reading] how_many_pos [OF assms(2), of writing]
    how_many_pos [OF assms(2), of waiting]
  by (auto simp: mutex_ok_def split: if_splits)

lemma mutex_ok_step:
  assumes ok: "mutex_ok m ps" and i: "i < length ps" and grant: "rwmutex_ok grant" and p: "point_ok L (ps ! i)"
    and step: "goroutine_step grant L K engage shInf (ps ! i) s m = Some (Ok (p', s', m'))"
  shows "mutex_ok m' (ps[i := p'])" and "point_ok L p'"
proof -
  note st = goroutine_step_point [OF step p grant mutex_ok_holds [OF ok i]]
  then show "point_ok L p'" by simp
  show "mutex_ok m' (ps[i := p'])"
    using st ok how_many_update [OF i, of writing p'] how_many_update [OF i, of reading p']
      how_many_update [OF i, of waiting p']
    by (auto simp: mutex_ok_def of_bool_def split: if_splits)
qed

text \<open>A writer is alone, and outside of the sections of a writer the clusters do not change.\<close>

lemma alone:
  assumes "how_many P xs \<le> 1" and "i < length xs" and "j < length xs" and "P (xs ! i)" and "P (xs ! j)"
  shows "i = j"
  using assms
proof (induction xs arbitrary: i j)
  case (Cons x xs)
  show ?case
  proof (cases "P x")
    case True
    then have "\<not> P (xs ! k)" if "k < length xs" for k
      using Cons.prems(1) how_many_pos [OF that, of P] by auto
    then show ?thesis using Cons.prems by (cases i; cases j) auto
  next
    case False
    then show ?thesis using Cons by (cases i; cases j) auto
  qed
qed simp

lemma code_step_frame:
  assumes "code_step L K engage shInf p s = Ok (p', s')" and "\<not> writing p"
  shows "clusters s' = clusters s"
  using assms
  by (cases p) (auto simp: delete_check_def Let_def split: outcome.splits option.splits)

lemma goroutine_step_frame:
  assumes "goroutine_step grant L K engage shInf p s m = Some (Ok (p', s', m'))" and "\<not> writing p"
  shows "clusters s' = clusters s"
proof (cases "mutex_call p")
  case True
  then show ?thesis using assms by (cases p) (auto split: if_splits)
next
  case False
  then show ?thesis using assms code_step_frame [of L K engage shInf p s p' s'] by (simp add: goroutine_step_code)
qed

lemma to_Slow_Make:
  assumes "goroutine_step grant L K engage shInf p s m = Some (Ok (Slow_Make n, s', m'))" and "point_ok L p"
  shows "clusters s' n = None"
proof (cases "mutex_call p")
  case True
  then show ?thesis using assms by (cases p) (auto split: if_splits)
next
  case False
  then have "code_step L K engage shInf p s = Ok (Slow_Make n, s')" using assms by (simp add: goroutine_step_code)
  then show ?thesis
    by (cases p) (auto simp: Let_def simp del: not_None_eq split: outcome.splits option.splits if_splits)
qed

text \<open>A step as one of a list of all goroutines, of which only one moves.\<close>

lemma move_stepE:
  assumes "move_step grant L K engage l l'"
  obtains i shInf p where "i < length (lk_points l)"
    "goroutine_step grant L K engage shInf (lk_points l ! i) (lk_state l) (lk_mutex l) =
       Some (Ok (p, lk_state l', lk_mutex l'))"
    "lk_points l' = (lk_points l)[i := p]"
  using assms
proof cases
  case (handler_moves i shInf p s m)
  then show ?thesis using that [of i shInf p] by (simp add: lk_points_def nth_append list_update_append)
next
  case (get_moves i shInf p s m)
  then show ?thesis
    using that [of "length (lk_handlers l) + i" shInf p] by (simp add: lk_points_def nth_append list_update_append)
qed

lemma move_step_points:
  assumes inv: "lk_inv grant L l" and step: "move_step grant L K engage l l'"
  shows "mutex_ok (lk_mutex l') (lk_points l')" and "\<forall>q \<in> set (lk_points l'). point_ok L q"
    and "\<forall>n. Slow_Make n \<in> set (lk_points l') \<longrightarrow> clusters (lk_state l') n = None"
proof -
  let ?ps = "lk_points l"
  obtain i shInf p where i: "i < length ?ps"
    and go: "goroutine_step grant L K engage shInf (?ps ! i) (lk_state l) (lk_mutex l) = Some (Ok (p, lk_state l', lk_mutex l'))"
    and ps': "lk_points l' = ?ps[i := p]"
    using step by (rule move_stepE)
  have ok: "mutex_ok (lk_mutex l) ?ps" and grant: "rwmutex_ok grant" and pi: "point_ok L (?ps ! i)"
    using inv i by (auto simp: lk_inv_def)
  note st = mutex_ok_step [OF ok i grant pi go]
  show "mutex_ok (lk_mutex l') (lk_points l')" using st(1) ps' by simp
  show "\<forall>q \<in> set (lk_points l'). point_ok L q"
    using inv st(2) set_update_subset_insert [of ?ps i p] by (auto simp: ps' lk_inv_def)
  show "\<forall>n. Slow_Make n \<in> set (lk_points l') \<longrightarrow> clusters (lk_state l') n = None"
  proof (intro allI impI)
    fix n assume "Slow_Make n \<in> set (lk_points l')"
    then obtain j where j: "j < length ?ps" "?ps[i := p] ! j = Slow_Make n"
      by (auto simp: ps' in_set_conv_nth)
    show "clusters (lk_state l') n = None"
    proof (cases "j = i")
      case True
      then show ?thesis using j to_Slow_Make go pi by simp
    next
      case False
      then have here: "?ps ! j = Slow_Make n" using j(2) by simp
      have one: "how_many writing ?ps \<le> 1" using ok by (simp add: mutex_ok_def)
      have "\<not> writing (?ps ! i)" using alone [OF one i j(1)] here False by auto
      then have "clusters (lk_state l') = clusters (lk_state l)" using goroutine_step_frame [OF go] by simp
      then show ?thesis using inv here j(1) nth_mem [OF j(1)] by (simp add: lk_inv_def)
    qed
  qed
qed

lemma get_point_step:
  assumes "goroutine_step grant L K engage shInf p s m = Some (Ok (p', s', m'))" and "get_point p"
  shows "get_point p' \<and> s' = s"
  using assms by (cases p) (auto split: if_splits)

lemma lk_step_inv:
  assumes inv: "lk_inv grant L l" and step: "lk_step grant L K engage l l'"
  shows "lk_inv grant L l'"
  using step
proof cases
  case moves
  note pts = move_step_points [OF inv moves]
  have "\<forall>p \<in> set (lk_gets l'). get_point p"
    using moves
  proof cases
    case (handler_moves i shInf p s m)
    then show ?thesis using inv by (simp add: lk_inv_def)
  next
    case (get_moves i shInf p s m)
    have "get_point (lk_gets l ! i)" using inv get_moves(2) by (simp add: lk_inv_def)
    then have "get_point p" using get_point_step [OF get_moves(3)] by simp
    then show ?thesis
      using inv set_update_subset_insert [of "lk_gets l" i p] by (auto simp: get_moves(1) lk_inv_def)
  qed
  with pts inv show ?thesis by (simp add: lk_inv_def)
qed (use inv in \<open>auto simp: lk_inv_def lk_points_def mutex_ok_def\<close>)

interpretation locks: invariant_system "lk_init grant p" "lk_step grant L K engage" "lk_inv grant L"
  for grant p L and K :: "'a cluster_lib_scheme" and engage
proof
  fix l assume "lk_init grant p l"
  then show "lk_inv grant L l" by (auto simp: lk_init_def lk_inv_def lk_points_def mutex_ok_def free_mutex_def)
qed (rule lk_step_inv)

section \<open>Sections are atomic\<close>

text \<open>
  The state of the coarser system. Each goroutine is at the program point of that system where its
  open section ends or, before the step that decides what the section does, where it began; and
  the open section of a writer, if there is one, has done the writes it still has to do.
\<close>

fun thread_of :: "point \<Rightarrow> thread" where
  "thread_of (RLock p) = thread_of p"
| "thread_of (RUnlock p) = thread_of p"
| "thread_of (Lock p) = thread_of p"
| "thread_of (Waiting_Lock p) = thread_of p"
| "thread_of (Unlock p) = thread_of p"
| "thread_of (Add_Begin obj) = Add_Start obj"
| "thread_of (Fast_Read obj n) = Add_Start obj"
| "thread_of (Slow_Check n) = Add_Slow n"
| "thread_of (Slow_Make n) = Add_Slow n"
| "thread_of (Slow_PutCluster n cl) = Add_Engage n cl"
| "thread_of (Slow_PutCancel n cl) = Add_Engage n cl"
| "thread_of (Engage_Call n cl) = Add_Engage n cl"
| "thread_of (Undo_Cancel n cl) = Add_Fail n cl"
| "thread_of (Del_Begin obj) = Del_Start obj"
| "thread_of (Del_Check n) = Del_Commit n"
| "thread_of _ = Finished"

definition forget_cancel :: "string \<Rightarrow> provider_state \<Rightarrow> provider_state" where
  "forget_cancel n s = s\<lparr>cancelFns := (cancelFns s)(n := None)\<rparr>"

definition forget_cluster :: "string \<Rightarrow> provider_state \<Rightarrow> provider_state" where
  "forget_cluster n s = s\<lparr>clusters := (clusters s)(n := None)\<rparr>"

fun completed :: "point \<Rightarrow> provider_state \<Rightarrow> provider_state" where
  "completed (Slow_Cancel ctx) s = cancel ctx s"
| "completed (Slow_PutCluster n cl) s =
     s\<lparr>clusters := (clusters s)(n \<mapsto> cl), cancelFns := (cancelFns s)(n \<mapsto> fst cl)\<rparr>"
| "completed (Slow_PutCancel n cl) s = s\<lparr>cancelFns := (cancelFns s)(n \<mapsto> fst cl)\<rparr>"
| "completed (Undo_Check n cl) s =
     (if map_option fst (clusters s n) = Some (fst cl) then forget_cancel n (forget_cluster n s) else s)"
| "completed (Undo_DelCluster n) s = forget_cancel n (forget_cluster n s)"
| "completed (Undo_DelCancel n) s = forget_cancel n s"
| "completed (Del_Cancel n ctx) s = forget_cluster n (forget_cancel n (cancel ctx s))"
| "completed (Del_DelCancel n) s = forget_cluster n (forget_cancel n s)"
| "completed (Del_DelCluster n) s = forget_cluster n s"
| "completed _ s = s"

definition settled_state :: "point list \<Rightarrow> provider_state \<Rightarrow> provider_state" where
  "settled_state ps s = (case find writing ps of None \<Rightarrow> s | Some p \<Rightarrow> completed p s)"

definition atomic :: "locked \<Rightarrow> system" where
  "atomic l = \<lparr>sys_state = settled_state (lk_points l) (lk_state l), sys_threads = map thread_of (lk_handlers l)\<rparr>"

lemmas forget_defs = forget_cancel_def forget_cluster_def cancel_def

lemma completed_log: "completed q (log_add e s) = log_add e (completed q s)"
  by (cases q) (simp_all add: forget_defs log_add_def)

lemma completed_engage: "completed q (add_engage engage n cl s) = add_engage engage n cl (completed q s)"
  by (cases q) (auto simp: forget_defs add_engage_def log_add_def Let_def split: option.split)

text \<open>What a step of the code is in the coarser system: a step of it, or nothing.\<close>

lemma outer_code_atomic:
  assumes "code_step L K engage shInf p s = Ok (p', s')" and "\<not> mutex_call p" and "\<not> reading p" and "\<not> writing p"
    and "\<not> returned p"
  shows "run_thread L K engage shInf (thread_of p) (completed q s) = Ok (thread_of p', completed q s') \<or>
    thread_of p' = thread_of p \<and> s' = s"
  using assms
  by (cases p) (auto simp: completed_log completed_engage delete_check_def Let_def
      split: option.splits outcome.splits if_splits)

lemma reader_code_atomic:
  assumes "code_step L K engage shInf p s = Ok (p', s')" and "\<not> mutex_call p" and "reading p" and "point_ok L p"
  shows "s' = s \<and> (run_thread L K engage shInf (thread_of p) s = Ok (thread_of p', s) \<or> thread_of p' = thread_of p)"
  using assms by (cases p) (auto simp: add_known_def split: if_splits)

lemma writer_code_atomic:
  assumes "code_step L K engage shInf p s = Ok (p', s')" and "\<not> mutex_call p" and "writing p"
    and "\<forall>n. p = Slow_Make n \<longrightarrow> clusters s n = None"
  shows "run_thread L K engage shInf (thread_of p) (completed p s) = Ok (thread_of p', completed p' s') \<or>
    thread_of p' = thread_of p \<and> completed p' s' = completed p s"
  using assms
  by (cases p) (auto simp: add_slow_cases add_slow_def add_undo_def delete_commit_def forget_defs log_add_def Let_def
      split: option.splits outcome.splits if_splits)

text \<open>The open section, if any, when one goroutine moves.\<close>

lemma find_update_other:
  "i < length xs \<Longrightarrow> \<not> P (xs ! i) \<Longrightarrow> \<not> P y \<Longrightarrow> find P (xs[i := y]) = find P xs"
proof (induction xs arbitrary: i)
  case (Cons x xs)
  then show ?case by (cases i) auto
qed simp

lemma find_only:
  assumes "how_many P xs \<le> 1" and "i < length xs" and "P (xs ! i)"
  shows "find P xs = Some (xs ! i)"
proof -
  have "find P xs \<noteq> None" unfolding find_None_iff using nth_mem [OF assms(2)] assms(3) by blast
  then obtain j where "j < length xs" "P (xs ! j)" "find P xs = Some (xs ! j)"
    by (auto simp: find_Some_iff)
  then show ?thesis using alone [OF assms(1,2) _ assms(3)] by metis
qed

lemma find_absent: "how_many P xs = 0 \<Longrightarrow> find P xs = None"
  by (auto simp: how_many_def find_None_iff filter_empty_conv)

lemma settled_simps:
  assumes "mutex_ok m ps" and "i < length ps"
  shows "writing (ps ! i) \<Longrightarrow> settled_state ps s = completed (ps ! i) s"
    and "\<not> w_held m \<Longrightarrow> settled_state ps s = s"
    and "reading (ps ! i) \<Longrightarrow> settled_state ps s = s"
proof -
  have one: "how_many writing ps \<le> 1" using assms(1) by (simp add: mutex_ok_def)
  show "writing (ps ! i) \<Longrightarrow> settled_state ps s = completed (ps ! i) s"
    using find_only [OF one assms(2)] by (simp add: settled_state_def)
  have free: "settled_state ps s = s" if "\<not> w_held m"
    using find_absent [of writing ps] assms(1) that by (simp add: mutex_ok_def settled_state_def)
  then show "\<not> w_held m \<Longrightarrow> settled_state ps s = s" .
  show "reading (ps ! i) \<Longrightarrow> settled_state ps s = s"
    using free mutex_ok_holds(1,4) [OF assms] by auto
qed

text \<open>\<open>settled_state\<close> is \<open>completed\<close> of some point, whichever goroutine outside of the sections moves.\<close>

lemma settled_outer:
  assumes "i < length ps" and "\<not> writing (ps ! i)" and "\<not> writing p"
  shows "\<exists>q. \<forall>s. settled_state ps s = completed q s \<and> settled_state (ps[i := p]) s = completed q s"
  using find_update_other [OF assms]
  by (cases "find writing ps") (auto simp: settled_state_def intro: exI [of _ Done])

lemma completed_inner [simp]: "mutex_call p \<Longrightarrow> completed p s = s"
  by (cases p) simp_all

text \<open>The calls of the mutex change nothing but the mutex.\<close>

lemma mutex_call_atomic:
  assumes go: "goroutine_step grant L K engage shInf (ps ! i) s m = Some (Ok (p', s', m'))"
    and "mutex_call (ps ! i)" and ok: "mutex_ok m ps" and i: "i < length ps" and pt: "point_ok L (ps ! i)"
    and grant: "rwmutex_ok grant"
  shows "thread_of p' = thread_of (ps ! i) \<and> settled_state (ps[i := p']) s' = settled_state ps s"
proof -
  have ok': "mutex_ok m' (ps[i := p'])" using mutex_ok_step(1) [OF ok i grant pt go] .
  have i': "i < length (ps[i := p'])" using i by simp
  note old = settled_simps [OF ok i]
  note new = settled_simps [OF ok' i', unfolded nth_list_update_eq [OF i]]
  show ?thesis
  proof (cases "ps ! i")
    case (RLock q)
    then have "\<not> w_held m" using go grant by (auto simp: rwmutex_ok_def split: if_splits)
    then show ?thesis using go RLock pt old(2) new(3) by (auto split: if_splits)
  next
    case (RUnlock q)
    then have "\<not> w_held m" using mutex_ok_holds(1,4) [OF ok i] by auto
    then show ?thesis using go RUnlock old(3) new(2) by (auto split: if_splits)
  next
    case (Lock q)
    then have "\<not> writing (ps ! i)" "\<not> writing p'" "s' = s" "p' = Waiting_Lock q" using go by auto
    then show ?thesis using settled_outer [OF i, of p'] Lock by auto
  next
    case (Waiting_Lock q)
    then have q: "writing q" "completed q s = s" "\<not> w_held m" "p' = q" "s' = s"
      using pt go by (auto split: if_splits)
    then show ?thesis using Waiting_Lock old(2) new(1) by simp
  next
    case (Unlock q)
    then show ?thesis using go old(1) new(2) by (auto split: if_splits)
  qed (use assms(2) in simp_all)
qed

lemma goroutine_atomic:
  assumes inv: "lk_inv grant L l" and i: "i < length (lk_points l)"
    and go: "goroutine_step grant L K engage shInf (lk_points l ! i) (lk_state l) (lk_mutex l) = Some (Ok (p', s', m'))"
  shows "run_thread L K engage shInf (thread_of (lk_points l ! i)) (settled_state (lk_points l) (lk_state l)) =
      Ok (thread_of p', settled_state ((lk_points l)[i := p']) s') \<or>
    thread_of p' = thread_of (lk_points l ! i) \<and>
      settled_state ((lk_points l)[i := p']) s' = settled_state (lk_points l) (lk_state l)"
proof -
  let ?ps = "lk_points l" and ?s = "lk_state l"
  let ?p = "?ps ! i"
  have ok: "mutex_ok (lk_mutex l) ?ps" and grant: "rwmutex_ok grant" and pt: "point_ok L ?p"
    using inv i by (auto simp: lk_inv_def)
  have ok': "mutex_ok m' (?ps[i := p'])" using mutex_ok_step(1) [OF ok i grant pt go] .
  have i': "i < length (?ps[i := p'])" using i by simp
  note old = settled_simps [OF ok i]
  note new = settled_simps [OF ok' i', unfolded nth_list_update_eq [OF i]]
  show ?thesis
  proof (cases "mutex_call ?p")
    case True
    then show ?thesis using mutex_call_atomic [OF go True ok i pt grant] by simp
  next
    case False
    then have code: "code_step L K engage shInf ?p ?s = Ok (p', s')" and live: "\<not> returned ?p"
      using go by (simp_all add: goroutine_step_code)
    note same = code_step_point [OF code False]
    consider (w) "writing ?p" | (r) "reading ?p" | (o) "\<not> writing ?p" "\<not> reading ?p" by blast
    then show ?thesis
    proof cases
      case w
      have "\<forall>n. ?p = Slow_Make n \<longrightarrow> clusters ?s n = None"
        using inv nth_mem [OF i] by (auto simp: lk_inv_def)
      then show ?thesis using writer_code_atomic [OF code False w] old(1) new(1) same w by simp
    next
      case r
      then show ?thesis using reader_code_atomic [OF code False r pt] old(3) new(3) same by auto
    next
      case o
      obtain q where "\<forall>s. settled_state ?ps s = completed q s \<and> settled_state (?ps[i := p']) s = completed q s"
        using settled_outer [OF i] same o(1) by blast
      then show ?thesis using outer_code_atomic [OF code False o(2,1) live] by metis
    qed
  qed
qed

lemma get_thread [simp]: "get_point p \<Longrightarrow> thread_of p = Finished"
  by (induction p) auto

lemma find_insert: "\<not> P y \<Longrightarrow> find P (xs @ y # ys) = find P (xs @ ys)"
  by (induction xs) auto

lemma settled_insert: "\<not> writing p \<Longrightarrow> settled_state (ps @ p # qs) s = settled_state (ps @ qs) s"
  by (simp add: settled_state_def find_insert)

lemma atomic_step:
  assumes inv: "lk_inv grant L l" and step: "lk_step grant L K engage l l'"
  shows "atomic l' = atomic l \<or> sys_step L K engage (atomic l) (atomic l')"
  using step
proof cases
  case (add_arrives obj)
  have "atomic l' = (atomic l)\<lparr>sys_threads := sys_threads (atomic l) @ [Add_Start obj]\<rparr>"
    by (simp add: add_arrives atomic_def lk_points_def settled_insert)
  then show ?thesis using start_add [of L K engage "atomic l" obj] by simp
next
  case (delete_arrives obj)
  have "atomic l' = (atomic l)\<lparr>sys_threads := sys_threads (atomic l) @ [Del_Start obj]\<rparr>"
    by (simp add: delete_arrives atomic_def lk_points_def settled_insert)
  then show ?thesis using start_delete [of L K engage "atomic l" obj] by simp
next
  case (get_arrives n)
  then show ?thesis
    using settled_insert [of "RLock (Get_Read n)" "lk_points l" "[]"] by (simp add: atomic_def lk_points_def)
next
  case moves
  then show ?thesis
  proof cases
    case (handler_moves i shInf p s m)
    have i: "i < length (lk_points l)" "lk_points l ! i = lk_handlers l ! i"
      "lk_points l' = (lk_points l)[i := p]"
      using handler_moves(1,2) by (simp_all add: lk_points_def nth_append list_update_append)
    have at': "atomic l' = \<lparr>sys_state = settled_state ((lk_points l)[i := p]) s,
        sys_threads = (sys_threads (atomic l))[i := thread_of p]\<rparr>"
      using handler_moves(1) i(3) by (simp add: atomic_def map_update)
    show ?thesis
      using goroutine_atomic [OF inv i(1) handler_moves(3) [folded i(2)]]
    proof
      assume "run_thread L K engage shInf (thread_of (lk_points l ! i)) (settled_state (lk_points l) (lk_state l)) =
        Ok (thread_of p, settled_state ((lk_points l)[i := p]) s)"
      then have "sys_step L K engage (atomic l) (atomic l')"
        unfolding at' using handler_moves(2) i(2) by (intro thread_step) (simp_all add: atomic_def)
      then show ?thesis ..
    next
      assume same: "thread_of p = thread_of (lk_points l ! i) \<and>
        settled_state ((lk_points l)[i := p]) s = settled_state (lk_points l) (lk_state l)"
      have "(map thread_of (lk_handlers l))[i := thread_of p] = map thread_of (lk_handlers l)"
        using same i(2) handler_moves(2) by (metis length_map list_update_id nth_map)
      then show ?thesis using same at' by (simp add: atomic_def)
    qed
  next
    case (get_moves i shInf p s m)
    let ?j = "length (lk_handlers l) + i"
    have j: "?j < length (lk_points l)" "lk_points l ! ?j = lk_gets l ! i" "lk_points l' = (lk_points l)[?j := p]"
      using get_moves(1,2) by (simp_all add: lk_points_def nth_append list_update_append)
    have here: "get_point (lk_gets l ! i)" using inv get_moves(2) by (simp add: lk_inv_def)
    then have "get_point p" "s = lk_state l" using get_point_step [OF get_moves(3)] by simp_all
    then have "settled_state (lk_points l') s = settled_state (lk_points l) (lk_state l)"
      using goroutine_atomic [OF inv j(1) get_moves(3) [folded j(2)]] here j by auto
    then show ?thesis by (simp add: atomic_def get_moves(1))
  qed
qed

interpretation lock_refinement: refinement "lk_init grant p" "lk_step grant L K engage" "sys_init p"
    "sys_step L K engage" atomic
  for grant p L and K :: "'a cluster_lib_scheme" and engage
proof
  fix l assume "lk_init grant p l"
  then show "sys_init p (atomic l)"
    by (auto simp: lk_init_def sys_init_def atomic_def lk_points_def settled_state_def)
next
  fix l l' assume "reachable (lk_init grant p) (lk_step grant L K engage) l" and "lk_step grant L K engage l l'"
  then show "atomic l' = atomic l \<or> sys_step L K engage (atomic l) (atomic l')"
    using atomic_step locks.inv_reachable by metis
qed

text \<open>
  C6. The critical sections are atomic. With every call of the mutex and every read and write of
  the two maps a step of its own, and with calls of \<open>Get\<close> beside the handlers: at most one
  goroutine is in a section of a writer, and then none in one of a reader; and every execution is one of
  the system whose steps are whole sections, in a state that is the real one whenever no writer
  is in a section, and in particular whenever a reader reads. So what is proved of that system
  holds for what \<open>Get\<close> and the fast path see.
\<close>

theorem sections_are_atomic:
  assumes "reachable (lk_init grant p) (lk_step grant L K engage) l"
    and "(lk_step grant L K engage)\<^sup>*\<^sup>* l l'"
  shows "how_many writing (lk_points l) \<le> 1 \<and>
    (how_many writing (lk_points l) = 0 \<or> how_many reading (lk_points l) = 0) \<and>
    reachable (sys_init p) (sys_step L K engage) (atomic l) \<and>
    (sys_step L K engage)\<^sup>*\<^sup>* (atomic l) (atomic l') \<and>
    (how_many writing (lk_points l) = 0 \<longrightarrow> sys_state (atomic l) = lk_state l) \<and>
    (\<forall>n. Get_Read n \<in> set (lk_points l) \<longrightarrow> sys_state (atomic l) = lk_state l)"
proof -
  have ok: "mutex_ok (lk_mutex l) (lk_points l)"
    using locks.inv_reachable [OF assms(1)] by (simp add: lk_inv_def)
  have free: "sys_state (atomic l) = lk_state l" if "how_many writing (lk_points l) = 0"
    using find_absent [OF that] by (simp add: atomic_def settled_state_def)
  have "sys_state (atomic l) = lk_state l" if "Get_Read n \<in> set (lk_points l)" for n
  proof -
    obtain i where "i < length (lk_points l)" "lk_points l ! i = Get_Read n"
      using \<open>Get_Read n \<in> set (lk_points l)\<close> by (auto simp: in_set_conv_nth)
    then show ?thesis using settled_simps(3) [OF ok, of i] by (simp add: atomic_def)
  qed
  then show ?thesis
    using ok free lock_refinement.abs_reachable [OF assms(1)] lock_refinement.abs_steps [OF assms(2,1)]
    by (auto simp: mutex_ok_def)
qed

text \<open>An execution for the witnesses: an add handler and a call of \<open>Get\<close> have just arrived.\<close>

definition lk_start :: locked where
  "lk_start = \<lparr>lk_state = start_state sample_provider, lk_mutex = free_mutex, lk_handlers = [], lk_gets = []\<rparr>"

definition lk_two :: locked where
  "lk_two = lk_start\<lparr>lk_handlers := [Add_Begin (Obj (sample_object ''c1'' ''d'' ''a''))], lk_gets := [RLock (Get_Read ''c1'')]\<rparr>"

abbreviation sample_lk_step :: "locked \<Rightarrow> locked \<Rightarrow> bool" where
  "sample_lk_step \<equiv> lk_step writers_first documented_lib sample_cluster_lib picky_manager"

lemma lk_start_init: "lk_init writers_first sample_provider lk_start"
  by (simp add: lk_init_def lk_start_def writers_first_ok)

lemma lk_two_steps: "sample_lk_step\<^sup>*\<^sup>* lk_start lk_two"
proof -
  let ?l = "lk_start\<lparr>lk_handlers := lk_handlers lk_start @ [Add_Begin (Obj (sample_object ''c1'' ''d'' ''a''))]\<rparr>"
  have "sample_lk_step lk_start ?l" by (rule add_arrives)
  moreover have "sample_lk_step ?l (?l\<lparr>lk_gets := lk_gets ?l @ [RLock (Get_Read ''c1'')]\<rparr>)" by (rule get_arrives)
  moreover have "?l\<lparr>lk_gets := lk_gets ?l @ [RLock (Get_Read ''c1'')]\<rparr> = lk_two"
    by (simp add: lk_two_def lk_start_def)
  ultimately show ?thesis by (metis converse_rtranclp_into_rtranclp r_into_rtranclp)
qed

lemma lk_two_reachable: "reachable (lk_init writers_first sample_provider) sample_lk_step lk_two"
  by (rule reachable_steps [OF reachable_init lk_two_steps]) (rule lk_start_init)

text \<open>The first handler of a system moves a number of times.\<close>

fun first_moves ::
  "(rwmutex \<Rightarrow> bool) \<Rightarrow> kcp_lib \<Rightarrow> 'a cluster_lib_scheme \<Rightarrow> manager \<Rightarrow> nat \<Rightarrow> locked \<Rightarrow> locked option" where
  "first_moves grant L K engage 0 l = Some l"
| "first_moves grant L K engage (Suc k) l =
     (if lk_handlers l = [] then None
      else (case goroutine_step grant L K engage None (lk_handlers l ! 0) (lk_state l) (lk_mutex l) of
              Some (Ok (p, s, m)) \<Rightarrow>
                first_moves grant L K engage k
                  (l\<lparr>lk_state := s, lk_mutex := m, lk_handlers := (lk_handlers l)[0 := p]\<rparr>)
            | _ \<Rightarrow> None))"

lemma first_moves_steps: "first_moves grant L K engage k l = Some l' \<Longrightarrow> (lk_step grant L K engage)\<^sup>*\<^sup>* l l'"
proof (induction k arbitrary: l)
  case (Suc k)
  then obtain p s m where ne: "0 < length (lk_handlers l)"
    and go: "goroutine_step grant L K engage None (lk_handlers l ! 0) (lk_state l) (lk_mutex l) = Some (Ok (p, s, m))"
    and rest: "first_moves grant L K engage k
      (l\<lparr>lk_state := s, lk_mutex := m, lk_handlers := (lk_handlers l)[0 := p]\<rparr>) = Some l'"
    by (auto split: if_splits option.splits outcome.splits)
  show ?case using moves [OF handler_moves [OF ne go]] Suc.IH [OF rest] by (rule converse_rtranclp_into_rtranclp)
qed simp

text \<open>
  Nine moves on, the add handler of \<open>lk_two\<close> is between its two writes: the cluster is in one map
  and not yet in the other.
\<close>

definition lk_between :: locked where
  "lk_between = lk_two\<lparr>lk_state := (start_state sample_provider)\<lparr>next_ctx := 1,
       clusters := [''c1'' \<mapsto> (0, sample_cluster ''c1'')]\<rparr>,
     lk_mutex := free_mutex\<lparr>w_held := True\<rparr>,
     lk_handlers := [Slow_PutCancel ''c1'' (0, sample_cluster ''c1'')]\<rparr>"

lemma lk_between_moves: "first_moves writers_first documented_lib sample_cluster_lib picky_manager 9 lk_two = Some lk_between"
  using sample_newScopedCluster [OF sample_url_name_ok(1)]
  by (simp add: numeral_nat lk_two_def lk_start_def lk_between_def free_mutex_def writers_first_def Let_def)

theorem sections_are_atomic_witness:
  "cancelFns (lk_state lk_between) ''c1'' = None \<and> cancelFns (sys_state (atomic lk_between)) ''c1'' = Some 0 \<and>
   reachable (sys_init sample_provider) (sys_step documented_lib sample_cluster_lib picky_manager) (atomic lk_between)"
proof -
  have "reachable (lk_init writers_first sample_provider) sample_lk_step lk_between"
    by (rule reachable_steps [OF lk_two_reachable first_moves_steps [OF lk_between_moves]])
  from sections_are_atomic [OF this rtranclp.rtrancl_refl] show ?thesis
    by (simp add: atomic_def settled_state_def lk_points_def) (simp add: lk_between_def)
qed

section \<open>No goroutine waits for ever\<close>

text \<open>The steps a goroutine has left at most.\<close>

fun point_left :: "point \<Rightarrow> nat" where
  "point_left (RLock p) = Suc (point_left p)"
| "point_left (RUnlock p) = Suc (point_left p)"
| "point_left (Lock p) = Suc (Suc (point_left p))"
| "point_left (Waiting_Lock p) = Suc (point_left p)"
| "point_left (Unlock p) = Suc (point_left p)"
| "point_left (Add_Begin obj) = 19"
| "point_left (Fast_Read obj n) = 17"
| "point_left (Slow_Check n) = 13"
| "point_left (Slow_Make n) = 12"
| "point_left (Slow_Cancel ctx) = 2"
| "point_left (Slow_PutCluster n cl) = 11"
| "point_left (Slow_PutCancel n cl) = 10"
| "point_left (Engage_Call n cl) = 8"
| "point_left (Undo_Cancel n cl) = 5"
| "point_left (Undo_Check n cl) = 4"
| "point_left (Undo_DelCluster n) = 3"
| "point_left (Undo_DelCancel n) = 2"
| "point_left (Del_Begin obj) = 8"
| "point_left (Del_Check n) = 5"
| "point_left (Del_Cancel n ctx) = 4"
| "point_left (Del_DelCancel n) = 3"
| "point_left (Del_DelCluster n) = 2"
| "point_left (Get_Read n) = 2"
| "point_left (Returned_Get r) = 0"
| "point_left Done = 0"

definition moves_left :: "locked \<Rightarrow> nat" where
  "moves_left l = sum_list (map point_left (lk_points l))"

lemma code_step_left:
  "code_step L K engage shInf p s = Ok (p', s') \<Longrightarrow> \<not> mutex_call p \<Longrightarrow> \<not> returned p \<Longrightarrow> point_left p' < point_left p"
  by (cases p) (auto simp: Let_def split: option.splits outcome.splits)

lemma goroutine_step_left:
  assumes "goroutine_step grant L K engage shInf p s m = Some (Ok (p', s', m'))"
  shows "point_left p' < point_left p"
proof (cases "mutex_call p")
  case True
  then show ?thesis using assms by (cases p) (auto split: if_splits)
next
  case False
  then show ?thesis using assms code_step_left [of L K engage shInf p s p' s'] by (simp add: goroutine_step_code)
qed

lemma move_step_left:
  assumes "move_step grant L K engage l l'"
  shows "moves_left l' < moves_left l"
proof -
  obtain i shInf p where i: "i < length (lk_points l)"
    and go: "goroutine_step grant L K engage shInf (lk_points l ! i) (lk_state l) (lk_mutex l) =
       Some (Ok (p, lk_state l', lk_mutex l'))" and l': "lk_points l' = (lk_points l)[i := p]"
    using assms by (rule move_stepE)
  let ?xs = "map point_left (lk_points l)"
  have "point_left p < ?xs ! i" using goroutine_step_left [OF go] i by simp
  moreover have "?xs ! i \<le> sum_list ?xs" using i by (intro elem_le_sum_list) simp
  ultimately show ?thesis using i by (simp add: moves_left_def l' map_update sum_list_update)
qed

text \<open>A goroutine dies when its next step is a panic, whatever the index answers.\<close>

definition dies :: "kcp_lib \<Rightarrow> 'a cluster_lib_scheme \<Rightarrow> manager \<Rightarrow> provider_state \<Rightarrow> point \<Rightarrow> bool" where
  "dies L K engage s p \<longleftrightarrow> \<not> mutex_call p \<and> (\<forall>shInf. panics (code_step L K engage shInf p s))"

definition stuck :: "(rwmutex \<Rightarrow> bool) \<Rightarrow> kcp_lib \<Rightarrow> 'a cluster_lib_scheme \<Rightarrow> manager \<Rightarrow> locked \<Rightarrow> bool" where
  "stuck grant L K engage l \<longleftrightarrow> (\<nexists>l'. move_step grant L K engage l l')"

lemma code_step_no_error: "code_step L K engage shInf p s \<noteq> Err e"
  by (cases p) (auto simp: delete_check_def Let_def split: option.split outcome.split)

lemma stuckD:
  assumes "stuck grant L K engage l" and "p \<in> set (lk_points l)"
  shows "goroutine_step grant L K engage shInf p (lk_state l) (lk_mutex l) \<noteq> Some (Ok r)"
proof
  assume step: "goroutine_step grant L K engage shInf p (lk_state l) (lk_mutex l) = Some (Ok r)"
  obtain q s m where r: "r = (q, s, m)" by (cases r)
  have "p \<in> set (lk_handlers l) \<or> p \<in> set (lk_gets l)" using assms(2) by (simp add: lk_points_def)
  then obtain l' where "move_step grant L K engage l l'"
    using handler_moves [of _ l grant L K engage shInf q s m] get_moves [of _ l grant L K engage shInf q s m] step r
    by (metis in_set_conv_nth)
  then show False using assms(1) by (auto simp: stuck_def)
qed

lemma how_many_zero: "how_many P xs = 0 \<longleftrightarrow> (\<forall>x \<in> set xs. \<not> P x)"
  by (auto simp: how_many_def filter_empty_conv)

lemma stuck_points:
  assumes inv: "lk_inv grant L l" and stuck: "stuck grant L K engage l"
    and p: "p \<in> set (lk_points l)" and lives: "\<not> dies L K engage (lk_state l) p"
  shows "\<not> reading p" and "\<not> writing p" and "returned p \<or> waiting p \<or> (\<exists>q. p = RLock q)"
proof -
  obtain i where i: "i < length (lk_points l)" "lk_points l ! i = p" using p by (auto simp: in_set_conv_nth)
  have ok: "mutex_ok (lk_mutex l) (lk_points l)" using inv by (simp add: lk_inv_def)
  note held = mutex_ok_holds [OF ok i(1), unfolded i(2)]
  note no = stuckD [OF stuck p]
  have "returned p" if code: "\<not> mutex_call p"
  proof (rule ccontr)
    assume live: "\<not> returned p"
    obtain shInf where "\<not> panics (code_step L K engage shInf p (lk_state l))"
      using lives code by (auto simp: dies_def)
    then obtain p' s' where "code_step L K engage shInf p (lk_state l) = Ok (p', s')"
      using code_step_no_error [of L K engage shInf p "lk_state l"]
      by (cases "code_step L K engage shInf p (lk_state l)") auto
    then show False
      using no [of shInf "(p', s', lk_mutex l)"] goroutine_step_code [OF code] live by metis
  qed
  then have "returned p \<or> waiting p \<or> (\<exists>q. p = RLock q)"
    using no held by (cases p) fastforce+
  then show "returned p \<or> waiting p \<or> (\<exists>q. p = RLock q)" and "\<not> reading p" and "\<not> writing p"
    by (cases p; auto)+
qed

lemma stuck_done:
  assumes inv: "lk_inv grant L l" and stuck: "stuck grant L K engage l"
    and lives: "\<forall>p \<in> set (lk_points l). \<not> dies L K engage (lk_state l) p"
  shows "(\<forall>p \<in> set (lk_points l). returned p) \<and> lk_mutex l = free_mutex"
proof -
  let ?m = "lk_mutex l" and ?ps = "lk_points l"
  have ok: "mutex_ok ?m ?ps" and grant: "rwmutex_ok grant" using inv by (simp_all add: lk_inv_def)
  note pts = stuck_points [OF inv stuck]
  have "how_many writing ?ps = 0" "how_many reading ?ps = 0" using pts(1,2) lives by (auto simp: how_many_zero)
  then have free: "\<not> w_held ?m" "r_count ?m = 0" using ok by (auto simp: mutex_ok_def split: if_splits)
  have nowait: "\<not> waiting p" if "p \<in> set ?ps" for p
    using stuckD [OF stuck that, of undefined] free by (cases p) auto
  then have "how_many waiting ?ps = 0" by (simp add: how_many_zero)
  then have "w_waiting ?m = 0" using ok by (simp add: mutex_ok_def)
  then have m: "?m = free_mutex" using free by (cases ?m) (simp add: free_mutex_def)
  have "grant ?m" using grant m by (simp add: rwmutex_ok_def free_mutex_def)
  then have "goroutine_step grant L K engage None (RLock q) (lk_state l) ?m =
      Some (Ok (q, lk_state l, ?m\<lparr>r_count := Suc (r_count ?m)\<rparr>))" for q by simp
  then have "p \<noteq> RLock q" if "p \<in> set ?ps" for p q using stuckD [OF stuck that] by metis
  then have "\<forall>p \<in> set ?ps. returned p" using pts(3) lives nowait by blast
  with m show ?thesis by blast
qed

lemma moves_end: "\<exists>l'. (move_step grant L K engage)\<^sup>*\<^sup>* l l' \<and> stuck grant L K engage l'"
proof (induction "moves_left l" arbitrary: l rule: less_induct)
  case less
  show ?case
  proof (cases "stuck grant L K engage l")
    case False
    then obtain l1 where l1: "move_step grant L K engage l l1" by (auto simp: stuck_def)
    then show ?thesis using less [OF move_step_left [OF l1]] by (meson converse_rtranclp_into_rtranclp)
  qed blast
qed

lemma move_steps_bound: "(move_step grant L K engage ^^ k) l l' \<Longrightarrow> k + moves_left l' \<le> moves_left l"
proof (induction k arbitrary: l')
  case (Suc k)
  then obtain l1 where "(move_step grant L K engage ^^ k) l l1" "move_step grant L K engage l1 l'" by auto
  then show ?case using Suc.IH [of l1] move_step_left [of grant L K engage l1 l'] by simp
qed simp

text \<open>A handler takes 19 steps at most, a call of \<open>Get\<close> three.\<close>

definition short_points :: "locked \<Rightarrow> bool" where
  "short_points l \<longleftrightarrow> (\<forall>p \<in> set (lk_handlers l). point_left p \<le> 19) \<and> (\<forall>p \<in> set (lk_gets l). point_left p \<le> 3)"

interpretation short: invariant_system "lk_init grant p" "lk_step grant L K engage" short_points
  for grant p L and K :: "'a cluster_lib_scheme" and engage
proof
  fix l l' assume inv: "short_points l" and "lk_step grant L K engage l l'"
  from this(2) show "short_points l'"
  proof cases
    case moves
    then show ?thesis
    proof cases
      case (handler_moves i shInf p s m)
      have "lk_handlers l ! i \<in> set (lk_handlers l)" using handler_moves(2) by simp
      then have "point_left p \<le> 19" using goroutine_step_left [OF handler_moves(3)] inv by (fastforce simp: short_points_def)
      then show ?thesis
        using inv set_update_subset_insert [of "lk_handlers l" i p] by (auto simp: short_points_def handler_moves(1))
    next
      case (get_moves i shInf p s m)
      have "lk_gets l ! i \<in> set (lk_gets l)" using get_moves(2) by simp
      then have "point_left p \<le> 3" using goroutine_step_left [OF get_moves(3)] inv by (fastforce simp: short_points_def)
      then show ?thesis
        using inv set_update_subset_insert [of "lk_gets l" i p] by (auto simp: short_points_def get_moves(1))
    qed
  qed (use inv in \<open>auto simp: short_points_def\<close>)
qed (auto simp: lk_init_def short_points_def)

lemma sum_list_bound: "(\<forall>x \<in> set xs. f x \<le> (b :: nat)) \<Longrightarrow> sum_list (map f xs) \<le> b * length xs"
  by (induction xs) auto

lemma moves_left_bound: "short_points l \<Longrightarrow> moves_left l \<le> 19 * length (lk_handlers l) + 3 * length (lk_gets l)"
  using sum_list_bound [of "lk_handlers l" point_left 19] sum_list_bound [of "lk_gets l" point_left 3]
  by (auto simp: moves_left_def lk_points_def short_points_def)

lemma move_steps_reachable:
  assumes "reachable (lk_init grant p) (lk_step grant L K engage) l" and "(move_step grant L K engage ^^ k) l l'"
  shows "reachable (lk_init grant p) (lk_step grant L K engage) l'"
proof -
  have "(lk_step grant L K engage)\<^sup>*\<^sup>* l l'"
    using relpowp_imp_rtranclp [OF assms(2)] by (rule mono_rtranclp [rule_format, rotated]) (rule moves)
  then show ?thesis by (rule reachable_steps [OF assms(1)])
qed

text \<open>
  C7. The handlers and the calls of \<open>Get\<close> end, and nobody waits for a lock for ever. From every
  reachable state, whatever the order of the steps, the answers of the store and the preference of
  the mutex: the goroutines take at most 19 steps for each handler and three for each call; the
  mutex is never unlocked without being locked; and where no goroutine can move any more, each
  has returned and the mutex is free, unless one of them panics at its next step.
\<close>

theorem handlers_never_deadlock:
  assumes "reachable (lk_init grant p) (lk_step grant L K engage) l"
    and "(move_step grant L K engage ^^ k) l l'"
  shows "k \<le> 19 * length (lk_handlers l) + 3 * length (lk_gets l) \<and>
    (\<forall>q \<in> set (lk_points l'). mutex_call q \<longrightarrow>
       (\<forall>shInf e. goroutine_step grant L K engage shInf q (lk_state l') (lk_mutex l') \<noteq> Some (Panic e))) \<and>
    (stuck grant L K engage l' \<longrightarrow>
       (\<forall>q \<in> set (lk_points l'). returned q) \<and> lk_mutex l' = free_mutex \<or>
       (\<exists>q \<in> set (lk_points l'). dies L K engage (lk_state l') q)) \<and>
    (\<exists>l''. (move_step grant L K engage)\<^sup>*\<^sup>* l' l'' \<and> stuck grant L K engage l'')"
proof (intro conjI)
  have inv: "lk_inv grant L l'" using locks.inv_reachable [OF move_steps_reachable [OF assms]] .
  show "k \<le> 19 * length (lk_handlers l) + 3 * length (lk_gets l)"
    using move_steps_bound [OF assms(2)] moves_left_bound [OF short.inv_reachable [OF assms(1)]] by simp
  show "\<forall>q \<in> set (lk_points l'). mutex_call q \<longrightarrow>
       (\<forall>shInf e. goroutine_step grant L K engage shInf q (lk_state l') (lk_mutex l') \<noteq> Some (Panic e))"
  proof (intro ballI impI allI)
    fix q shInf e assume "q \<in> set (lk_points l')" and "mutex_call q"
    then obtain i where i: "i < length (lk_points l')" "lk_points l' ! i = q" by (auto simp: in_set_conv_nth)
    have ok: "mutex_ok (lk_mutex l') (lk_points l')" using inv by (simp add: lk_inv_def)
    show "goroutine_step grant L K engage shInf q (lk_state l') (lk_mutex l') \<noteq> Some (Panic e)"
      using mutex_ok_holds [OF ok i(1)] i(2) \<open>mutex_call q\<close> by (cases q) auto
  qed
  show "stuck grant L K engage l' \<longrightarrow> (\<forall>q \<in> set (lk_points l'). returned q) \<and> lk_mutex l' = free_mutex \<or>
       (\<exists>q \<in> set (lk_points l'). dies L K engage (lk_state l') q)"
    using stuck_done [OF inv] by blast
  show "\<exists>l''. (move_step grant L K engage)\<^sup>*\<^sup>* l' l'' \<and> stuck grant L K engage l''" by (rule moves_end)
qed

theorem handlers_never_deadlock_witness:
  "\<exists>l''. (move_step writers_first documented_lib sample_cluster_lib picky_manager)\<^sup>*\<^sup>* lk_two l'' \<and>
     (filter (\<lambda>q. \<not> returned q) (lk_points l'') = [] \<and> lk_mutex l'' = free_mutex \<or>
      (\<exists>q \<in> set (lk_points l''). dies documented_lib sample_cluster_lib picky_manager (lk_state l'') q))"
proof -
  let ?move = "move_step writers_first documented_lib sample_cluster_lib picky_manager"
  have "(?move ^^ 0) lk_two lk_two" by simp
  then obtain l'' where l'': "?move\<^sup>*\<^sup>* lk_two l''" "stuck writers_first documented_lib sample_cluster_lib picky_manager l''"
    using handlers_never_deadlock [OF lk_two_reachable] by blast
  then obtain k where "(?move ^^ k) lk_two l''" by (auto dest: rtranclp_imp_relpowp)
  then show ?thesis
    using handlers_never_deadlock [OF lk_two_reachable] l'' by (metis (mono_tags, lifting) filter_False)
qed

end
