(* ===== verification/Provider_Lifecycle.thy ===== *)
theory Provider_Lifecycle
  imports Provider_Concurrent
begin

text \<open>
  \<open>Provider.Run\<close> as a process beside its event handlers: the wait for the cache to sync, the
  goroutine of the error group that runs the cache, and the tree of contexts. The handlers make
  the context of a cluster below the context of the error group, which is below the caller's, so
  it is done as soon as one of the three is.
\<close>

section \<open>The error group\<close>

text \<open>
  \<open>golang.org/x/sync/errgroup\<close> is a parameter: which results of a goroutine cancel the context
  of the group, whether \<open>Wait\<close> cancels it, and what \<open>Wait\<close> returns for a group of one goroutine
  that ended with a result. Its documentation: the context is cancelled the first time a function
  passed to \<open>Go\<close> returns a non-nil error or the first time \<open>Wait\<close> returns, and \<open>Wait\<close> returns
  the first non-nil error.
\<close>

record errgroup_lib =
  cancels_on :: "go_error option \<Rightarrow> bool"
  Wait_cancels :: bool
  Wait_result :: "go_error option \<Rightarrow> go_error option"

definition errgroup_ok :: "errgroup_lib \<Rightarrow> bool" where
  "errgroup_ok G \<longleftrightarrow>
     (\<forall>r. cancels_on G r \<longleftrightarrow> r \<noteq> None) \<and> Wait_cancels G \<and> (\<forall>r. Wait_result G r = r)"

lemma errgroup_okD:
  assumes "errgroup_ok G"
  shows "cancels_on G r \<longleftrightarrow> r \<noteq> None" "Wait_cancels G" "Wait_result G r = r"
  using assms by (simp_all add: errgroup_ok_def)

definition documented_errgroup :: errgroup_lib where
  "documented_errgroup = \<lparr>cancels_on = (\<lambda>r. r \<noteq> None), Wait_cancels = True, Wait_result = (\<lambda>r. r)\<rparr>"

lemma documented_errgroup_ok: "errgroup_ok documented_errgroup"
  by (simp add: errgroup_ok_def documented_errgroup_def)

section \<open>State\<close>

text \<open>
  Where \<open>Run\<close> is: before \<open>g.Go\<close>, in \<open>WaitForCacheSync\<close>, in \<open>g.Wait\<close>, or returned with its
  result; what became of the goroutine that runs the cache; whether the context \<open>Run\<close> was called
  with is done, and whether the error group cancelled its own; whether the cache has synced; the
  seconds since the start, and the second at which the context of the sync expires.
\<close>

datatype run_phase = Setting_up | Syncing | Waiting | Returned "go_error option"

datatype goroutine = Not_started | Serving | Ended "go_error option"

record life =
  life_sys :: system
  phase :: run_phase
  cache_go :: goroutine
  caller_done :: bool
  group_cancelled :: bool
  cache_synced :: bool
  clock :: nat
  sync_deadline :: "nat option"

definition group_done :: "life \<Rightarrow> bool" where
  "group_done l \<longleftrightarrow> caller_done l \<or> group_cancelled l"

definition ctx_done :: "life \<Rightarrow> nat \<Rightarrow> bool" where
  "ctx_done l ctx \<longleftrightarrow> ctx \<in> cancelled (sys_state (life_sys l)) \<or> group_done l"

text \<open>The context of the sync, below that of the error group, with the timeout.\<close>

definition sync_ctx_done :: "life \<Rightarrow> bool" where
  "sync_ctx_done l \<longleftrightarrow> group_done l \<or> (\<exists>t. sync_deadline l = Some t \<and> t \<le> clock l)"

definition life_init :: "Provider \<Rightarrow> life \<Rightarrow> bool" where
  "life_init p l \<longleftrightarrow> sys_init p (life_sys l) \<and> phase l = Setting_up \<and> cache_go l = Not_started \<and>
     \<not> caller_done l \<and> \<not> group_cancelled l \<and> \<not> cache_synced l"

section \<open>Steps\<close>

text \<open>
  What \<open>Run\<close> itself does at each of its points. \<open>run_Go\<close> is \<open>g.Go\<close>, after the setup, and
  \<open>run_WithTimeout\<close> makes the context of the sync, which expires in 30 seconds;
  \<open>run_WaitForCacheSync\<close> goes on to the wait or returns the error of the sync, whose deferred
  \<open>cancel\<close> concerns the context of the sync alone; \<open>run_Wait\<close> returns once the goroutine has ended.
\<close>

definition run_Go :: "life \<Rightarrow> life" where
  "run_Go l = l\<lparr>cache_go := Serving\<rparr>"

definition run_WithTimeout :: "life \<Rightarrow> life" where
  "run_WithTimeout l = l\<lparr>phase := Syncing, sync_deadline := Some (clock l + 30)\<rparr>"

definition run_WaitForCacheSync :: "bool \<Rightarrow> life \<Rightarrow> life" where
  "run_WaitForCacheSync ok l =
     (if \<not> ok then l\<lparr>phase := Returned (Some sync_error)\<rparr> else l\<lparr>phase := Waiting\<rparr>)"

definition run_Wait :: "errgroup_lib \<Rightarrow> go_error option \<Rightarrow> life \<Rightarrow> life" where
  "run_Wait G r l =
     l\<lparr>phase := Returned (Wait_result G r), group_cancelled := group_cancelled l \<or> Wait_cancels G\<rparr>"

text \<open>The goroutine \<open>p.cache.Start(ctx)\<close> ends with a result.\<close>

definition cache_ends :: "errgroup_lib \<Rightarrow> go_error option \<Rightarrow> life \<Rightarrow> life" where
  "cache_ends G r l =
     l\<lparr>cache_go := Ended r, group_cancelled := group_cancelled l \<or> cancels_on G r\<rparr>"

text \<open>
  The steps of \<open>Run\<close>. A panic of the setup is no step: it takes the process down. The wait for the
  cache returns true once it has synced, and false once its context is done; until then \<open>Run\<close>
  is blocked.
\<close>

inductive run_step ::
  "kcp_lib \<Rightarrow> 'a cluster_lib_scheme \<Rightarrow> manager \<Rightarrow> (nat \<Rightarrow> provider_state informer) \<Rightarrow> informerTracker \<Rightarrow>
   errgroup_lib \<Rightarrow> life \<Rightarrow> life \<Rightarrow> bool"
  for L :: kcp_lib and K :: "'a cluster_lib_scheme" and engage :: manager and informers and tracker
    and G :: errgroup_lib where
  setup_err: "phase l = Setting_up \<Longrightarrow>
    Run_setup L K engage informers tracker (sys_state (life_sys l)) = Err err \<Longrightarrow>
    run_step L K engage informers tracker G l (l\<lparr>phase := Returned (Some err)\<rparr>)"
| setup_ok: "phase l = Setting_up \<Longrightarrow>
    Run_setup L K engage informers tracker (sys_state (life_sys l)) = Ok shInf \<Longrightarrow>
    run_step L K engage informers tracker G l (run_WithTimeout (run_Go l))"
| sync_ok: "phase l = Syncing \<Longrightarrow> cache_synced l \<Longrightarrow>
    run_step L K engage informers tracker G l (run_WaitForCacheSync True l)"
| sync_fails: "phase l = Syncing \<Longrightarrow> sync_ctx_done l \<Longrightarrow>
    run_step L K engage informers tracker G l (run_WaitForCacheSync False l)"
| wait: "phase l = Waiting \<Longrightarrow> cache_go l = Ended r \<Longrightarrow>
    run_step L K engage informers tracker G l (run_Wait G r l)"

text \<open>
  The steps around it: an event handler starts or goes on, which needs the handlers registered,
  the caller cancels the context, the goroutine of the cache ends, a cache that is served has
  synced, or a second goes by.
\<close>

inductive env_step ::
  "kcp_lib \<Rightarrow> 'a cluster_lib_scheme \<Rightarrow> manager \<Rightarrow> errgroup_lib \<Rightarrow> life \<Rightarrow> life \<Rightarrow> bool"
  for L :: kcp_lib and K :: "'a cluster_lib_scheme" and engage :: manager and G :: errgroup_lib where
  handler: "cache_go l \<noteq> Not_started \<Longrightarrow> sys_step L K engage (life_sys l) \<sigma> \<Longrightarrow>
    env_step L K engage G l (l\<lparr>life_sys := \<sigma>\<rparr>)"
| caller: "env_step L K engage G l (l\<lparr>caller_done := True\<rparr>)"
| cache_end: "cache_go l = Serving \<Longrightarrow> env_step L K engage G l (cache_ends G r l)"
| cache_syncs: "cache_go l = Serving \<Longrightarrow> env_step L K engage G l (l\<lparr>cache_synced := True\<rparr>)"
| tick: "env_step L K engage G l (l\<lparr>clock := Suc (clock l)\<rparr>)"

definition life_step ::
  "kcp_lib \<Rightarrow> 'a cluster_lib_scheme \<Rightarrow> manager \<Rightarrow> (nat \<Rightarrow> provider_state informer) \<Rightarrow> informerTracker \<Rightarrow>
   errgroup_lib \<Rightarrow> life \<Rightarrow> life \<Rightarrow> bool" where
  "life_step L K engage informers tracker G l l' \<longleftrightarrow>
     run_step L K engage informers tracker G l l' \<or> env_step L K engage G l l'"

section \<open>The invariant of a run\<close>

text \<open>
  How the phase, the goroutine and the context of the group go together. The group's context
  was cancelled exactly if the goroutine failed or \<open>g.Wait\<close> has returned; before \<open>g.Go\<close> no
  handler has run.
\<close>

fun phase_ok :: "run_phase \<Rightarrow> goroutine \<Rightarrow> bool \<Rightarrow> bool" where
  "phase_ok Setting_up g b \<longleftrightarrow> g = Not_started \<and> \<not> b"
| "phase_ok (Returned r) g b \<longleftrightarrow>
     r \<noteq> None \<and> g = Not_started \<and> \<not> b \<or>
     r = Some sync_error \<and> g \<noteq> Not_started \<and> (b \<longleftrightarrow> (\<exists>e. g = Ended (Some e))) \<or>
     g = Ended r \<and> b"
| "phase_ok _ g b \<longleftrightarrow> g \<noteq> Not_started \<and> (b \<longleftrightarrow> (\<exists>e. g = Ended (Some e)))"

definition life_inv :: "Provider \<Rightarrow> manager \<Rightarrow> life \<Rightarrow> bool" where
  "life_inv p engage l \<longleftrightarrow>
     sys_inv engage (life_sys l) \<and> phase_ok (phase l) (cache_go l) (group_cancelled l) \<and>
     (cache_go l = Not_started \<longrightarrow> sys_init p (life_sys l))"

lemma run_step_inv:
  assumes "errgroup_ok G" and "life_inv p engage l" and "run_step L K engage informers tracker G l l'"
  shows "life_inv p engage l'"
  using assms(3,2)
  by cases (auto simp: life_inv_def run_Go_def run_WithTimeout_def run_WaitForCacheSync_def run_Wait_def errgroup_okD [OF assms(1)])

lemma env_step_inv:
  assumes "errgroup_ok G" and "life_inv p engage l" and "env_step L K engage G l l'"
  shows "life_inv p engage l'"
  using assms(3)
proof cases
  case (handler \<sigma>)
  then show ?thesis using assms(2) conc.inv_step [of engage "life_sys l" L K \<sigma>] by (auto simp: life_inv_def)
next
  case caller
  then show ?thesis using assms(2) by (simp add: life_inv_def)
next
  case (cache_end r)
  then show ?thesis
    using assms(2)
    by (cases "phase l") (auto simp: life_inv_def cache_ends_def errgroup_okD [OF assms(1)])
qed (use assms(2) in \<open>simp_all add: life_inv_def\<close>)

lemma life_system:
  fixes K :: "'a cluster_lib_scheme"
  assumes "errgroup_ok G"
  shows "invariant_system (life_init p) (life_step L K engage informers tracker G) (life_inv p engage)"
proof
  fix l assume "life_init p l"
  then show "life_inv p engage l"
    using conc.inv_init [of p "life_sys l" engage] by (auto simp: life_init_def life_inv_def)
next
  fix l l' assume "life_inv p engage l" and "life_step L K engage informers tracker G l l'"
  then show "life_inv p engage l'"
    using run_step_inv [OF assms] env_step_inv [OF assms] unfolding life_step_def by blast
qed

lemma life_reachable_inv:
  "errgroup_ok G \<Longrightarrow> reachable (life_init p) (life_step L K engage informers tracker G) l \<Longrightarrow> life_inv p engage l"
  by (rule invariant_system.inv_reachable [OF life_system])

text \<open>Steps of the handlers alone, as steps of the system.\<close>

lemma handler_steps:
  assumes "(sys_step L K engage)\<^sup>*\<^sup>* \<sigma> \<sigma>'" and "life_sys l = \<sigma>" and "cache_go l \<noteq> Not_started"
  shows "(life_step L K engage informers tracker G)\<^sup>*\<^sup>* l (l\<lparr>life_sys := \<sigma>'\<rparr>)"
  using assms
proof induction
  case (step \<sigma>1 \<sigma>2)
  have "life_step L K engage informers tracker G (l\<lparr>life_sys := \<sigma>1\<rparr>) (l\<lparr>life_sys := \<sigma>2\<rparr>)"
    using handler [of "l\<lparr>life_sys := \<sigma>1\<rparr>" L K engage \<sigma>2 G] step by (simp add: life_step_def)
  with step show ?case by (meson rtranclp.rtrancl_into_rtrancl)
next
  case base
  then have "l\<lparr>life_sys := \<sigma>\<rparr> = l" by simp
  then show ?case by simp
qed

text \<open>
  C18. How long a cluster lives. In every state of a run, under any interleaving of \<open>Run\<close>, its
  cache, its caller and its handlers: the context of a cluster \<open>Get\<close> returns is done exactly
  if the caller's is, or the cache failed, or \<open>Run\<close> has returned without an error; and what
  \<open>Run\<close> has returned is the result of the cache or the error of the sync.
\<close>

theorem Run_lifetime:
  assumes "errgroup_ok G"
    and "reachable (life_init p) (life_step L K engage informers tracker G) l"
    and "Provider_Get (sys_state (life_sys l)) n = Ok (ctx, cl)"
  shows "(ctx_done l ctx \<longleftrightarrow>
       caller_done l \<or> (\<exists>e. cache_go l = Ended (Some e)) \<or> phase l = Returned None) \<and>
    (\<forall>r. phase l = Returned r \<longrightarrow> r = Some sync_error \<or> cache_go l = Ended r)"
proof -
  have inv: "life_inv p engage l" by (rule life_reachable_inv [OF assms(1,2)])
  have reg: "clusters (sys_state (life_sys l)) n = Some (ctx, cl)"
    using assms(3) by (simp add: Provider_Get_def split: option.splits)
  then have started: "cache_go l \<noteq> Not_started"
    using inv by (auto simp: life_inv_def sys_init_def)
  have "registry_ok (sys_state (life_sys l))" using inv by (simp add: life_inv_def sys_inv_def)
  then have "ctx \<notin> cancelled (sys_state (life_sys l))"
    using reg registry_okD(1) [of "sys_state (life_sys l)" n] registered_live [of "sys_state (life_sys l)" n]
    by (auto simp: live_def)
  then show ?thesis
    using inv started by (cases "phase l") (auto simp: life_inv_def ctx_done_def group_done_def)
qed

text \<open>A run of the sample provider, for the witnesses: up to the sync, and then with one cluster engaged.\<close>

definition life_start :: life where
  "life_start = \<lparr>life_sys = race_start, phase = Setting_up, cache_go = Not_started,
     caller_done = False, group_cancelled = False, cache_synced = False, clock = 0, sync_deadline = None\<rparr>"

definition life_early :: life where
  "life_early = run_WithTimeout (run_Go life_start)"

definition life_syncing :: life where
  "life_syncing = life_early\<lparr>life_sys := race_end\<rparr>"

abbreviation sample_life_step :: "life \<Rightarrow> life \<Rightarrow> bool" where
  "sample_life_step \<equiv> life_step documented_lib sample_cluster_lib picky_manager sample_informers empty_tracker
     documented_errgroup"

lemma life_early_reachable: "reachable (life_init sample_provider) sample_life_step life_early"
proof -
  have init: "life_init sample_provider life_start"
    by (simp add: life_init_def life_start_def race_init)
  have "Run_setup documented_lib sample_cluster_lib picky_manager sample_informers empty_tracker
      (sys_state (life_sys life_start)) = Ok None"
    by (simp add: life_start_def race_start_def sample_Run_setup)
  then have "sample_life_step life_start life_early"
    using setup_ok [of life_start documented_lib sample_cluster_lib picky_manager sample_informers empty_tracker]
    by (simp add: life_step_def life_start_def life_early_def)
  then show ?thesis using reachable_step [OF reachable_init] init by metis
qed

lemma life_syncing_reachable: "reachable (life_init sample_provider) sample_life_step life_syncing"
proof (rule reachable_steps [OF life_early_reachable])
  show "sample_life_step\<^sup>*\<^sup>* life_early life_syncing"
    unfolding life_syncing_def
    by (rule handler_steps [OF run_schedule_steps [OF race_runs]])
      (simp_all add: life_early_def run_WithTimeout_def run_Go_def life_start_def)
qed

lemma life_syncing_Get: "Provider_Get (sys_state (life_sys life_syncing)) ''c1'' = Ok (0, sample_cluster ''c1'')"
  by (simp add: life_syncing_def race_end_def engaged_state_def Provider_Get_def)

theorem Run_lifetime_witness:
  "\<not> ctx_done life_syncing 0"
  using Run_lifetime [OF documented_errgroup_ok life_syncing_reachable life_syncing_Get]
  by (simp add: life_syncing_def life_early_def run_WithTimeout_def run_Go_def life_start_def)

section \<open>A cache that does not sync\<close>

lemma clusters_alive:
  assumes "life_inv p engage l" and "\<not> group_done l"
    and "Provider_Get (sys_state (life_sys l)) n = Ok (ctx, cl)"
  shows "\<not> ctx_done l ctx"
proof -
  have ok: "registry_ok (sys_state (life_sys l))" using assms(1) by (simp add: life_inv_def sys_inv_def)
  have "clusters (sys_state (life_sys l)) n = Some (ctx, cl)"
    using assms(3) by (simp add: Provider_Get_def split: option.splits)
  then have "live (sys_state (life_sys l)) ctx"
    using registry_okD(1) [OF ok, of n] registered_live [OF ok, of n] by simp
  then show ?thesis using assms(2) by (simp add: live_def ctx_done_def)
qed

lemma ticks:
  "(life_step L K engage informers tracker G)\<^sup>*\<^sup>* l (l\<lparr>clock := clock l + k\<rparr>)"
proof (induction k)
  case (Suc k)
  have "life_step L K engage informers tracker G (l\<lparr>clock := clock l + k\<rparr>) (l\<lparr>clock := clock l + Suc k\<rparr>)"
    using tick [of L K engage G "l\<lparr>clock := clock l + k\<rparr>"] by (simp add: life_step_def)
  with Suc show ?case by (rule rtranclp.rtrancl_into_rtrancl)
qed simp

text \<open>A sync that fails by its timeout.\<close>

lemma sync_times_out:
  assumes "phase l = Syncing" and "sync_deadline l = Some t"
  shows "(life_step L K engage informers tracker G)\<^sup>*\<^sup>* l
    (run_WaitForCacheSync False (l\<lparr>clock := clock l + t\<rparr>))"
proof -
  let ?l = "l\<lparr>clock := clock l + t\<rparr>"
  have "life_step L K engage informers tracker G ?l (run_WaitForCacheSync False ?l)"
    using sync_fails [of ?l L K engage informers tracker G] assms by (simp add: life_step_def sync_ctx_done_def)
  with ticks show ?thesis by (rule rtranclp.rtrancl_into_rtrancl)
qed

text \<open>While \<open>Run\<close> waits for the cache it has set a deadline, and it waits for the group only after a sync.\<close>

definition timed_inv :: "(Provider \<Rightarrow> indexer option outcome) \<Rightarrow> Provider \<Rightarrow> life \<Rightarrow> bool" where
  "timed_inv setup_of p l \<longleftrightarrow>
     (phase l = Setting_up \<longrightarrow> sys_init p (life_sys l) \<and> cache_go l = Not_started) \<and>
     (phase l = Syncing \<longrightarrow> cache_go l \<noteq> Not_started \<and> sync_deadline l \<noteq> None) \<and>
     (phase l = Waiting \<longrightarrow> cache_go l \<noteq> Not_started \<and> cache_synced l) \<and>
     (\<forall>r. phase l = Returned r \<longrightarrow> cache_synced l \<or> r = Some sync_error \<or> (\<exists>e. r = Some e \<and> setup_of p = Err e))"

lemma Run_setup_init:
  "sys_init p \<sigma> \<Longrightarrow>
   Run_setup L K engage informers tracker (sys_state \<sigma>) = Run_setup L K engage informers tracker p"
  by (auto simp: sys_init_def)

interpretation timed: invariant_system "life_init p" "life_step L K engage informers tracker G"
    "timed_inv (Run_setup L K engage informers tracker) p"
  for p L and K :: "'a cluster_lib_scheme" and engage informers tracker G
proof
  fix l assume "life_init p l"
  then show "timed_inv (Run_setup L K engage informers tracker) p l" by (simp add: life_init_def timed_inv_def)
next
  fix l l' assume inv: "timed_inv (Run_setup L K engage informers tracker) p l"
    and "life_step L K engage informers tracker G l l'"
  from this(2) consider "run_step L K engage informers tracker G l l'" | "env_step L K engage G l l'"
    by (auto simp: life_step_def)
  then show "timed_inv (Run_setup L K engage informers tracker) p l'"
  proof cases
    case 1
    then show ?thesis
      using inv Run_setup_init [of p "life_sys l" L K engage informers tracker]
      by cases (auto simp: timed_inv_def run_Go_def run_WithTimeout_def run_WaitForCacheSync_def run_Wait_def)
  next
    case 2
    then show ?thesis using inv by cases (auto simp: timed_inv_def cache_ends_def)
  qed
qed

text \<open>
  C19. A sync that fails does not stop the provider. From every point of the wait for the cache
  \<open>Run\<close> can time out, and it returns the error of the sync without a change to the registry and
  without ending the context of its error group: a handler that runs after \<open>Run\<close> has returned
  still does all \<open>AddFunc\<close> does, engaging new clusters, and every cluster \<open>Get\<close> returns then has a
  context that is not done.
\<close>

theorem sync_failure_keeps_serving:
  assumes "errgroup_ok G"
    and "reachable (life_init p) (life_step L K engage informers tracker G) l"
    and "phase l = Syncing" and "\<not> group_done l"
    and "AddFunc L K engage obj (sys_state (life_sys l)) = Ok s"
  shows "\<exists>l1 l2. (life_step L K engage informers tracker G)\<^sup>*\<^sup>* l l1 \<and>
    phase l1 = Returned (Some sync_error) \<and> life_sys l1 = life_sys l \<and> cache_go l1 = cache_go l \<and>
    (life_step L K engage informers tracker G)\<^sup>*\<^sup>* l1 l2 \<and> phase l2 = phase l1 \<and>
    sys_state (life_sys l2) = s \<and>
    (\<forall>n ctx cl. Provider_Get s n = Ok (ctx, cl) \<longrightarrow> \<not> ctx_done l2 ctx)"
proof -
  let ?step = "life_step L K engage informers tracker G"
  have inv: "timed_inv (Run_setup L K engage informers tracker) p l" by (rule timed.inv_reachable [OF assms(2)])
  then obtain t where t: "sync_deadline l = Some t" using assms(3) by (auto simp: timed_inv_def)
  define l1 where "l1 = run_WaitForCacheSync False (l\<lparr>clock := clock l + t\<rparr>)"
  define l2 where "l2 = l1\<lparr>life_sys := \<lparr>sys_state = s, sys_threads = sys_threads (life_sys l) @ [Finished]\<rparr>\<rparr>"
  have l1: "phase l1 = Returned (Some sync_error)" "life_sys l1 = life_sys l" "cache_go l1 = cache_go l"
    by (simp_all add: l1_def run_WaitForCacheSync_def)
  have l2: "phase l2 = phase l1" "sys_state (life_sys l2) = s" "\<not> group_done l2"
    using assms(4) by (simp_all add: l2_def l1_def run_WaitForCacheSync_def group_done_def)
  have first: "?step\<^sup>*\<^sup>* l l1" unfolding l1_def by (rule sync_times_out [OF assms(3) t])
  have "cache_go l \<noteq> Not_started" using inv assms(3) by (simp add: timed_inv_def)
  then have rest: "?step\<^sup>*\<^sup>* l1 l2"
    unfolding l2_def using handler_steps [OF AddFunc_steps [OF assms(5)] l1(2)] l1(3) by simp
  have "reachable (life_init p) ?step l2" using reachable_steps [OF reachable_steps [OF assms(2) first] rest] .
  then have "\<not> ctx_done l2 ctx" if "Provider_Get s n = Ok (ctx, cl)" for n ctx cl
    using clusters_alive [OF life_reachable_inv [OF assms(1)] l2(3)] that l2(2) by simp
  with first rest l1 l2 show ?thesis by blast
qed

text \<open>The first object of a cluster arrives after the sync has timed out.\<close>

theorem sync_failure_keeps_serving_witness:
  "\<exists>l2. sample_life_step\<^sup>*\<^sup>* life_early l2 \<and> phase l2 = Returned (Some sync_error) \<and>
     Provider_Get (sys_state (life_sys life_early)) ''c1'' = Err (Errorf ''cluster %q not found'' [''c1'']) \<and>
     Provider_Get (sys_state (life_sys l2)) ''c1'' = Ok (0, sample_cluster ''c1'') \<and> \<not> ctx_done l2 0"
proof -
  have early: "sys_state (life_sys life_early) = start_state sample_provider" "phase life_early = Syncing"
    "\<not> group_done life_early"
    by (simp_all add: life_early_def run_WithTimeout_def run_Go_def life_start_def race_start_def group_done_def)
  obtain s where add: "AddFunc documented_lib sample_cluster_lib picky_manager (Obj (sample_object ''c1'' ''d'' ''b''))
      (sys_state (life_sys life_early)) = Ok s" and s: "Provider_Get s ''c1'' = Ok (0, sample_cluster ''c1'')"
    using AddFunc_new [of "Obj (sample_object ''c1'' ''d'' ''b'')" "sample_meta ''c1'' ''d'' ''b''" "''c1''"
        documented_lib "start_state sample_provider" sample_cluster_lib picky_manager]
      sample_newScopedCluster [OF sample_url_name_ok(1)]
    by (simp add: early Let_def engage_fails_def picky_manager_def Provider_Get_def)
  have "Provider_Get (sys_state (life_sys life_early)) ''c1'' = Err (Errorf ''cluster %q not found'' [''c1''])"
    by (simp add: early Provider_Get_def)
  then show ?thesis
    using sync_failure_keeps_serving [OF documented_errgroup_ok life_early_reachable early(2,3) add] s
    by (metis rtranclp_trans)
qed

section \<open>Run comes to an end\<close>

text \<open>\<open>Run\<close> takes at most three steps of its own, and no other step moves it.\<close>

fun steps_left :: "run_phase \<Rightarrow> nat" where
  "steps_left Setting_up = 3"
| "steps_left Syncing = 2"
| "steps_left Waiting = 1"
| "steps_left (Returned r) = 0"

lemma run_step_decreases:
  "run_step L K engage informers tracker G l l' \<Longrightarrow> steps_left (phase l') < steps_left (phase l)"
  by (cases rule: run_step.cases)
    (auto simp: run_Go_def run_WithTimeout_def run_WaitForCacheSync_def run_Wait_def)

lemma env_step_keeps:
  "env_step L K engage G l l' \<Longrightarrow>
   phase l' = phase l \<and> sync_deadline l' = sync_deadline l \<and> clock l \<le> clock l' \<and>
   (group_done l \<longrightarrow> group_done l') \<and> (\<forall>r. cache_go l = Ended r \<longrightarrow> cache_go l' = Ended r)"
  by (cases rule: env_step.cases) (auto simp: cache_ends_def group_done_def)

lemma run_step_keeps:
  "run_step L K engage informers tracker G l l' \<Longrightarrow> timed_inv setup_of p l \<Longrightarrow>
   clock l \<le> clock l' \<and> (group_done l \<longrightarrow> group_done l') \<and> (\<forall>r. cache_go l = Ended r \<longrightarrow> cache_go l' = Ended r)"
  by (cases rule: run_step.cases)
    (auto simp: timed_inv_def group_done_def run_Go_def run_WithTimeout_def run_WaitForCacheSync_def run_Wait_def)

text \<open>
  An infinite execution, in which nothing may happen between two moments. Three assumptions on
  it: time goes by; the goroutine of \<open>Run\<close> is scheduled, so that of steps it could take at every
  moment from some moment on it takes one; and \<open>Start\<close> of the cache returns once its context is
  done, as its documentation says.
\<close>

definition execution ::
  "kcp_lib \<Rightarrow> 'a cluster_lib_scheme \<Rightarrow> manager \<Rightarrow> (nat \<Rightarrow> provider_state informer) \<Rightarrow> informerTracker \<Rightarrow>
   errgroup_lib \<Rightarrow> Provider \<Rightarrow> (nat \<Rightarrow> life) \<Rightarrow> bool" where
  "execution L K engage informers tracker G p \<sigma> \<longleftrightarrow> life_init p (\<sigma> 0) \<and>
     (\<forall>i. life_step L K engage informers tracker G (\<sigma> i) (\<sigma> (Suc i)) \<or> \<sigma> (Suc i) = \<sigma> i)"

definition time_passes :: "(nat \<Rightarrow> life) \<Rightarrow> bool" where
  "time_passes \<sigma> \<longleftrightarrow> (\<forall>t. \<exists>i. t \<le> clock (\<sigma> i))"

definition scheduled ::
  "kcp_lib \<Rightarrow> 'a cluster_lib_scheme \<Rightarrow> manager \<Rightarrow> (nat \<Rightarrow> provider_state informer) \<Rightarrow> informerTracker \<Rightarrow>
   errgroup_lib \<Rightarrow> (nat \<Rightarrow> life) \<Rightarrow> bool" where
  "scheduled L K engage informers tracker G \<sigma> \<longleftrightarrow>
     (\<forall>i. (\<forall>j \<ge> i. \<exists>l'. run_step L K engage informers tracker G (\<sigma> j) l') \<longrightarrow>
          (\<exists>j \<ge> i. run_step L K engage informers tracker G (\<sigma> j) (\<sigma> (Suc j))))"

definition Start_returns :: "(nat \<Rightarrow> life) \<Rightarrow> bool" where
  "Start_returns \<sigma> \<longleftrightarrow> (\<forall>i. group_done (\<sigma> i) \<longrightarrow> (\<exists>j \<ge> i. cache_go (\<sigma> j) \<noteq> Serving))"

lemma execution_inv:
  "execution L K engage informers tracker G p \<sigma> \<Longrightarrow> timed_inv (Run_setup L K engage informers tracker) p (\<sigma> i)"
proof (induction i)
  case 0
  then show ?case by (simp add: execution_def timed.inv_init)
next
  case (Suc i)
  then show ?case
    using timed.inv_step [of L K engage informers tracker p "\<sigma> i" G "\<sigma> (Suc i)"] unfolding execution_def by metis
qed

lemma execution_step:
  fixes K :: "'a cluster_lib_scheme"
  assumes ex: "execution L K engage informers tracker G p \<sigma>"
  shows "phase (\<sigma> (Suc i)) = phase (\<sigma> i) \<and> sync_deadline (\<sigma> (Suc i)) = sync_deadline (\<sigma> i) \<or>
      steps_left (phase (\<sigma> (Suc i))) < steps_left (phase (\<sigma> i))"
    and "clock (\<sigma> i) \<le> clock (\<sigma> (Suc i))"
    and "cache_go (\<sigma> i) = Ended r \<Longrightarrow> cache_go (\<sigma> (Suc i)) = Ended r"
    and "group_done (\<sigma> i) \<Longrightarrow> group_done (\<sigma> (Suc i))"
proof -
  note inv = execution_inv [OF ex, of i]
  consider "run_step L K engage informers tracker G (\<sigma> i) (\<sigma> (Suc i))" | "env_step L K engage G (\<sigma> i) (\<sigma> (Suc i))"
    | "\<sigma> (Suc i) = \<sigma> i"
    using ex by (auto simp: execution_def life_step_def)
  then have all: "(phase (\<sigma> (Suc i)) = phase (\<sigma> i) \<and> sync_deadline (\<sigma> (Suc i)) = sync_deadline (\<sigma> i) \<or>
      steps_left (phase (\<sigma> (Suc i))) < steps_left (phase (\<sigma> i))) \<and> clock (\<sigma> i) \<le> clock (\<sigma> (Suc i)) \<and>
      (\<forall>r. cache_go (\<sigma> i) = Ended r \<longrightarrow> cache_go (\<sigma> (Suc i)) = Ended r) \<and>
      (group_done (\<sigma> i) \<longrightarrow> group_done (\<sigma> (Suc i)))"
  proof cases
    case 1
    show ?thesis using run_step_decreases [OF 1] run_step_keeps [OF 1 inv] by simp
  next
    case 2
    show ?thesis using env_step_keeps [OF 2] by simp
  qed simp
  then show "phase (\<sigma> (Suc i)) = phase (\<sigma> i) \<and> sync_deadline (\<sigma> (Suc i)) = sync_deadline (\<sigma> i) \<or>
      steps_left (phase (\<sigma> (Suc i))) < steps_left (phase (\<sigma> i))"
    and "clock (\<sigma> i) \<le> clock (\<sigma> (Suc i))"
    and "cache_go (\<sigma> i) = Ended r \<Longrightarrow> cache_go (\<sigma> (Suc i)) = Ended r"
    and "group_done (\<sigma> i) \<Longrightarrow> group_done (\<sigma> (Suc i))"
    by blast+
qed

lemma clock_mono: "execution L K engage informers tracker G p \<sigma> \<Longrightarrow> i \<le> j \<Longrightarrow> clock (\<sigma> i) \<le> clock (\<sigma> j)"
  by (rule lift_Suc_mono_le) (rule execution_step(2))

lemma ended_stays:
  assumes "execution L K engage informers tracker G p \<sigma>" and "cache_go (\<sigma> i) = Ended r" and "i \<le> j"
  shows "cache_go (\<sigma> j) = Ended r"
  using assms(3,2) by (induction rule: dec_induct) (auto intro: execution_step(3) [OF assms(1)])

lemma deadline_stays:
  assumes ex: "execution L K engage informers tracker G p \<sigma>" and "\<forall>j \<ge> i. phase (\<sigma> j) = ph" and "i \<le> j"
  shows "sync_deadline (\<sigma> j) = sync_deadline (\<sigma> i)"
  using assms(3)
proof (induction rule: dec_induct)
  case (step j)
  have "phase (\<sigma> (Suc j)) = phase (\<sigma> j)" using step(1) assms(2) by simp
  then show ?case using execution_step(1) [OF ex, of j] step by auto
qed simp

text \<open>\<open>Run\<close> leaves a phase in which it can go on from some moment on.\<close>

lemma leaves:
  assumes "execution L K engage informers tracker G p \<sigma>" and sch: "scheduled L K engage informers tracker G \<sigma>"
    and can: "(\<forall>j \<ge> i. phase (\<sigma> j) = ph) \<Longrightarrow>
      \<exists>k \<ge> i. \<forall>j \<ge> k. \<exists>l'. run_step L K engage informers tracker G (\<sigma> j) l'"
  shows "\<exists>j \<ge> i. phase (\<sigma> j) \<noteq> ph"
proof (rule ccontr)
  assume "\<not> (\<exists>j \<ge> i. phase (\<sigma> j) \<noteq> ph)"
  then have stay: "\<forall>j \<ge> i. phase (\<sigma> j) = ph" by blast
  then obtain k where "k \<ge> i" "\<forall>j \<ge> k. \<exists>l'. run_step L K engage informers tracker G (\<sigma> j) l'" using can by blast
  then obtain j where "j \<ge> k" "run_step L K engage informers tracker G (\<sigma> j) (\<sigma> (Suc j))"
    using sch unfolding scheduled_def by blast
  then show False using run_step_decreases stay \<open>k \<ge> i\<close> by (metis le_Suc_eq le_trans less_irrefl)
qed

lemma leaves_setup:
  assumes ex: "execution L K engage informers tracker G p \<sigma>" and "scheduled L K engage informers tracker G \<sigma>"
    and quiet: "\<not> panics (Run_setup L K engage informers tracker p)"
  shows "\<exists>j \<ge> i. phase (\<sigma> j) \<noteq> Setting_up"
proof (rule leaves [OF assms(1,2)])
  assume "\<forall>j \<ge> i. phase (\<sigma> j) = Setting_up"
  moreover have "\<exists>l'. run_step L K engage informers tracker G (\<sigma> j) l'" if "phase (\<sigma> j) = Setting_up" for j
  proof -
    have "Run_setup L K engage informers tracker (sys_state (life_sys (\<sigma> j))) = Run_setup L K engage informers tracker p"
      using execution_inv [OF ex, of j] that by (auto simp: timed_inv_def intro: Run_setup_init)
    note here = this
    show ?thesis
    proof (cases "Run_setup L K engage informers tracker p")
      case (Ok shInf)
      show ?thesis by (rule exI) (rule setup_ok [OF that], simp add: here Ok)
    next
      case (Err err)
      show ?thesis by (rule exI) (rule setup_err [OF that], simp add: here Err)
    next
      case (Panic e)
      then show ?thesis using quiet by simp
    qed
  qed
  ultimately show "\<exists>k \<ge> i. \<forall>j \<ge> k. \<exists>l'. run_step L K engage informers tracker G (\<sigma> j) l'" by blast
qed

lemma leaves_sync:
  assumes ex: "execution L K engage informers tracker G p \<sigma>" and "scheduled L K engage informers tracker G \<sigma>"
    and time: "time_passes \<sigma>"
  shows "\<exists>j \<ge> i. phase (\<sigma> j) \<noteq> Syncing"
proof (rule leaves [OF assms(1,2)])
  assume stay: "\<forall>j \<ge> i. phase (\<sigma> j) = Syncing"
  then obtain t where "sync_deadline (\<sigma> i) = Some t" using execution_inv [OF ex, of i] by (auto simp: timed_inv_def)
  then have t: "sync_deadline (\<sigma> j) = Some t" if "j \<ge> i" for j using deadline_stays [OF ex stay that] by simp
  obtain k where k: "t \<le> clock (\<sigma> k)" using time by (auto simp: time_passes_def)
  have "\<exists>l'. run_step L K engage informers tracker G (\<sigma> j) l'" if "j \<ge> max i k" for j
  proof -
    have "t \<le> clock (\<sigma> j)" using k clock_mono [OF ex, of k j] that by simp
    then have "sync_ctx_done (\<sigma> j)" using t [of j] that by (simp add: sync_ctx_done_def)
    then show ?thesis using sync_fails [of "\<sigma> j"] stay that by (metis max.bounded_iff)
  qed
  then show "\<exists>k \<ge> i. \<forall>j \<ge> k. \<exists>l'. run_step L K engage informers tracker G (\<sigma> j) l'" by (metis max.cobounded1)
qed

lemma leaves_wait:
  assumes ex: "execution L K engage informers tracker G p \<sigma>" and "scheduled L K engage informers tracker G \<sigma>"
    and ended: "cache_go (\<sigma> k) = Ended r"
  shows "\<exists>j \<ge> i. phase (\<sigma> j) \<noteq> Waiting"
proof (rule leaves [OF assms(1,2)])
  assume stay: "\<forall>j \<ge> i. phase (\<sigma> j) = Waiting"
  have "\<exists>l'. run_step L K engage informers tracker G (\<sigma> j) l'" if "j \<ge> max i k" for j
    using wait [of "\<sigma> j" r] ended_stays [OF ex ended, of j] stay that by (metis max.bounded_iff)
  then show "\<exists>k \<ge> i. \<forall>j \<ge> k. \<exists>l'. run_step L K engage informers tracker G (\<sigma> j) l'" by (metis max.cobounded1)
qed

lemma steps_left_mono:
  assumes "execution L K engage informers tracker G p \<sigma>" and "i \<le> j"
  shows "steps_left (phase (\<sigma> j)) \<le> steps_left (phase (\<sigma> i))"
  using assms(2)
proof (induction rule: dec_induct)
  case (step j)
  then show ?case using execution_step(1) [OF assms(1), of j] by auto
qed simp

lemma group_done_stays:
  assumes "execution L K engage informers tracker G p \<sigma>" and "group_done (\<sigma> i)" and "i \<le> j"
  shows "group_done (\<sigma> j)"
  using assms(3,2) by (induction rule: dec_induct) (auto intro: execution_step(4) [OF assms(1)])

lemma reaches_wait:
  assumes ex: "execution L K engage informers tracker G p \<sigma>" and sch: "scheduled L K engage informers tracker G \<sigma>"
    and "time_passes \<sigma>" and "\<not> panics (Run_setup L K engage informers tracker p)"
  shows "\<exists>j. phase (\<sigma> j) = Waiting \<or> (\<exists>r. phase (\<sigma> j) = Returned r)"
proof -
  obtain i where i: "phase (\<sigma> i) \<noteq> Setting_up" using leaves_setup [OF ex sch assms(4)] by blast
  obtain j where j: "i \<le> j" "phase (\<sigma> j) \<noteq> Syncing" using leaves_sync [OF ex sch assms(3)] by blast
  have "phase (\<sigma> j) \<noteq> Setting_up" using steps_left_mono [OF ex j(1)] i by (cases "phase (\<sigma> i)") auto
  with j(2) show ?thesis by (cases "phase (\<sigma> j)") auto
qed

text \<open>
  C20. \<open>Run\<close> comes to an end. In every execution in which time goes by, \<open>Run\<close> is scheduled and the
  cache's \<open>Start\<close> returns when its context is done, and in which the setup does not panic: \<open>Run\<close>
  gets past the wait for the sync, and if the cache never syncs it returns an error, that of the
  sync by its timeout or that of the setup; and once the caller's context is done, or the cache has
  ended, \<open>Run\<close> returns.
\<close>

theorem Run_comes_to_an_end:
  assumes "execution L K engage informers tracker G p \<sigma>" and "scheduled L K engage informers tracker G \<sigma>"
    and "time_passes \<sigma>" and "Start_returns \<sigma>" and "\<not> panics (Run_setup L K engage informers tracker p)"
  shows "(\<exists>i. phase (\<sigma> i) = Waiting \<or> (\<exists>r. phase (\<sigma> i) = Returned r)) \<and>
    ((\<forall>i. \<not> cache_synced (\<sigma> i)) \<longrightarrow>
       (\<exists>i e. phase (\<sigma> i) = Returned (Some e) \<and>
          (e = sync_error \<or> Run_setup L K engage informers tracker p = Err e))) \<and>
    ((\<exists>i. caller_done (\<sigma> i) \<or> (\<exists>r. cache_go (\<sigma> i) = Ended r)) \<longrightarrow> (\<exists>i r. phase (\<sigma> i) = Returned r))"
proof (intro conjI impI)
  note inv = execution_inv [OF assms(1)]
  show past: "\<exists>i. phase (\<sigma> i) = Waiting \<or> (\<exists>r. phase (\<sigma> i) = Returned r)"
    by (rule reaches_wait [OF assms(1,2,3,5)])
  then obtain j where j: "phase (\<sigma> j) = Waiting \<or> (\<exists>r. phase (\<sigma> j) = Returned r)" by blast
  show "\<exists>i e. phase (\<sigma> i) = Returned (Some e) \<and> (e = sync_error \<or> Run_setup L K engage informers tracker p = Err e)"
    if never: "\<forall>i. \<not> cache_synced (\<sigma> i)"
  proof -
    have "\<exists>e. phase (\<sigma> j) = Returned (Some e) \<and> (e = sync_error \<or> Run_setup L K engage informers tracker p = Err e)"
      using j never inv [of j] by (auto simp: timed_inv_def)
    then show ?thesis by blast
  qed
  assume "\<exists>i. caller_done (\<sigma> i) \<or> (\<exists>r. cache_go (\<sigma> i) = Ended r)"
  then obtain i where i: "group_done (\<sigma> i) \<or> (\<exists>r. cache_go (\<sigma> i) = Ended r)" by (auto simp: group_done_def)
  obtain k where k: "j \<le> k" "cache_go (\<sigma> k) \<noteq> Serving"
    using i group_done_stays [OF assms(1), of i "max i j"] ended_stays [OF assms(1), of i _ "max i j"] assms(4)
    unfolding Start_returns_def by (metis goroutine.distinct(5) max.cobounded1 max.cobounded2 max.boundedE)
  have past_sync: "phase (\<sigma> m) = Waiting \<or> (\<exists>r. phase (\<sigma> m) = Returned r)" if "j \<le> m" for m
    using steps_left_mono [OF assms(1) that] j by (cases "phase (\<sigma> m)") auto
  show "\<exists>i r. phase (\<sigma> i) = Returned r"
  proof (cases "cache_go (\<sigma> k)")
    case (Ended r)
    then obtain m where "k \<le> m" "phase (\<sigma> m) \<noteq> Waiting" using leaves_wait [OF assms(1,2)] by blast
    then show ?thesis using past_sync [of m] k(1) by auto
  qed (use k past_sync [OF k(1)] inv [of k] in \<open>auto simp: timed_inv_def\<close>)
qed

text \<open>
  An execution for the witness: the setup, 30 seconds in which nothing but time passes, the error of
  the sync, and then again nothing but time.
\<close>

definition timeline :: "nat \<Rightarrow> life" where
  "timeline i =
     (if i = 0 then life_start
      else if i \<le> 31 then life_early\<lparr>clock := i - 1\<rparr>
      else (run_WaitForCacheSync False life_early)\<lparr>clock := i - 2\<rparr>)"

lemma timeline_sel [simp]:
  "cache_synced (timeline i) = False" "caller_done (timeline i) = False" "group_cancelled (timeline i) = False"
  "31 < i \<Longrightarrow> phase (timeline i) = Returned (Some sync_error)" "clock (timeline (i + 32)) = i + 30"
  by (simp_all add: timeline_def life_early_def life_start_def run_Go_def run_WithTimeout_def run_WaitForCacheSync_def)

lemma timeline_Suc:
  "timeline (Suc i) = (if i = 0 then life_early
     else if i = 31 then run_WaitForCacheSync False (timeline i)
     else (timeline i)\<lparr>clock := Suc (clock (timeline i))\<rparr>)"
  by (auto simp: timeline_def life_early_def life_start_def run_Go_def run_WithTimeout_def run_WaitForCacheSync_def)

lemma timeline_execution:
  "execution documented_lib sample_cluster_lib picky_manager sample_informers empty_tracker documented_errgroup
     sample_provider timeline"
  unfolding execution_def
proof (intro conjI allI)
  show "life_init sample_provider (timeline 0)"
    by (simp add: timeline_def life_init_def life_start_def race_init)
  fix i
  have "sample_life_step (timeline i) (timeline (Suc i))"
  proof -
    consider "i = 0" | "i = 31" | "i \<noteq> 0" "i \<noteq> 31" by blast
    then show ?thesis
    proof cases
      case 1
      have "Run_setup documented_lib sample_cluster_lib picky_manager sample_informers empty_tracker
          (sys_state (life_sys life_start)) = Ok None"
        by (simp add: life_start_def race_start_def sample_Run_setup)
      then have "sample_life_step life_start life_early"
        using setup_ok [of life_start documented_lib sample_cluster_lib picky_manager sample_informers empty_tracker]
        by (simp add: life_step_def life_start_def life_early_def)
      then show ?thesis by (simp add: 1 timeline_Suc timeline_def [of 0])
    next
      case 2
      have "phase (timeline 31) = Syncing" "sync_ctx_done (timeline 31)"
        by (simp_all add: timeline_def sync_ctx_done_def life_early_def run_WithTimeout_def run_Go_def life_start_def)
      then show ?thesis unfolding 2 timeline_Suc life_step_def 
        using sync_fails [of "timeline 31" documented_lib sample_cluster_lib picky_manager sample_informers
            empty_tracker documented_errgroup] by simp
    next
      case 3
      then show ?thesis unfolding life_step_def by (simp add: timeline_Suc tick)
    qed
  qed
  then show "sample_life_step (timeline i) (timeline (Suc i)) \<or> timeline (Suc i) = timeline i" ..
qed

lemma timeline_fair:
  "scheduled documented_lib sample_cluster_lib picky_manager sample_informers empty_tracker documented_errgroup timeline"
  "time_passes timeline" "Start_returns timeline"
proof -
  have stop: "\<not> run_step documented_lib sample_cluster_lib picky_manager sample_informers empty_tracker
      documented_errgroup (timeline (max i 32)) l'" for i l'
    using run_step_decreases [of documented_lib sample_cluster_lib picky_manager sample_informers empty_tracker
        documented_errgroup "timeline (max i 32)" l'] by auto
  then show "scheduled documented_lib sample_cluster_lib picky_manager sample_informers empty_tracker
      documented_errgroup timeline"
    unfolding scheduled_def by (metis max.cobounded1)
  show "time_passes timeline"
    unfolding time_passes_def using timeline_sel(5) by (metis le_add1)
  show "Start_returns timeline" by (simp add: Start_returns_def group_done_def)
qed

theorem Run_comes_to_an_end_witness:
  "\<exists>i. phase (timeline i) = Returned (Some sync_error)"
proof -
  have "\<not> panics (Run_setup documented_lib sample_cluster_lib picky_manager sample_informers empty_tracker sample_provider)"
    by (simp add: sample_Run_setup)
  then show ?thesis
    using Run_comes_to_an_end [OF timeline_execution timeline_fair] by (auto simp: sample_Run_setup)
qed

section \<open>The sequential Run\<close>

lemma synced_run_executes:
  fixes K :: "'a cluster_lib_scheme"
  assumes "phase l = Setting_up"
    and "Run_setup L K engage informers tracker (sys_state (life_sys l)) = Ok shInf"
  shows "\<exists>l'. (life_step L K engage informers tracker G)\<^sup>*\<^sup>* l l' \<and> phase l' = Returned (Some sync_error) \<and>
      cache_go l' = Serving"
    and "\<exists>l'. (life_step L K engage informers tracker G)\<^sup>*\<^sup>* l l' \<and> phase l' = Waiting \<and> cache_go l' = Serving"
proof -
  let ?l0 = "run_WithTimeout (run_Go l)"
  have l0: "phase ?l0 = Syncing" "sync_deadline ?l0 = Some (clock l + 30)" "cache_go ?l0 = Serving"
    by (simp_all add: run_WithTimeout_def run_Go_def)
  have first: "life_step L K engage informers tracker G l ?l0"
    unfolding life_step_def using setup_ok [OF assms] by blast
  show "\<exists>l'. (life_step L K engage informers tracker G)\<^sup>*\<^sup>* l l' \<and> phase l' = Returned (Some sync_error) \<and>
      cache_go l' = Serving"
    by (intro exI conjI) (rule converse_rtranclp_into_rtranclp [OF first sync_times_out [OF l0(1,2)]],
      simp_all add: run_WaitForCacheSync_def l0)
  let ?l1 = "?l0\<lparr>cache_synced := True\<rparr>"
  have "life_step L K engage informers tracker G ?l0 ?l1"
    unfolding life_step_def using cache_syncs [OF l0(3)] by blast
  moreover have "life_step L K engage informers tracker G ?l1 (run_WaitForCacheSync True ?l1)"
    using sync_ok [of ?l1 L K engage informers tracker G] l0(1) by (simp add: life_step_def)
  ultimately have "(life_step L K engage informers tracker G)\<^sup>*\<^sup>* l (run_WaitForCacheSync True ?l1)"
    using first by (meson r_into_rtranclp rtranclp_trans)
  then show "\<exists>l'. (life_step L K engage informers tracker G)\<^sup>*\<^sup>* l l' \<and> phase l' = Waiting \<and> cache_go l' = Serving"
    by (intro exI [of _ "run_WaitForCacheSync True ?l1"]) (simp add: run_WaitForCacheSync_def l0)
qed

lemma waiting_run_executes:
  fixes K :: "'a cluster_lib_scheme"
  assumes "phase l = Waiting" and "cache_go l = Serving"
  shows "(life_step L K engage informers tracker G)\<^sup>*\<^sup>* l (run_Wait G e (cache_ends G e l))"
proof -
  have "life_step L K engage informers tracker G l (cache_ends G e l)"
    unfolding life_step_def using cache_end [OF assms(2)] by blast
  moreover have "life_step L K engage informers tracker G (cache_ends G e l) (run_Wait G e (cache_ends G e l))"
    using wait [of "cache_ends G e l" e L K engage informers tracker G] assms(1)
    by (simp add: life_step_def cache_ends_def)
  ultimately show ?thesis by auto
qed

text \<open>What the function \<open>Run\<close> computes is the result of an execution of the process.\<close>

lemma Run_is_an_execution:
  fixes K :: "'a cluster_lib_scheme"
  assumes "errgroup_ok G" and "life_init p l" and "Run L K engage informers tracker p = Ok r"
  shows "\<exists>l'. (life_step L K engage informers tracker G)\<^sup>*\<^sup>* l l' \<and> phase l' = Returned (run_error r) \<and>
    (cache_go l' \<noteq> Not_started \<longleftrightarrow> cache_started r)"
proof (cases "Run_setup L K engage informers tracker p")
  case (Panic e)
  then show ?thesis using assms(3) by (simp add: Run_def)
next
  case (Err err)
  then have "Run_setup L K engage informers tracker (sys_state (life_sys l)) = Err err"
    and "phase l = Setting_up" and "cache_go l = Not_started"
    using assms(2) by (auto simp: life_init_def sys_init_def)
  moreover have "run_error r = Some err" "\<not> cache_started r" using assms(3) Err by (auto simp: Run_def)
  ultimately show ?thesis
    unfolding life_step_def
    by (intro exI [of _ "l\<lparr>phase := Returned (Some err)\<rparr>"]) (auto intro: setup_err)
next
  case (Ok shInf)
  then have done_setup: "Run_setup L K engage informers tracker (sys_state (life_sys l)) = Ok shInf"
    and start: "phase l = Setting_up"
    using assms(2) by (auto simp: life_init_def sys_init_def)
  note to = synced_run_executes [OF start done_setup, of G]
  show ?thesis
  proof (cases "WaitForCacheSync (wc_Cache (pcache p))")
    case False
    then show ?thesis using to(1) assms(3) Ok by (fastforce simp: Run_def)
  next
    case True
    let ?e = "base_Start (wc_Cache (pcache p))"
    obtain l1 where l1: "(life_step L K engage informers tracker G)\<^sup>*\<^sup>* l l1" "phase l1 = Waiting" "cache_go l1 = Serving"
      using to(2) by blast
    let ?l2 = "run_Wait G ?e (cache_ends G ?e l1)"
    have "(life_step L K engage informers tracker G)\<^sup>*\<^sup>* l ?l2"
      using l1(1) waiting_run_executes [OF l1(2,3)] by (rule rtranclp_trans)
    moreover have "phase ?l2 = Returned ?e" "cache_go ?l2 = Ended ?e"
      using errgroup_okD(3) [OF assms(1)] by (simp_all add: run_Wait_def cache_ends_def)
    moreover have "run_error r = ?e" "cache_started r" using assms(3) Ok True by (auto simp: Run_def)
    ultimately show ?thesis by (intro exI [of _ ?l2]) simp
  qed
qed

end
