(* ===== verification/Go_Flag.thy ===== *)
theory Go_Flag
  imports Prelude
begin

text \<open>
  Package \<open>flag\<close> of Go's standard library (Go 1.23), as the manager command of the CRD example
  uses it: declared flags with their types and defaults, and \<open>FlagSet.Parse\<close> with
  \<open>parseOne\<close>, step by step. Flags that imported packages declare are known by whether they
  are boolean and which values their \<open>Set\<close> accepts.
\<close>

section \<open>Flags\<close>

datatype flag_value = StringV string | BoolV bool

datatype flag_type = StringT | BoolT

fun type_of_value :: "flag_value \<Rightarrow> flag_type" where
  "type_of_value (StringV s) = StringT"
| "type_of_value (BoolV b) = BoolT"

datatype formal =
    OwnFlag flag_type
  | LibraryFlag bool "string \<Rightarrow> bool"

text \<open>The values of the program's own flags, and the settings of the others, in order.\<close>

record flag_state =
  own_values :: "string \<rightharpoonup> flag_value"
  library_settings :: "(string \<times> string) list"

fun IsBoolFlag :: "formal \<Rightarrow> bool" where
  "IsBoolFlag (OwnFlag t) = (t = BoolT)"
| "IsBoolFlag (LibraryFlag b accepts) = b"

section \<open>Setting a flag\<close>

text \<open>\<open>strconv.ParseBool\<close>.\<close>

definition ParseBool :: "string \<Rightarrow> bool option" where
  "ParseBool s =
     (if s \<in> {''1'', ''t'', ''T'', ''true'', ''TRUE'', ''True''} then Some True
      else if s \<in> {''0'', ''f'', ''F'', ''false'', ''FALSE'', ''False''} then Some False
      else None)"

fun Set_flag :: "formal \<Rightarrow> string \<Rightarrow> string \<Rightarrow> flag_state \<Rightarrow> flag_state option" where
  "Set_flag (OwnFlag StringT) name value s =
     Some (s\<lparr>own_values := (own_values s)(name \<mapsto> StringV value)\<rparr>)"
| "Set_flag (OwnFlag BoolT) name value s =
     (case ParseBool value of
        None \<Rightarrow> None
      | Some b \<Rightarrow> Some (s\<lparr>own_values := (own_values s)(name \<mapsto> BoolV b)\<rparr>))"
| "Set_flag (LibraryFlag b accepts) name value s =
     (if accepts value then Some (s\<lparr>library_settings := library_settings s @ [(name, value)]\<rparr>) else None)"

section \<open>Parsing\<close>

abbreviation dash :: char where "dash \<equiv> CHR ''-''"
abbreviation equals :: char where "equals \<equiv> CHR ''=''"

text \<open>The loop that looks for an equals sign from the second character on.\<close>

fun cut_value :: "string \<Rightarrow> string \<times> string option" where
  "cut_value [] = ([], None)"
| "cut_value (c # cs) =
     (if equals \<in> set cs
      then (c # takeWhile (\<lambda>d. d \<noteq> equals) cs, Some (tl (dropWhile (\<lambda>d. d \<noteq> equals) cs)))
      else (c # cs, None))"

text \<open>
  One step: it stops at the arguments that are left, or goes on with a flag set, or ends the
  process for an error or a call for help.
\<close>

datatype parse_step =
    Stop flag_state "string list"
  | More flag_state "string list"
  | Bad go_error
  | Help

definition set_and_go ::
  "formal \<Rightarrow> string \<Rightarrow> string \<Rightarrow> go_error \<Rightarrow> flag_state \<Rightarrow> string list \<Rightarrow> parse_step" where
  "set_and_go f name value err s args =
     (case Set_flag f name value s of
        Some s \<Rightarrow> More s args
      | None \<Rightarrow> Bad err)"

definition bad_value :: "string \<Rightarrow> string \<Rightarrow> go_error" where
  "bad_value name value = Errorf ''invalid value %q for flag -%s: %v'' [value, name]"

fun parseOne :: "(string \<rightharpoonup> formal) \<Rightarrow> flag_state \<Rightarrow> string list \<Rightarrow> parse_step" where
  "parseOne formals st [] = Stop st []"
| "parseOne formals st (s # args) =
     (if length s < 2 \<or> hd s \<noteq> dash then Stop st (s # args)
      else if s = [dash, dash] then Stop st args
      else
        let name = (if s ! 1 = dash then drop 2 s else drop 1 s)
        in if name = '''' \<or> hd name = dash \<or> hd name = equals then Bad (Errorf ''bad flag syntax: %s'' [s])
           else
             let (name, value) = cut_value name
             in case formals name of
                  None \<Rightarrow>
                    if name = ''help'' \<or> name = ''h'' then Help
                    else Bad (Errorf ''flag provided but not defined: -%s'' [name])
                | Some f \<Rightarrow>
                    if IsBoolFlag f
                    then (case value of
                            Some v \<Rightarrow>
                              set_and_go f name v (Errorf ''invalid boolean value %q for -%s: %v'' [v, name]) st args
                          | None \<Rightarrow>
                              set_and_go f name ''true'' (Errorf ''invalid boolean flag %s: %v'' [name]) st args)
                    else (case value of
                            Some v \<Rightarrow> set_and_go f name v (bad_value name v) st args
                          | None \<Rightarrow>
                              (case args of
                                 [] \<Rightarrow> Bad (Errorf ''flag needs an argument: -%s'' [name])
                               | v # args \<Rightarrow> set_and_go f name v (bad_value name v) st args)))"

datatype parse_result =
    Parsed flag_state "string list"
  | ParseError go_error
  | HelpRequested

lemma parseOne_shorter:
  assumes "parseOne formals st args = More st' args'"
  shows "length args' < length args"
proof (cases args)
  case (Cons s rest)
  have go: "set_and_go f n v e t as = More st' args' \<Longrightarrow> args' = as" for f n v e t as
    by (auto simp: set_and_go_def split: option.splits)
  show ?thesis
    using assms unfolding Cons
    by (auto simp: Let_def split: if_splits prod.splits option.splits list.splits dest!: go)
qed (use assms in simp)

function Parse :: "(string \<rightharpoonup> formal) \<Rightarrow> flag_state \<Rightarrow> string list \<Rightarrow> parse_result" where
  "Parse formals st args =
     (case parseOne formals st args of
        Stop st rest \<Rightarrow> Parsed st rest
      | More st rest \<Rightarrow> Parse formals st rest
      | Bad err \<Rightarrow> ParseError err
      | Help \<Rightarrow> HelpRequested)"
  by pat_completeness auto

termination Parse
  by (relation "measure (\<lambda>(formals, st, args). length args)") (auto dest: parseOne_shorter)

declare Parse.simps [simp del]

section \<open>Types of the values\<close>

text \<open>Every own flag has a value of its type.\<close>

definition flags_typed :: "(string \<rightharpoonup> formal) \<Rightarrow> flag_state \<Rightarrow> bool" where
  "flags_typed formals s \<longleftrightarrow>
     (\<forall>name t. formals name = Some (OwnFlag t) \<longrightarrow> map_option type_of_value (own_values s name) = Some t)"

lemma Set_flag_typed:
  "flags_typed formals s \<Longrightarrow> formals name = Some f \<Longrightarrow> Set_flag f name value s = Some s' \<Longrightarrow> flags_typed formals s'"
  by (induction f name "value" s rule: Set_flag.induct)
    (auto simp: flags_typed_def split: option.splits if_splits)

lemma parseOne_More:
  assumes "parseOne formals st args = More st' rest"
  shows "\<exists>name f v. formals name = Some f \<and> Set_flag f name v st = Some st'"
proof (cases args)
  case (Cons s as)
  have go: "set_and_go f n v e t as = More st' rest \<Longrightarrow> Set_flag f n v t = Some st'" for f n v e t as
    by (auto simp: set_and_go_def split: option.splits)
  show ?thesis
    using assms unfolding Cons
    by (auto simp: Let_def split: if_splits prod.splits option.splits list.splits dest!: go)
qed (use assms in simp)

lemma parseOne_Stop: "parseOne formals st args = Stop st' rest \<Longrightarrow> st' = st"
  by (cases args) (auto simp: Let_def set_and_go_def split: if_splits prod.splits option.splits list.splits)

lemma Parse_typed:
  "flags_typed formals st \<Longrightarrow> Parse formals st args = Parsed st' rest \<Longrightarrow> flags_typed formals st'"
proof (induction formals st args rule: Parse.induct)
  case (1 formals st args)
  show ?case
  proof (cases "parseOne formals st args")
    case (Stop s r)
    then show ?thesis using "1.prems" parseOne_Stop by (fastforce simp: Parse.simps [of formals st args])
  next
    case (More s r)
    then have "flags_typed formals s" using "1.prems"(1) parseOne_More Set_flag_typed by blast
    then show ?thesis using "1.IH" [OF More] "1.prems"(2) More by (simp add: Parse.simps [of formals st args])
  qed (use "1.prems" in \<open>simp_all add: Parse.simps [of formals st args]\<close>)
qed

section \<open>Flags written as name=value\<close>

definition flag_name_ok :: "string \<Rightarrow> bool" where
  "flag_name_ok name \<longleftrightarrow> name \<noteq> '''' \<and> hd name \<noteq> dash \<and> equals \<notin> set name"

definition flag_arg :: "string \<times> string \<Rightarrow> string" where
  "flag_arg nv = ''--'' @ fst nv @ ''='' @ snd nv"

lemma cut_value_arg: "name \<noteq> '''' \<Longrightarrow> equals \<notin> set name \<Longrightarrow> cut_value (name @ equals # value) = (name, Some value)"
  by (cases name) simp_all

lemma parseOne_arg:
  assumes "flag_name_ok name" and "formals name = Some f"
  shows "\<exists>err. parseOne formals st (flag_arg (name, value) # args) = set_and_go f name value err st args"
proof -
  have "hd name \<noteq> equals" using assms(1) by (metis flag_name_ok_def hd_in_set)
  then show ?thesis
    using assms cut_value_arg [of name "value"]
    by (auto simp: flag_name_ok_def flag_arg_def Let_def hd_append)
qed

text \<open>Setting a list of flags, one after the other.\<close>

fun set_all :: "(string \<rightharpoonup> formal) \<Rightarrow> (string \<times> string) list \<Rightarrow> flag_state \<Rightarrow> flag_state option" where
  "set_all formals [] s = Some s"
| "set_all formals ((name, value) # nvs) s =
     (case formals name of
        None \<Rightarrow> None
      | Some f \<Rightarrow> (case Set_flag f name value s of None \<Rightarrow> None | Some s \<Rightarrow> set_all formals nvs s))"

lemma Parse_args:
  "\<forall>nv \<in> set nvs. flag_name_ok (fst nv) \<Longrightarrow> set_all formals nvs st = Some st' \<Longrightarrow>
   Parse formals st (map flag_arg nvs) = Parsed st' []"
proof (induction nvs arbitrary: st)
  case Nil
  then show ?case by (simp add: Parse.simps)
next
  case (Cons nv nvs)
  obtain name v where nv: "nv = (name, v)" by fastforce
  obtain f s where f: "formals name = Some f" "Set_flag f name v st = Some s" "set_all formals nvs s = Some st'"
    using Cons.prems by (auto simp: nv split: option.splits)
  then show ?case
    using Cons parseOne_arg [of name formals f st v "map flag_arg nvs"]
    by (simp add: nv Parse.simps [of formals st] set_and_go_def)
qed

end
