(* ===== verification/App_Controller.thy ===== *)
theory App_Controller
  imports Go_URL
begin

text \<open>
  The reconciler of the CRD example,
  \<open>examples/crd/internal/controller/application_controller.go\<close>: for an Application of a
  consumer's workspace it provides a Deployment, a Service and a Secret in the provider's
  cluster, in a namespace named after the workspace. The clients are third-party code: the
  record \<open>app_lib\<close> holds what the reconciler calls on them.
\<close>

section \<open>Objects\<close>

text \<open>
  \<open>api/v1alpha1/application_types.go\<close>, and the parts of the core types the controller sets.
  A pointer to a number is the number, an environment variable has a literal value or a key
  of a secret.
\<close>

record secret_reference =
  ref_Name :: string
  ref_Namespace :: string

record application =
  app_Name :: string
  app_Namespace :: string
  app_Annotations :: "string \<rightharpoonup> string"
  DatabaseRef :: string
  DatabaseSecretRef :: secret_reference
  Status :: string
  ConnectionString :: string

record resource_meta =
  res_Name :: string
  res_Namespace :: string
  Finalizers :: "string list"

datatype env_value = Value string | SecretKeyRef string string

record container =
  container_Name :: string
  Image :: string
  ImagePullPolicy :: string
  ContainerPorts :: "int list"
  Env :: "(string \<times> env_value) list"

record deployment =
  Replicas :: int
  MatchLabels :: "string \<rightharpoonup> string"
  TemplateLabels :: "string \<rightharpoonup> string"
  Containers :: "container list"

record service =
  Selector :: "string \<rightharpoonup> string"
  Ports :: "(int \<times> int) list"

datatype resource_spec =
    Deployment deployment
  | Service service
  | Secret "string \<rightharpoonup> string"

record resource =
  res_meta :: resource_meta
  res_spec :: resource_spec

datatype resource_kind = DeploymentKind | ServiceKind | SecretKind

fun spec_kind :: "resource_spec \<Rightarrow> resource_kind" where
  "spec_kind (Deployment d) = DeploymentKind"
| "spec_kind (Service s) = ServiceKind"
| "spec_kind (Secret d) = SecretKind"

text \<open>What identifies a resource in its cluster.\<close>

definition res_key :: "resource \<Rightarrow> resource_kind \<times> object_key" where
  "res_key r = (spec_kind (res_spec r),
     \<lparr>knamespace = res_Namespace (res_meta r), kname = res_Name (res_meta r)\<rparr>)"

section \<open>The desired resources\<close>

definition FinalizerName :: string where
  "FinalizerName = ''finalizer.apis.contrib.kcp.io/no-no-no''"

definition getApplicationService :: "application \<Rightarrow> string \<Rightarrow> resource outcome" where
  "getApplicationService app namespace =
     Ok \<lparr>res_meta = \<lparr>res_Name = app_Name app, res_Namespace = namespace, Finalizers = [FinalizerName]\<rparr>,
         res_spec = Service \<lparr>Selector = [''app'' \<mapsto> app_Name app], Ports = [(8080, 80)]\<rparr>\<rparr>"

definition getApplicationDeployment :: "application \<Rightarrow> string \<Rightarrow> resource outcome" where
  "getApplicationDeployment app namespace =
     Ok \<lparr>res_meta = \<lparr>res_Name = app_Name app, res_Namespace = namespace, Finalizers = [FinalizerName]\<rparr>,
         res_spec = Deployment
           \<lparr>Replicas = 1,
            MatchLabels = [''app'' \<mapsto> app_Name app],
            TemplateLabels = [''app'' \<mapsto> app_Name app],
            Containers =
              [\<lparr>container_Name = ''pgadmin'', Image = ''dpage/pgadmin4:9.1.0'',
                ImagePullPolicy = ''IfNotPresent'', ContainerPorts = [80],
                Env =
                  [(''PGADMIN_DEFAULT_EMAIL'', Value ''admin@kcp.io''),
                   (''PGADMIN_DEFAULT_PASSWORD'', Value ''admin''),
                   (''PGADMIN_PORT'', Value ''80''),
                   (''PGADMIN_SETUP_EMAIL'', Value ''admin@kcp.io''),
                   (''PGADMIN_SETUP_PASSWORD'', Value ''admin''),
                   (''PGADMIN_CONFIG_SERVER_MODE'', Value ''False''),
                   (''PGADMIN_CONFIG_ENHANCED_COOKIE_PROTECTION'', Value ''False''),
                   (''PGADMIN_SERVER_JSON_FILE'',
                      SecretKeyRef (app_Name app @ ''-server'') ''servers.json'')]\<rparr>]\<rparr>\<rparr>"

text \<open>
  \<open>json.Marshal\<close> of the nested maps, whose keys come out in order. A string of plain
  characters is quoted as it is; \<open>escaped\<close> gives the quotation of any other one.
\<close>

definition json_string :: "(string \<Rightarrow> string) \<Rightarrow> string \<Rightarrow> string" where
  "json_string escaped s =
     (if \<forall>c \<in> set s. plain_char c then CHR 0x22 # s @ [CHR 0x22] else escaped s)"

fun json_fields :: "(string \<Rightarrow> string) \<Rightarrow> (string \<times> string) list \<Rightarrow> string" where
  "json_fields escaped [] = ''''"
| "json_fields escaped [(k, v)] = json_string escaped k @ '':'' @ v"
| "json_fields escaped ((k, v) # kv # kvs) =
     json_string escaped k @ '':'' @ v @ '','' @ json_fields escaped (kv # kvs)"

definition json_object :: "(string \<Rightarrow> string) \<Rightarrow> (string \<times> string) list \<Rightarrow> string" where
  "json_object escaped kvs = ''{'' @ json_fields escaped kvs @ ''}''"

definition getServerJson ::
  "(string \<Rightarrow> string) \<Rightarrow> application \<Rightarrow> (string \<rightharpoonup> string) \<Rightarrow> string outcome" where
  "getServerJson escaped app secret =
     Ok (json_object escaped
       [(''Servers'', json_object escaped
          [(''1'', json_object escaped
             [(''Group'', json_string escaped ''Servers''),
              (''Host'', json_string escaped ''localhost''),
              (''Name'', json_string escaped (app_Name app))])])])"

definition serverSecret :: "application \<Rightarrow> string \<Rightarrow> string \<Rightarrow> resource" where
  "serverSecret app namespace serverJson =
     \<lparr>res_meta = \<lparr>res_Name = app_Name app @ ''-server'', res_Namespace = namespace,
                  Finalizers = [FinalizerName]\<rparr>,
      res_spec = Secret [''servers.json'' \<mapsto> serverJson]\<rparr>"

section \<open>Clients\<close>

text \<open>
  The state of the two clusters: the consumer's applications and secrets, and the resources
  of the provider's cluster.
\<close>

record app_world =
  applications :: "object_key \<rightharpoonup> application"
  secrets :: "object_key \<rightharpoonup> (string \<rightharpoonup> string)"
  provided :: "resource_kind \<times> object_key \<rightharpoonup> resource"

text \<open>
  What the reconciler calls: the reads and the status update of \<open>r.Client\<close>,
  \<open>controllerutil.CreateOrUpdate\<close> with \<open>r.ProviderClient\<close> and a mutate function,
  \<open>client.IgnoreNotFound\<close>, and the JSON quotation of special characters.
\<close>

record app_lib =
  Client_GetApplication :: "object_key \<Rightarrow> app_world \<Rightarrow> application outcome"
  Client_GetSecret :: "object_key \<Rightarrow> app_world \<Rightarrow> (string \<rightharpoonup> string) outcome"
  CreateOrUpdate :: "(resource \<Rightarrow> resource outcome) \<Rightarrow> resource \<Rightarrow> app_world \<Rightarrow> unit outcome \<times> app_world"
  Status_Update :: "application \<Rightarrow> app_world \<Rightarrow> unit outcome \<times> app_world"
  IgnoreNotFound :: "go_error \<Rightarrow> go_error option"
  json_escaped :: "string \<Rightarrow> string"

section \<open>Reconcile\<close>

text \<open>
  The outcome of a reconciliation is \<open>Ok\<close> of the requeue flag and the error it returns; the
  world is the one afterwards. \<open>continue\<close> passes on the result of a call that changes it.
\<close>

type_synonym reconcile_result = "(bool \<times> go_error option) outcome \<times> app_world"

definition continue ::
  "unit outcome \<times> app_world \<Rightarrow> (app_world \<Rightarrow> reconcile_result) \<Rightarrow> reconcile_result" where
  "continue r k =
     (case r of
        (Ok u, w) \<Rightarrow> k w
      | (Err err, w) \<Rightarrow> (Ok (False, Some err), w)
      | (Panic p, w) \<Rightarrow> (Panic p, w))"

definition with_value :: "'v outcome \<Rightarrow> app_world \<Rightarrow> ('v \<Rightarrow> reconcile_result) \<Rightarrow> reconcile_result" where
  "with_value r w k =
     (case r of
        Ok v \<Rightarrow> k v
      | Err err \<Rightarrow> (Ok (False, Some err), w)
      | Panic p \<Rightarrow> (Panic p, w))"

definition Reconcile :: "app_lib \<Rightarrow> object_key \<Rightarrow> app_world \<Rightarrow> reconcile_result" where
  "Reconcile A req w =
     (case Client_GetApplication A req w of
        Panic p \<Rightarrow> (Panic p, w)
      | Err err \<Rightarrow> (Ok (False, IgnoreNotFound A err), w)
      | Ok obj \<Rightarrow>
          (case Client_GetSecret A
                  \<lparr>knamespace = knamespace req, kname = ref_Name (DatabaseSecretRef obj)\<rparr> w of
             Panic p \<Rightarrow> (Panic p, w)
           | Err err \<Rightarrow> (Ok (True, Some err), w)
           | Ok secret \<Rightarrow>
               (case app_Annotations obj ''kcp.io/cluster'' of
                  None \<Rightarrow> (Ok (False, Some (Errorf ''cluster label not found'' [])), w)
                | Some namespace \<Rightarrow>
                    with_value (getApplicationDeployment obj namespace) w (\<lambda>deployment.
                    continue (CreateOrUpdate A (\<lambda>r. Ok r) deployment w) (\<lambda>w.
                    with_value (getApplicationService obj namespace) w (\<lambda>svc.
                    continue (CreateOrUpdate A (\<lambda>r. Ok r) svc w) (\<lambda>w.
                    with_value (getServerJson (json_escaped A) obj secret) w (\<lambda>serverJson.
                    continue (CreateOrUpdate A (\<lambda>r. Ok r) (serverSecret obj namespace serverJson) w) (\<lambda>w.
                    let obj = obj\<lparr>Status := ''Ready''\<rparr>;
                        obj = obj\<lparr>ConnectionString :=
                          ''kubectl port-forward svc/'' @ app_Name obj @ '' 8080:8080 -n '' @ namespace\<rparr>
                    in continue (Status_Update A obj w) (\<lambda>w. (Ok (False, None), w)))))))))))"

lemmas reconcile_defs = Reconcile_def continue_def with_value_def getApplicationDeployment_def
  getApplicationService_def getServerJson_def

text \<open>The controller of a manager of its own; \<open>Complete\<close> is given its name and the type it is for.\<close>

definition SetupWithManager :: "(string \<Rightarrow> go_type \<Rightarrow> go_error option) \<Rightarrow> go_error option" where
  "SetupWithManager Complete = Complete ''application'' (TypedT ''*v1alpha1.Application'')"

section \<open>Documented clients\<close>

text \<open>
  The documented behaviour of working clients: reads return the stored object or NotFound, a
  status update changes the status of the stored object only, and \<open>CreateOrUpdate\<close> with a
  mutate function that changes nothing creates a missing object and leaves an existing one
  as it is, since it only updates what the mutate function changed.
\<close>

definition app_key :: "application \<Rightarrow> object_key" where
  "app_key a = \<lparr>knamespace = app_Namespace a, kname = app_Name a\<rparr>"

definition create_missing :: "resource \<Rightarrow> app_world \<Rightarrow> app_world" where
  "create_missing r w =
     (if provided w (res_key r) = None then w\<lparr>provided := (provided w)(res_key r \<mapsto> r)\<rparr> else w)"

definition update_status :: "application \<Rightarrow> app_world \<Rightarrow> unit outcome \<times> app_world" where
  "update_status a w =
     (case applications w (app_key a) of
        None \<Rightarrow> (Err (NotFound ''apis.contrib.kcp.io'' ''applications'' (app_Name a)), w)
      | Some b \<Rightarrow>
          (Ok (), w\<lparr>applications := (applications w)
             (app_key a \<mapsto> b\<lparr>Status := Status a, ConnectionString := ConnectionString a\<rparr>)\<rparr>))"

definition api_ok :: "app_lib \<Rightarrow> bool" where
  "api_ok A \<longleftrightarrow>
     (\<forall>k w. Client_GetApplication A k w =
        (case applications w k of
           Some a \<Rightarrow> Ok a
         | None \<Rightarrow> Err (NotFound ''apis.contrib.kcp.io'' ''applications'' (kname k)))) \<and>
     (\<forall>k w. Client_GetSecret A k w =
        (case secrets w k of Some s \<Rightarrow> Ok s | None \<Rightarrow> Err (NotFound '''' ''secrets'' (kname k)))) \<and>
     (\<forall>r w. CreateOrUpdate A (\<lambda>r. Ok r) r w = (Ok (), create_missing r w)) \<and>
     (\<forall>a w. Status_Update A a w = update_status a w) \<and>
     (\<forall>e. IgnoreNotFound A e = (if is_NotFound e then None else Some e))"

text \<open>Clients as documented, except that any call of the provider's API may fail.\<close>

definition keeps_existing :: "app_lib \<Rightarrow> bool" where
  "keeps_existing A \<longleftrightarrow>
     (\<forall>r w. provided w \<subseteq>\<^sub>m provided (snd (CreateOrUpdate A (\<lambda>r. Ok r) r w))) \<and>
     (\<forall>a w. provided (snd (Status_Update A a w)) = provided w)"

definition working_clients :: app_lib where
  "working_clients =
     \<lparr>Client_GetApplication = (\<lambda>k w.
        (case applications w k of
           Some a \<Rightarrow> Ok a
         | None \<Rightarrow> Err (NotFound ''apis.contrib.kcp.io'' ''applications'' (kname k)))),
      Client_GetSecret = (\<lambda>k w.
        (case secrets w k of Some s \<Rightarrow> Ok s | None \<Rightarrow> Err (NotFound '''' ''secrets'' (kname k)))),
      CreateOrUpdate = (\<lambda>f r w. (Ok (), create_missing r w)),
      Status_Update = update_status,
      IgnoreNotFound = (\<lambda>e. if is_NotFound e then None else Some e),
      json_escaped = (\<lambda>s. '''')\<rparr>"

lemma working_clients_ok: "api_ok working_clients"
  by (simp add: api_ok_def working_clients_def)

lemma api_okD:
  assumes "api_ok A"
  shows "applications w k = Some a \<Longrightarrow> Client_GetApplication A k w = Ok a"
    and "secrets w k = Some s \<Longrightarrow> Client_GetSecret A k w = Ok s"
    and "CreateOrUpdate A (\<lambda>r. Ok r) r w = (Ok (), create_missing r w)"
    and "Status_Update A a w = update_status a w"
  using assms by (simp_all add: api_ok_def)

section \<open>What a reconciliation provides\<close>

text \<open>The three resources of an application, and its status afterwards.\<close>

definition desired :: "app_lib \<Rightarrow> application \<Rightarrow> string \<Rightarrow> resource list" where
  "desired A app ns =
     (case (getApplicationDeployment app ns, getApplicationService app ns,
            getServerJson (json_escaped A) app Map.empty) of
        (Ok d, Ok s, Ok j) \<Rightarrow> [d, s, serverSecret app ns j]
      | _ \<Rightarrow> [])"

definition ready_app :: "application \<Rightarrow> string \<Rightarrow> application" where
  "ready_app app ns = app\<lparr>Status := ''Ready'',
     ConnectionString := ''kubectl port-forward svc/'' @ app_Name app @ '' 8080:8080 -n '' @ ns\<rparr>"

lemma create_missing_sel [simp]:
  "applications (create_missing r w) = applications w" "secrets (create_missing r w) = secrets w"
  by (simp_all add: create_missing_def)

lemma fold_create_sel [simp]:
  "applications (fold create_missing rs w) = applications w"
  "secrets (fold create_missing rs w) = secrets w"
  by (induction rs arbitrary: w) simp_all

lemma provided_fold_create:
  "provided (fold create_missing rs w) k =
     (case provided w k of Some r \<Rightarrow> Some r | None \<Rightarrow> find (\<lambda>r. res_key r = k) rs)"
  by (induction rs arbitrary: w) (auto simp: create_missing_def split: option.split)

lemma Reconcile_run:
  assumes "api_ok A" and "applications w req = Some app" and "app_key app = req"
    and "secrets w \<lparr>knamespace = knamespace req, kname = ref_Name (DatabaseSecretRef app)\<rparr> = Some sec"
    and "app_Annotations app ''kcp.io/cluster'' = Some ns"
  shows "Reconcile A req w = (Ok (False, None),
    (fold create_missing (desired A app ns) w)
      \<lparr>applications := (applications w)(req \<mapsto> ready_app app ns)\<rparr>)"
  using assms(2-5) api_okD(1) [OF assms(1,2)] api_okD(2) [OF assms(1,4)] api_okD(3,4) [OF assms(1)]
  by (simp add: reconcile_defs desired_def update_status_def ready_app_def app_key_def Let_def)

lemma desired_keys:
  "map res_key (desired A app ns) =
     [(DeploymentKind, \<lparr>knamespace = ns, kname = app_Name app\<rparr>),
      (ServiceKind, \<lparr>knamespace = ns, kname = app_Name app\<rparr>),
      (SecretKind, \<lparr>knamespace = ns, kname = app_Name app @ ''-server''\<rparr>)]"
  by (simp add: desired_def getApplicationDeployment_def getApplicationService_def getServerJson_def
      serverSecret_def res_key_def)

text \<open>
  C39. A reconciliation with working clients. For an application with its secret and its
  cluster annotation it ends without error or requeue; the provider's cluster has the
  application's Deployment, Service and server Secret in the namespace of that annotation,
  those that were missing exactly as desired; the application is Ready with its connection
  string; everything else, resources that existed already included, is as before.
\<close>

theorem Reconcile_provides:
  assumes "api_ok A" and "applications w req = Some app" and "app_key app = req"
    and "secrets w \<lparr>knamespace = knamespace req, kname = ref_Name (DatabaseSecretRef app)\<rparr> = Some sec"
    and "app_Annotations app ''kcp.io/cluster'' = Some ns"
  shows "\<exists>w'. Reconcile A req w = (Ok (False, None), w') \<and>
    map res_key (desired A app ns) =
      [(DeploymentKind, \<lparr>knamespace = ns, kname = app_Name app\<rparr>),
       (ServiceKind, \<lparr>knamespace = ns, kname = app_Name app\<rparr>),
       (SecretKind, \<lparr>knamespace = ns, kname = app_Name app @ ''-server''\<rparr>)] \<and>
    (\<forall>k. provided w' k =
       (case provided w k of
          Some r \<Rightarrow> Some r
        | None \<Rightarrow> find (\<lambda>r. res_key r = k) (desired A app ns))) \<and>
    applications w' = (applications w)(req \<mapsto> ready_app app ns) \<and> secrets w' = secrets w"
  unfolding Reconcile_run [OF assms] desired_keys by (simp add: provided_fold_create)

definition sample_app :: application where
  "sample_app =
     \<lparr>app_Name = ''pg'', app_Namespace = ''default'', app_Annotations = [''kcp.io/cluster'' \<mapsto> ''c1''],
      DatabaseRef = ''db'', DatabaseSecretRef = \<lparr>ref_Name = ''creds'', ref_Namespace = ''other''\<rparr>,
      Status = '''', ConnectionString = ''''\<rparr>"

definition sample_req :: object_key where
  "sample_req = \<lparr>knamespace = ''default'', kname = ''pg''\<rparr>"

definition sample_world :: app_world where
  "sample_world =
     \<lparr>applications = [sample_req \<mapsto> sample_app],
      secrets = [\<lparr>knamespace = ''default'', kname = ''creds''\<rparr> \<mapsto> Map.empty], provided = Map.empty\<rparr>"

lemma sample_world_facts:
  "applications sample_world sample_req = Some sample_app" "app_key sample_app = sample_req"
  "secrets sample_world \<lparr>knamespace = knamespace sample_req, kname = ref_Name (DatabaseSecretRef sample_app)\<rparr> =
     Some Map.empty"
  "app_Annotations sample_app ''kcp.io/cluster'' = Some ''c1''"
  by (simp_all add: sample_world_def sample_app_def sample_req_def app_key_def)

theorem Reconcile_provides_witness:
  "\<exists>w'. Reconcile working_clients sample_req sample_world = (Ok (False, None), w') \<and>
     applications w' sample_req = Some (ready_app sample_app ''c1'')"
  using Reconcile_provides [OF working_clients_ok sample_world_facts] by fastforce

text \<open>
  Reconciling again changes nothing: once an application was reconciled, a second
  reconciliation with working clients ends the same way in the same world, whatever
  resources existed before the first.
\<close>

lemma Reconcile_idempotent:
  assumes "api_ok A" and "applications w req = Some app" and "app_key app = req"
    and "secrets w \<lparr>knamespace = knamespace req, kname = ref_Name (DatabaseSecretRef app)\<rparr> = Some sec"
    and "app_Annotations app ''kcp.io/cluster'' = Some ns"
    and "Reconcile A req w = (r, w')"
  shows "Reconcile A req w' = (r, w')"
proof -
  let ?rs = "desired A app ns"
  have w': "r = Ok (False, None)"
    "w' = (fold create_missing ?rs w)\<lparr>applications := (applications w)(req \<mapsto> ready_app app ns)\<rparr>"
    using Reconcile_run [OF assms(1-5)] assms(6) by simp_all
  have same: "desired A (ready_app app ns) ns = ?rs" "ready_app (ready_app app ns) ns = ready_app app ns"
    by (simp_all add: desired_def ready_app_def getApplicationDeployment_def getApplicationService_def
        getServerJson_def serverSecret_def)
  have "create_missing r w' = w'" if "r \<in> set ?rs" for r
    using that find_NoneD [of "\<lambda>r'. res_key r' = res_key r" ?rs r]
    by (auto simp: create_missing_def w' provided_fold_create split: option.split)
  then have unchanged: "fold create_missing ?rs w' = w'"
    by (intro fold_invariant [where P = "\<lambda>v. v = w'" and Q = "\<lambda>r. r \<in> set ?rs"]) auto
  have "Reconcile A req w' = (Ok (False, None),
      (fold create_missing ?rs w')\<lparr>applications := (applications w')(req \<mapsto> ready_app app ns)\<rparr>)"
    using Reconcile_run [OF assms(1), of w' req "ready_app app ns" sec ns] assms(3-5) same
    by (simp add: w' ready_app_def app_key_def)
  then show ?thesis using unchanged by (simp add: w')
qed

lemma Reconcile_idempotent_witness:
  "\<exists>w'. Reconcile working_clients sample_req sample_world = (Ok (False, None), w') \<and>
     Reconcile working_clients sample_req w' = (Ok (False, None), w')"
proof -
  obtain w' where "Reconcile working_clients sample_req sample_world = (Ok (False, None), w')"
    using Reconcile_run [OF working_clients_ok sample_world_facts] by simp
  with Reconcile_idempotent [OF working_clients_ok sample_world_facts this] show ?thesis by blast
qed

text \<open>
  The controller never changes a resource that exists: with clients whose calls may fail
  in any way, for every request, each resource of the provider's cluster is there afterwards
  exactly as it was, because all three mutate functions do nothing. Drift is not repaired
  and a changed application does not reach its resources.
\<close>

lemma Reconcile_keeps_existing:
  assumes "keeps_existing A"
  shows "provided w \<subseteq>\<^sub>m provided (snd (Reconcile A req w))"
proof -
  have le: "provided w \<subseteq>\<^sub>m provided (snd (continue (CreateOrUpdate A (\<lambda>r. Ok r) r w) k))"
    if "\<And>w'. provided w' \<subseteq>\<^sub>m provided (snd (k w'))" for r k w
    using assms that unfolding keeps_existing_def continue_def
    by (auto split: prod.split outcome.split)
      (metis (no_types, opaque_lifting) map_le_trans snd_conv)+
  have st: "provided w \<subseteq>\<^sub>m provided (snd (continue (Status_Update A a w) (\<lambda>w. (Ok (False, None), w))))" for a w
    using assms unfolding keeps_existing_def continue_def
    by (auto split: prod.split outcome.split) (metis map_le_refl snd_conv)+
  have val: "provided w \<subseteq>\<^sub>m provided (snd (with_value r w k))" if "\<And>v. provided w \<subseteq>\<^sub>m provided (snd (k v))"
    for r :: "'v outcome" and k w
    using that by (simp add: with_value_def split: outcome.split)
  show ?thesis
    unfolding Reconcile_def Let_def
    by (auto split: outcome.split option.split intro!: le st val)
qed

lemma Reconcile_keeps_existing_witness:
  "provided sample_world \<subseteq>\<^sub>m provided (snd (Reconcile working_clients sample_req sample_world))"
proof (rule Reconcile_keeps_existing)
  show "keeps_existing working_clients"
    by (auto simp: keeps_existing_def working_clients_def create_missing_def update_status_def map_le_def
        split: option.split)
qed

text \<open>
  An application without the cluster annotation is refused with an error, and nothing is done for
  it. The controller's own test suite reconciles such an application and expects no error.
\<close>

lemma Reconcile_without_annotation:
  assumes "api_ok A" and "applications w req = Some app" and "app_Annotations app ''kcp.io/cluster'' = None"
  shows "\<exists>requeue err. Reconcile A req w = (Ok (requeue, Some err), w)"
  using assms(3) api_okD(1) [OF assms(1,2)] assms(1)
  by (auto simp: Reconcile_def api_ok_def split: option.split)

end
