(* ===== verification/Manager_Main.thy ===== *)
theory Manager_Main
  imports Go_Flag App_Controller Provider_Concurrent
begin

text \<open>
  The manager command of the CRD example, \<open>examples/crd/cmd/main.go\<close>: its flags, the TLS
  options of its two servers, the construction of the provider, the clients and the manager
  with its controller and checks, and the exit statuses. The functions of third-party
  packages and the answers of the file system are the fields of the record \<open>main_lib\<close>.
\<close>

section \<open>Ending the process\<close>

text \<open>
  Code that may end the process: it runs on with a value, exits with a status after it
  logged a message, or panics.
\<close>

datatype 'a process = Runs 'a | Exits nat string | Panics string

definition attempt :: "'v outcome \<Rightarrow> string \<Rightarrow> ('v \<Rightarrow> 'r process) \<Rightarrow> 'r process" where
  "attempt r msg k =
     (case r of
        Ok v \<Rightarrow> k v
      | Err err \<Rightarrow> Exits 1 msg
      | Panic p \<Rightarrow> Panics p)"

definition checked :: "go_error option \<Rightarrow> string \<Rightarrow> 'r process \<Rightarrow> 'r process" where
  "checked r msg k = (case r of None \<Rightarrow> k | Some err \<Rightarrow> Exits 1 msg)"

definition and_then :: "'v process \<Rightarrow> ('v \<Rightarrow> 'r process) \<Rightarrow> 'r process" where
  "and_then r k = (case r of Runs v \<Rightarrow> k v | Exits n msg \<Rightarrow> Exits n msg | Panics p \<Rightarrow> Panics p)"

text \<open>\<open>utilruntime.Must\<close> of the package's \<open>init\<close>, over the functions that add types to the scheme.\<close>

fun init_scheme :: "(scheme \<Rightarrow> scheme outcome) list \<Rightarrow> scheme \<Rightarrow> scheme process" where
  "init_scheme [] s = Runs s"
| "init_scheme (AddToScheme # fs) s =
     (case AddToScheme s of
        Ok s \<Rightarrow> init_scheme fs s
      | Err err \<Rightarrow> Panics ''error adding to scheme''
      | Panic p \<Rightarrow> Panics p)"

section \<open>Flags\<close>

record main_flags =
  metricsAddr :: string
  metricsCertPath :: string
  metricsCertName :: string
  metricsCertKey :: string
  webhookCertPath :: string
  webhookCertName :: string
  webhookCertKey :: string
  enableLeaderElection :: bool
  probeAddr :: string
  secureMetrics :: bool
  enableHTTP2 :: bool
  serverURL :: string
  providerKubeConfig :: string

definition declared_flags :: "(string \<times> flag_value) list" where
  "declared_flags =
     [(''metrics-bind-address'', StringV ''0''),
      (''health-probe-bind-address'', StringV '':8081''),
      (''leader-elect'', BoolV False),
      (''metrics-secure'', BoolV True),
      (''webhook-cert-path'', StringV ''''),
      (''webhook-cert-name'', StringV ''tls.crt''),
      (''webhook-cert-key'', StringV ''tls.key''),
      (''metrics-cert-path'', StringV ''''),
      (''metrics-cert-name'', StringV ''tls.crt''),
      (''metrics-cert-key'', StringV ''tls.key''),
      (''enable-http2'', BoolV False),
      (''server'', StringV ''''),
      (''provider-kubeconfig'', StringV '''')]"

text \<open>
  The variables the flags are bound to, read from the values of the flags. The flags of
  imported packages, zap's and the kubeconfig flag of controller-runtime among them, are a
  parameter; declaring a name twice panics.
\<close>

definition string_flag :: "flag_state \<Rightarrow> string \<Rightarrow> string" where
  "string_flag s name = (case own_values s name of Some (StringV v) \<Rightarrow> v | _ \<Rightarrow> '''')"

definition bool_flag :: "flag_state \<Rightarrow> string \<Rightarrow> bool" where
  "bool_flag s name = (case own_values s name of Some (BoolV b) \<Rightarrow> b | _ \<Rightarrow> False)"

definition read_flags :: "flag_state \<Rightarrow> main_flags" where
  "read_flags s =
     \<lparr>metricsAddr = string_flag s ''metrics-bind-address'',
      metricsCertPath = string_flag s ''metrics-cert-path'',
      metricsCertName = string_flag s ''metrics-cert-name'',
      metricsCertKey = string_flag s ''metrics-cert-key'',
      webhookCertPath = string_flag s ''webhook-cert-path'',
      webhookCertName = string_flag s ''webhook-cert-name'',
      webhookCertKey = string_flag s ''webhook-cert-key'',
      enableLeaderElection = bool_flag s ''leader-elect'',
      probeAddr = string_flag s ''health-probe-bind-address'',
      secureMetrics = bool_flag s ''metrics-secure'',
      enableHTTP2 = bool_flag s ''enable-http2'',
      serverURL = string_flag s ''server'',
      providerKubeConfig = string_flag s ''provider-kubeconfig''\<rparr>"

definition main_formals :: "(string \<rightharpoonup> bool \<times> (string \<Rightarrow> bool)) \<Rightarrow> string \<rightharpoonup> formal" where
  "main_formals library name =
     (case map_of declared_flags name of
        Some v \<Rightarrow> Some (OwnFlag (type_of_value v))
      | None \<Rightarrow> map_option (\<lambda>(isBool, accepts). LibraryFlag isBool accepts) (library name))"

definition initial_flags :: flag_state where
  "initial_flags = \<lparr>own_values = map_of declared_flags, library_settings = []\<rparr>"

definition main_parse ::
  "(string \<rightharpoonup> bool \<times> (string \<Rightarrow> bool)) \<Rightarrow> string list \<Rightarrow> main_flags process" where
  "main_parse library args =
     (if \<exists>nv \<in> set declared_flags. library (fst nv) \<noteq> None then Panics ''flag redefined''
      else
        case Parse (main_formals library) initial_flags args of
          Parsed s rest \<Rightarrow> Runs (read_flags s)
        | ParseError err \<Rightarrow> Exits 2 ''flag error''
        | HelpRequested \<Rightarrow> Exits 0 ''usage'')"

text \<open>Flag settings as arguments, one for each flag.\<close>

definition show_bool :: "bool \<Rightarrow> string" where
  "show_bool b = (if b then ''true'' else ''false'')"

definition flag_settings :: "main_flags \<Rightarrow> (string \<times> string) list" where
  "flag_settings f =
     [(''metrics-bind-address'', metricsAddr f), (''health-probe-bind-address'', probeAddr f),
      (''leader-elect'', show_bool (enableLeaderElection f)), (''metrics-secure'', show_bool (secureMetrics f)),
      (''webhook-cert-path'', webhookCertPath f), (''webhook-cert-name'', webhookCertName f),
      (''webhook-cert-key'', webhookCertKey f), (''metrics-cert-path'', metricsCertPath f),
      (''metrics-cert-name'', metricsCertName f), (''metrics-cert-key'', metricsCertKey f),
      (''enable-http2'', show_bool (enableHTTP2 f)), (''server'', serverURL f),
      (''provider-kubeconfig'', providerKubeConfig f)]"

lemma ParseBool_show [simp]: "ParseBool (show_bool b) = Some b"
  by (simp add: ParseBool_def show_bool_def)

lemma main_formals_own [simp]:
  "map_of declared_flags name = Some v \<Longrightarrow> main_formals library name = Some (OwnFlag (type_of_value v))"
  by (simp add: main_formals_def)

lemma initial_flags_typed: "flags_typed (main_formals library) initial_flags"
  by (auto simp: flags_typed_def initial_flags_def main_formals_def split: option.splits)

text \<open>The defaults the command starts with when no flag is given.\<close>

lemma main_parse_defaults:
  assumes "\<forall>nv \<in> set declared_flags. library (fst nv) = None"
  shows "main_parse library [] = Runs
    \<lparr>metricsAddr = ''0'', metricsCertPath = '''', metricsCertName = ''tls.crt'', metricsCertKey = ''tls.key'',
     webhookCertPath = '''', webhookCertName = ''tls.crt'', webhookCertKey = ''tls.key'',
     enableLeaderElection = False, probeAddr = '':8081'', secureMetrics = True, enableHTTP2 = False,
     serverURL = '''', providerKubeConfig = ''''\<rparr>"
proof -
  have "\<not> (\<exists>nv \<in> set declared_flags. library (fst nv) \<noteq> None)" using assms by simp
  then have "main_parse library [] = Runs (read_flags initial_flags)" by (simp add: main_parse_def Parse.simps)
  then show ?thesis
    by (simp add: read_flags_def string_flag_def bool_flag_def initial_flags_def declared_flags_def)
qed

text \<open>
  C37. The command line round trip: for all values of the flags, strings with equals signs or
  dashes, empty ones and all booleans included, the arguments that set each flag by
  \<open>--name=value\<close> are parsed back to exactly these values, whatever flags imported packages
  declare beside them.
\<close>

theorem main_parse_roundtrip:
  assumes "\<forall>nv \<in> set declared_flags. library (fst nv) = None"
  shows "main_parse library (map flag_arg (flag_settings f)) = Runs f"
proof -
  let ?F = "main_formals library"
  have formals: "?F ''metrics-bind-address'' = Some (OwnFlag StringT)"
    "?F ''health-probe-bind-address'' = Some (OwnFlag StringT)" "?F ''leader-elect'' = Some (OwnFlag BoolT)"
    "?F ''metrics-secure'' = Some (OwnFlag BoolT)" "?F ''webhook-cert-path'' = Some (OwnFlag StringT)"
    "?F ''webhook-cert-name'' = Some (OwnFlag StringT)" "?F ''webhook-cert-key'' = Some (OwnFlag StringT)"
    "?F ''metrics-cert-path'' = Some (OwnFlag StringT)" "?F ''metrics-cert-name'' = Some (OwnFlag StringT)"
    "?F ''metrics-cert-key'' = Some (OwnFlag StringT)" "?F ''enable-http2'' = Some (OwnFlag BoolT)"
    "?F ''server'' = Some (OwnFlag StringT)" "?F ''provider-kubeconfig'' = Some (OwnFlag StringT)"
    by (simp_all add: main_formals_def declared_flags_def)
  obtain s where s: "set_all ?F (flag_settings f) initial_flags = Some s" "read_flags s = f"
    by (simp add: flag_settings_def formals read_flags_def string_flag_def bool_flag_def)
  have "\<forall>nv \<in> set (flag_settings f). flag_name_ok (fst nv)"
    by (simp add: flag_settings_def flag_name_ok_def)
  then have "Parse ?F initial_flags (map flag_arg (flag_settings f)) = Parsed s []"
    using s(1) by (rule Parse_args)
  moreover have "\<not> (\<exists>nv \<in> set declared_flags. library (fst nv) \<noteq> None)" using assms by simp
  ultimately show ?thesis using s(2) by (simp add: main_parse_def)
qed

theorem main_parse_roundtrip_witness:
  "main_parse (\<lambda>name. if name = ''kubeconfig'' then Some (False, \<lambda>v. True) else None)
     (map flag_arg (flag_settings (read_flags initial_flags))) = Runs (read_flags initial_flags)"
  by (rule main_parse_roundtrip) (simp add: declared_flags_def)

section \<open>TLS options\<close>

text \<open>
  The options are functions on a TLS configuration: the one that turns HTTP/2 off, and those
  that take the certificate of a watcher. A slice of options refers to an array in a store;
  \<open>append\<close> writes into that array if the slice's capacity allows it and allocates a larger
  one otherwise. How large is up to the compiler: \<open>grow\<close> gives the capacity for a required
  length. The nil slice has no capacity.
\<close>

datatype tls_option = DisableHTTP2 | GetCertificate nat

record opt_slice =
  os_array :: nat
  os_len :: nat
  os_cap :: nat

type_synonym opt_store = "tls_option option list list"

definition nil_slice :: opt_slice where
  "nil_slice = \<lparr>os_array = 0, os_len = 0, os_cap = 0\<rparr>"

definition append_option ::
  "(nat \<Rightarrow> nat) \<Rightarrow> opt_slice \<Rightarrow> tls_option \<Rightarrow> opt_store \<Rightarrow> opt_slice \<times> opt_store" where
  "append_option grow s x st =
     (if os_len s < os_cap s
      then (s\<lparr>os_len := os_len s + 1\<rparr>, st[os_array s := (st ! os_array s)[os_len s := Some x]])
      else
        let old = (if os_len s = 0 then [] else take (os_len s) (st ! os_array s));
            cap = grow (os_len s + 1)
        in (\<lparr>os_array = length st, os_len = os_len s + 1, os_cap = cap\<rparr>,
            st @ [old @ Some x # replicate (cap - (os_len s + 1)) None]))"

text \<open>The options a server finds in its slice when it starts.\<close>

definition slice_options :: "opt_store \<Rightarrow> opt_slice \<Rightarrow> tls_option option list" where
  "slice_options st s = (if os_len s = 0 then [] else take (os_len s) (st ! os_array s))"

section \<open>Servers\<close>

record metrics_options =
  BindAddress :: string
  SecureServing :: bool
  metrics_TLSOpts :: opt_slice
  FilterProvider :: bool

record manager_options =
  mo_Scheme :: "scheme option"
  mo_Metrics :: metrics_options
  mo_WebhookTLSOpts :: "opt_slice option"
  HealthProbeBindAddress :: string
  LeaderElection :: bool
  LeaderElectionID :: string

text \<open>
  What \<open>main\<close> calls beside the constructors of \<open>cluster_lib\<close>: certificate watchers, which
  are known by number like clients and managers, the kubeconfig of the environment, the file
  system, and the methods of the multi-cluster manager, whose controller is known by its name
  and the type it is for.
\<close>

record main_lib =
  certwatcher_New :: "string \<Rightarrow> string \<Rightarrow> nat outcome"
  GetConfig :: "rest_config outcome"
  os_Stat :: "string \<Rightarrow> go_error option"
  BuildConfigFromFlags :: "string \<Rightarrow> string \<Rightarrow> rest_config outcome"
  mcmanager_New :: "rest_config \<Rightarrow> Provider \<Rightarrow> manager_options \<Rightarrow> nat outcome"
  Complete :: "nat \<Rightarrow> string \<Rightarrow> go_type \<Rightarrow> go_error option"
  AddHealthzCheck :: "nat \<Rightarrow> string \<Rightarrow> go_error option"
  AddReadyzCheck :: "nat \<Rightarrow> string \<Rightarrow> go_error option"

record servers =
  webhook_TLSOpts :: opt_slice
  metricsServerOptions :: metrics_options
  tls_store :: opt_store

text \<open>A certificate watcher, if a path is given, and its option at the end of a slice.\<close>

definition watch_certificates ::
  "main_lib \<Rightarrow> (nat \<Rightarrow> nat) \<Rightarrow> string \<Rightarrow> string \<Rightarrow> string \<Rightarrow> string \<Rightarrow> opt_slice \<Rightarrow> opt_store \<Rightarrow>
   (opt_slice \<times> opt_store) process" where
  "watch_certificates M grow certPath certName certKey msg s st =
     (if length certPath > 0
      then attempt (certwatcher_New M (path_Join [certPath, certName]) (path_Join [certPath, certKey])) msg
             (\<lambda>watcher. Runs (append_option grow s (GetCertificate watcher) st))
      else Runs (s, st))"

definition main_servers :: "main_lib \<Rightarrow> (nat \<Rightarrow> nat) \<Rightarrow> main_flags \<Rightarrow> servers process" where
  "main_servers M grow f =
     (let (tlsOpts, st) =
            (if \<not> enableHTTP2 f then append_option grow nil_slice DisableHTTP2 [] else (nil_slice, []));
          webhookTLSOpts = tlsOpts
      in and_then (watch_certificates M grow (webhookCertPath f) (webhookCertName f) (webhookCertKey f)
                     ''Failed to initialize webhook certificate watcher'' webhookTLSOpts st)
         (\<lambda>(webhookTLSOpts, st).
            let options = \<lparr>BindAddress = metricsAddr f, SecureServing = secureMetrics f,
                           metrics_TLSOpts = tlsOpts, FilterProvider = False\<rparr>;
                options = (if secureMetrics f then options\<lparr>FilterProvider := True\<rparr> else options)
            in and_then (watch_certificates M grow (metricsCertPath f) (metricsCertName f) (metricsCertKey f)
                           ''to initialize metrics certificate watcher'' (metrics_TLSOpts options) st)
               (\<lambda>(metricsTLSOpts, st).
                  Runs \<lparr>webhook_TLSOpts = webhookTLSOpts,
                        metricsServerOptions = options\<lparr>metrics_TLSOpts := metricsTLSOpts\<rparr>,
                        tls_store = st\<rparr>)))"

text \<open>The options a server is meant to have.\<close>

definition meant_options :: "bool \<Rightarrow> nat option \<Rightarrow> tls_option option list" where
  "meant_options http2 watcher =
     (if http2 then [] else [Some DisableHTTP2]) @ (case watcher of None \<Rightarrow> [] | Some w \<Rightarrow> [Some (GetCertificate w)])"

definition watcher_of :: "main_lib \<Rightarrow> string \<Rightarrow> string \<Rightarrow> string \<Rightarrow> nat option outcome" where
  "watcher_of M path name key =
     (if path = '''' then Ok None
      else case certwatcher_New M (path_Join [path, name]) (path_Join [path, key]) of
             Ok w \<Rightarrow> Ok (Some w)
           | Err e \<Rightarrow> Err e
           | Panic p \<Rightarrow> Panic p)"

lemma watch_certificates_Ok:
  "watcher_of M path name key = Ok w \<Longrightarrow>
   watch_certificates M grow path name key msg s st =
     Runs (case w of None \<Rightarrow> (s, st) | Some w \<Rightarrow> append_option grow s (GetCertificate w) st)"
  by (auto simp: watcher_of_def watch_certificates_def attempt_def split: outcome.splits if_splits)

text \<open>
  C36. The TLS options of the two servers. If both watchers can be made, the metrics server
  gets what the flags mean: HTTP/2 off unless enabled, then its own certificate if one is
  given. The webhook server gets what they mean as well exactly unless HTTP/2 is off, both
  servers have a certificate, and the array \<open>append\<close> makes for one element has spare
  capacity: then both slices share that array, and the second \<open>append\<close> replaces the webhook
  server's certificate by the metrics server's. Go's compiler gives such an array no spare
  capacity, the language does not promise it.
\<close>

theorem main_servers_options:
  assumes "\<forall>n. n \<le> grow n"
    and "watcher_of M (webhookCertPath f) (webhookCertName f) (webhookCertKey f) = Ok w1"
    and "watcher_of M (metricsCertPath f) (metricsCertName f) (metricsCertKey f) = Ok w2"
  shows "\<exists>r. main_servers M grow f = Runs r \<and>
    slice_options (tls_store r) (metrics_TLSOpts (metricsServerOptions r)) = meant_options (enableHTTP2 f) w2 \<and>
    (slice_options (tls_store r) (webhook_TLSOpts r) = meant_options (enableHTTP2 f) w1 \<longleftrightarrow>
       enableHTTP2 f \<or> w1 = None \<or> w2 = None \<or> w1 = w2 \<or> grow 1 = 1) \<and>
    BindAddress (metricsServerOptions r) = metricsAddr f \<and>
    SecureServing (metricsServerOptions r) = secureMetrics f \<and>
    FilterProvider (metricsServerOptions r) = secureMetrics f"
proof -
  have "1 \<le> grow 1" using assms(1) by blast
  then obtain k where k: "grow (Suc 0) = Suc k" by (cases "grow 1") simp_all
  show ?thesis
    by (cases w1; cases w2; cases k)
      (auto simp: k main_servers_def and_then_def watch_certificates_Ok [OF assms(2)] watch_certificates_Ok [OF assms(3)]
        append_option_def nil_slice_def slice_options_def meant_options_def Let_def nth_append)
qed

text \<open>Flags that give both servers a certificate and leave HTTP/2 off, and working watchers.\<close>

definition sample_flags :: main_flags where
  "sample_flags = (read_flags initial_flags)
     \<lparr>webhookCertPath := ''/certs/webhook'', metricsCertPath := ''/certs/metrics'',
      serverURL := ''https://kcp:6443/services'', providerKubeConfig := ''/etc/provider.kubeconfig''\<rparr>"

definition sample_main_lib :: main_lib where
  "sample_main_lib =
     \<lparr>certwatcher_New = (\<lambda>cert key. Ok (if prefix ''/certs/webhook'' cert then 1 else 2)),
      GetConfig = Ok \<lparr>Host = ''https://localhost'', cfg_rest = ''''\<rparr>,
      os_Stat = (\<lambda>path. if path = ''.'' \<or> path = ''/etc/provider.kubeconfig'' then None
                        else Some (External ''no such file'')),
      BuildConfigFromFlags = (\<lambda>url path. if path = ''/etc/provider.kubeconfig''
                        then Ok \<lparr>Host = ''https://provider'', cfg_rest = ''''\<rparr>
                        else Err (External ''is a directory'')),
      mcmanager_New = (\<lambda>cfg p opts. Ok 0), Complete = (\<lambda>mgr name t. None),
      AddHealthzCheck = (\<lambda>mgr name. None), AddReadyzCheck = (\<lambda>mgr name. None)\<rparr>"

lemma sample_flags_sel [simp]:
  "enableHTTP2 sample_flags = False" "secureMetrics sample_flags = True"
  "metricsAddr sample_flags = ''0''" "serverURL sample_flags = ''https://kcp:6443/services''"
  "webhookCertPath sample_flags = ''/certs/webhook''" "metricsCertPath sample_flags = ''/certs/metrics''"
  "webhookCertName sample_flags = ''tls.crt''" "metricsCertName sample_flags = ''tls.crt''"
  "providerKubeConfig sample_flags = ''/etc/provider.kubeconfig''"
  by (simp_all add: sample_flags_def read_flags_def string_flag_def bool_flag_def initial_flags_def declared_flags_def)

lemma sample_watchers:
  "watcher_of sample_main_lib (webhookCertPath sample_flags) (webhookCertName sample_flags)
     (webhookCertKey sample_flags) = Ok (Some 1)"
  "watcher_of sample_main_lib (metricsCertPath sample_flags) (metricsCertName sample_flags)
     (metricsCertKey sample_flags) = Ok (Some 2)"
  by (simp_all add: watcher_of_def sample_main_lib_def path_Join_def path_Clean_def Let_def)

text \<open>With an array of capacity two for one element the webhook server loses its certificate.\<close>

theorem main_servers_options_witness:
  "(\<exists>r. main_servers sample_main_lib (\<lambda>n. n) sample_flags = Runs r \<and>
      slice_options (tls_store r) (webhook_TLSOpts r) = [Some DisableHTTP2, Some (GetCertificate 1)]) \<and>
   (\<exists>r. main_servers sample_main_lib (\<lambda>n. 2 * n) sample_flags = Runs r \<and>
      slice_options (tls_store r) (webhook_TLSOpts r) \<noteq> [Some DisableHTTP2, Some (GetCertificate 1)])"
  using main_servers_options [OF _ sample_watchers, of "\<lambda>n. n"]
    main_servers_options [OF _ sample_watchers, of "\<lambda>n. 2 * n"]
  by (auto simp: meant_options_def)

section \<open>Starting up\<close>

record running =
  run_cfg :: rest_config
  run_provider :: Provider
  run_providerClient :: nat
  run_manager :: nat
  run_options :: manager_options
  run_store :: opt_store

definition APIBinding :: object where
  "APIBinding =
     \<lparr>otype = TypedT ''*v1alpha1.APIBinding'', ogvk = \<lparr>Group = '''', Version = '''', Kind = ''''\<rparr>,
      ometa = Some \<lparr>mname = '''', mnamespace = '''', mlabels = Map.empty, mannotations = Map.empty\<rparr>,
      odata = ''''\<rparr>"

definition override_server :: "string \<Rightarrow> rest_config \<Rightarrow> rest_config" where
  "override_server server cfg = (if server \<noteq> '''' then cfg\<lparr>Host := server\<rparr> else cfg)"

definition main_setup ::
  "main_lib \<Rightarrow> 'a cluster_lib_scheme \<Rightarrow> (nat \<Rightarrow> nat) \<Rightarrow> main_flags \<Rightarrow> running process" where
  "main_setup M K grow f =
     and_then (main_servers M grow f) (\<lambda>srv.
     attempt (GetConfig M) ''unable to get kubeconfig'' (\<lambda>cfg.
     let cfg = override_server (serverURL f) cfg in
     attempt (New K cfg APIBinding \<lparr>opts_Scheme = Some (default_Scheme K), opts_WildcardCache = None\<rparr>)
       ''unable to construct cluster provider'' (\<lambda>provider.
     let kubeconfig = path_Clean (providerKubeConfig f) in
     checked (os_Stat M kubeconfig) ''unable to find provider kubeconfig'' (
     attempt (BuildConfigFromFlags M '''' kubeconfig) ''unable to build provider kubeconfig'' (\<lambda>config.
     attempt (client_New K config (default_Scheme K) None) ''unable to create dynamic client'' (\<lambda>providerClient.
     let options = \<lparr>mo_Scheme = Some (default_Scheme K), mo_Metrics = metricsServerOptions srv,
                    mo_WebhookTLSOpts = Some (webhook_TLSOpts srv), HealthProbeBindAddress = probeAddr f,
                    LeaderElection = enableLeaderElection f, LeaderElectionID = ''e3eac106.contrib.kcp.io''\<rparr> in
     attempt (mcmanager_New M cfg provider options) ''unable to set up overall controller manager'' (\<lambda>mgr.
     checked (Complete M mgr ''kcp-applications-controller'' (TypedT ''*v1alpha1.Application''))
       ''unable to create controller'' (
     checked (AddHealthzCheck M mgr ''healthz'') ''unable to set up health check'' (
     checked (AddReadyzCheck M mgr ''readyz'') ''unable to set up ready check'' (
     Runs \<lparr>run_cfg = cfg, run_provider = provider, run_providerClient = providerClient, run_manager = mgr,
           run_options = options, run_store = tls_store srv\<rparr>))))))))))"

text \<open>
  From there on the provider runs in a goroutine and the manager in \<open>main\<close>: the process ends
  when one of them returns an error, or when the manager returns. The events are the returns
  of \<open>provider.Run\<close> and \<open>mgr.Start\<close> in the order they happen.
\<close>

datatype process_event = ProviderReturned "go_error option" | ManagerReturned "go_error option"

fun main_run :: "string \<Rightarrow> process_event list \<Rightarrow> (nat \<times> string) option" where
  "main_run msg [] = None"
| "main_run msg (ProviderReturned None # es) = main_run msg es"
| "main_run msg (ProviderReturned (Some err) # es) = Some (1, ''unable to run provider'')"
| "main_run msg (ManagerReturned None # es) = Some (0, '''')"
| "main_run msg (ManagerReturned (Some err) # es) = Some (1, msg)"

definition crd_run :: "process_event list \<Rightarrow> (nat \<times> string) option" where
  "crd_run = main_run ''problem running manager''"

text \<open>The first event that is not the provider's return without an error decides.\<close>

lemma main_run_first:
  "main_run msg es =
     (case dropWhile (\<lambda>e. e = ProviderReturned None) es of [] \<Rightarrow> None | e # _ \<Rightarrow> main_run msg [e])"
  by (induction msg es rule: main_run.induct) auto

section \<open>The controller\<close>

text \<open>
  The reconcile function given to \<open>Complete\<close>: a reconciler over the client of the request's
  cluster and the provider's client. \<open>clients\<close> are the API calls made with two clients. The
  reconciler's \<open>Scheme\<close>, which none of its methods reads, is left out.
\<close>

definition crd_reconcile ::
  "(string \<Rightarrow> scopedCluster outcome) \<Rightarrow> (nat \<Rightarrow> nat \<Rightarrow> app_lib) \<Rightarrow> nat \<Rightarrow> string \<Rightarrow> object_key \<Rightarrow> app_world \<Rightarrow>
   reconcile_result" where
  "crd_reconcile GetCluster clients providerClient ClusterName key w =
     (case GetCluster ClusterName of
        Panic p \<Rightarrow> (Panic p, w)
      | Err err \<Rightarrow> (Ok (False, Some (Wrapf ''failed to get cluster: %w'' [] err)), w)
      | Ok cl \<Rightarrow> Reconcile (clients (scopedCluster_GetClient cl) providerClient) key w)"

section \<open>Properties of the command\<close>

lemma attempt_Runs: "attempt r msg k = Runs v \<longleftrightarrow> (\<exists>x. r = Ok x \<and> k x = Runs v)"
  by (simp add: attempt_def split: outcome.split)

lemma checked_Runs: "checked r msg k = Runs v \<longleftrightarrow> r = None \<and> k = Runs v"
  by (simp add: checked_def split: option.split)

lemma and_then_Runs: "and_then r k = Runs v \<longleftrightarrow> (\<exists>x. r = Runs x \<and> k x = Runs v)"
  by (simp add: and_then_def split: process.split)

lemmas process_Runs = attempt_Runs checked_Runs and_then_Runs

lemma attempt_Exits:
  "attempt r msg k = Exits c m \<longleftrightarrow> (\<exists>v. r = Ok v \<and> k v = Exits c m) \<or> (\<exists>err. r = Err err) \<and> c = 1 \<and> m = msg"
  by (cases r) (auto simp: attempt_def)

lemma checked_Exits:
  "checked r msg k = Exits c m \<longleftrightarrow> r = None \<and> k = Exits c m \<or> r \<noteq> None \<and> c = 1 \<and> m = msg"
  by (cases r) (auto simp: checked_def)

lemma and_then_Exits:
  "and_then r k = Exits c m \<longleftrightarrow> (\<exists>v. r = Runs v \<and> k v = Exits c m) \<or> r = Exits c m"
  by (cases r) (auto simp: and_then_def)

lemmas process_Exits = attempt_Exits checked_Exits and_then_Exits

lemma watch_certificates_Exits:
  "watch_certificates M grow p n k msg s st = Exits c m \<Longrightarrow> c = 1 \<and> m = msg"
  by (auto simp: watch_certificates_def process_Exits split: if_splits)

lemma main_servers_Exits:
  assumes "main_servers M grow f = Exits c m"
  shows "m \<in> {''Failed to initialize webhook certificate watcher'', ''to initialize metrics certificate watcher''}"
  using assms
  by (auto simp: main_servers_def process_Exits split_beta Let_def dest!: watch_certificates_Exits)

text \<open>What a set-up that runs on was made of.\<close>

lemma main_setup_Runs:
  assumes "main_setup M K grow f = Runs r"
  shows "\<exists>cfg pcfg. GetConfig M = Ok cfg \<and> run_cfg r = override_server (serverURL f) cfg \<and>
    New K (run_cfg r) APIBinding \<lparr>opts_Scheme = Some (default_Scheme K), opts_WildcardCache = None\<rparr> =
      Ok (run_provider r) \<and>
    os_Stat M (path_Clean (providerKubeConfig f)) = None \<and>
    BuildConfigFromFlags M '''' (path_Clean (providerKubeConfig f)) = Ok pcfg \<and>
    client_New K pcfg (default_Scheme K) None = Ok (run_providerClient r) \<and>
    mcmanager_New M (run_cfg r) (run_provider r) (run_options r) = Ok (run_manager r) \<and>
    Complete M (run_manager r) ''kcp-applications-controller'' (TypedT ''*v1alpha1.Application'') = None \<and>
    AddHealthzCheck M (run_manager r) ''healthz'' = None \<and> AddReadyzCheck M (run_manager r) ''readyz'' = None"
  using assms by (auto simp: main_setup_def process_Runs Let_def)

text \<open>The manager's \<open>GetCluster\<close> asks the provider for every name but the empty one.\<close>

definition provider_GetCluster :: "'a Provider_scheme \<Rightarrow> string \<Rightarrow> scopedCluster outcome" where
  "provider_GetCluster s n =
     (case Provider_Get s n of Ok cl \<Rightarrow> Ok (snd cl) | Err e \<Rightarrow> Err e | Panic p \<Rightarrow> Panic p)"

definition asks_provider :: "'a Provider_scheme \<Rightarrow> (string \<Rightarrow> scopedCluster outcome) \<Rightarrow> bool" where
  "asks_provider s GetCluster \<longleftrightarrow> (\<forall>n. n \<noteq> '''' \<longrightarrow> GetCluster n = provider_GetCluster s n)"

lemma provider_GetCluster_iff:
  "provider_GetCluster s n =
     (case clusters s n of
        Some (ctx, cl) \<Rightarrow> Ok cl
      | None \<Rightarrow> Err (Errorf ''cluster %q not found'' [n]))"
  by (simp add: provider_GetCluster_def Provider_Get_def split: option.split prod.split)

lemma asks_provider_itself: "asks_provider s (provider_GetCluster s)"
  by (simp add: asks_provider_def)

text \<open>
  C15. From the command line to the reconciler. If the command came up with \<open>--server\<close> set to
  the URL of a virtual workspace, with or without a slash at its end, then whatever the
  provider's handlers have done since, a reconcile request for a cluster the provider has
  runs the application reconciler with a client made for \<open>server/clusters/name\<close>, all other
  settings being those of the environment's kubeconfig, and with the provider client made
  from the provider kubeconfig; a request for a cluster it does not have fails.
\<close>

theorem crd_reconciles_in_own_workspace:
  assumes "main_setup M K grow f = Runs r"
    and "endpoint_ok sch authority es"
    and "serverURL f = endpoint sch authority es \<or> serverURL f = endpoint sch authority es @ ''/''"
    and "serverURL f \<noteq> ''''" and "url_name_ok n" and "n \<noteq> ''''" and "request_path_ok L n"
    and "reachable (sys_init (run_provider r)) (sys_step L K engage) \<sigma>"
    and "asks_provider (sys_state \<sigma>) GetCluster"
  shows "\<exists>cfg pcfg. GetConfig M = Ok cfg \<and>
    BuildConfigFromFlags M '''' (path_Clean (providerKubeConfig f)) = Ok pcfg \<and>
    client_New K pcfg (default_Scheme K) None = Ok (run_providerClient r) \<and>
    (case clusters (sys_state \<sigma>) n of
       Some cl \<Rightarrow>
         \<exists>c. client_New K (cfg\<lparr>Host := endpoint sch authority es @ ''/clusters/'' @ n\<rparr>) (default_Scheme K) None = Ok c \<and>
           crd_reconcile GetCluster clients (run_providerClient r) n key w =
             Reconcile (clients c (run_providerClient r)) key w
     | None \<Rightarrow>
         crd_reconcile GetCluster clients (run_providerClient r) n key w =
           (Ok (False, Some (Wrapf ''failed to get cluster: %w'' [] (Errorf ''cluster %q not found'' [n]))), w))"
proof -
  obtain cfg pcfg where up: "GetConfig M = Ok cfg" "run_cfg r = override_server (serverURL f) cfg"
    "New K (run_cfg r) APIBinding \<lparr>opts_Scheme = Some (default_Scheme K), opts_WildcardCache = None\<rparr> = Ok (run_provider r)"
    "BuildConfigFromFlags M '''' (path_Clean (providerKubeConfig f)) = Ok pcfg"
    "client_New K pcfg (default_Scheme K) None = Ok (run_providerClient r)"
    using main_setup_Runs [OF assms(1)] by blast
  have ask: "GetCluster n = provider_GetCluster (sys_state \<sigma>) n"
    using assms(6,9) by (simp add: asks_provider_def)
  have cfg: "run_cfg r = cfg\<lparr>Host := serverURL f\<rparr>" using up(2) assms(4) by (simp add: override_server_def)
  have host: "Host (run_cfg r) = endpoint sch authority es \<or> Host (run_cfg r) = endpoint sch authority es @ [slash]"
    using assms(3) cfg by simp
  note client = provider_cluster_client [OF up(3) assms(2) host assms(5,7,8)]
  have "\<exists>c. client_New K (cfg\<lparr>Host := endpoint sch authority es @ ''/clusters/'' @ n\<rparr>) (default_Scheme K) None = Ok c \<and>
      crd_reconcile GetCluster clients (run_providerClient r) n key w =
        Reconcile (clients c (run_providerClient r)) key w"
    if "clusters (sys_state \<sigma>) n = Some (ctx, cl)" for ctx cl
    using client [OF that] that ask cfg by (simp add: crd_reconcile_def provider_GetCluster_iff)
  moreover have "crd_reconcile GetCluster clients (run_providerClient r) n key w =
      (Ok (False, Some (Wrapf ''failed to get cluster: %w'' [] (Errorf ''cluster %q not found'' [n]))), w)"
    if "clusters (sys_state \<sigma>) n = None"
    using that ask by (simp add: crd_reconcile_def provider_GetCluster_iff)
  ultimately show ?thesis
    using up(1,4,5) by (cases "clusters (sys_state \<sigma>) n") fastforce+
qed

lemma main_servers_Runs:
  assumes "watcher_of M (webhookCertPath f) (webhookCertName f) (webhookCertKey f) = Ok w1"
    and "watcher_of M (metricsCertPath f) (metricsCertName f) (metricsCertKey f) = Ok w2"
  shows "\<exists>srv. main_servers M grow f = Runs srv"
  by (simp add: main_servers_def and_then_def watch_certificates_Ok [OF assms(1)] watch_certificates_Ok [OF assms(2)]
      Let_def split_beta)

lemma sample_kubeconfig: "path_Clean ''/etc/provider.kubeconfig'' = ''/etc/provider.kubeconfig''"
  by (simp add: path_Clean_def Let_def)

lemma sample_setup:
  "\<exists>r. main_setup sample_main_lib sample_cluster_lib (\<lambda>n. n) sample_flags = Runs r \<and>
     clusters (run_provider r) = Map.empty \<and> cancelFns (run_provider r) = Map.empty \<and>
     config (run_provider r) = \<lparr>Host = ''https://kcp:6443/services'', cfg_rest = ''''\<rparr>"
proof -
  obtain srv where srv: "main_servers sample_main_lib (\<lambda>n. n) sample_flags = Runs srv"
    using main_servers_Runs [OF sample_watchers] by blast
  let ?cfg = "\<lparr>Host = ''https://kcp:6443/services'', cfg_rest = ''''\<rparr>"
  obtain p where p: "New sample_cluster_lib ?cfg APIBinding
      \<lparr>opts_Scheme = Some (default_Scheme sample_cluster_lib), opts_WildcardCache = None\<rparr> = Ok p"
    by (simp add: New_def Let_def NewWildcardCache_def default_HTTPClient_def default_Mapper_def
        sample_cluster_lib_def ctor_lib.defs)
  have "override_server (serverURL sample_flags) \<lparr>Host = ''https://localhost'', cfg_rest = ''''\<rparr> = ?cfg"
    by (simp add: override_server_def)
  then have "\<exists>r. main_setup sample_main_lib sample_cluster_lib (\<lambda>n. n) sample_flags = Runs r \<and> run_provider r = p"
    using srv p
    by (simp add: main_setup_def and_then_def attempt_def checked_def sample_main_lib_def sample_kubeconfig Let_def)
      (simp add: sample_cluster_lib_def)
  then show ?thesis using New_Ok [OF p] by auto
qed

lemma sample_services_ok: "endpoint_ok ''https'' ''kcp:6443'' [''services'']" "serverURL sample_flags = endpoint ''https'' ''kcp:6443'' [''services'']"
  using sample_endpoint_ok by (simp_all add: endpoint_def)

text \<open>A provider for the sample URL engages its first cluster.\<close>

lemma sample_provider_run:
  assumes "clusters p = Map.empty" and "cancelFns p = Map.empty" and "Host (config p) = ''https://kcp:6443/services''"
  shows "\<exists>\<sigma> cl. reachable (sys_init p) (sys_step documented_lib sample_cluster_lib picky_manager) \<sigma> \<and>
    clusters (sys_state \<sigma>) ''c1'' = Some (0, cl)"
proof -
  have "\<exists>cl. newScopedCluster documented_lib sample_cluster_lib (config p) ''c1'' (pcache p) (pscheme p) = Ok cl"
    using JoinPath_cluster [OF sample_endpoint_ok sample_url_name_ok(1) sample_request_path_ok,
        of "''https://kcp:6443/services''" "JoinPath_escaped sample_cluster_lib"]
    by (simp add: newScopedCluster_def sample_cluster_lib_def Let_def endpoint_def assms(3))
  then obtain cl where cl: "newScopedCluster documented_lib sample_cluster_lib (config p) ''c1'' (pcache p) (pscheme p) = Ok cl"
    by blast
  let ?\<sigma>0 = "\<lparr>sys_state = start_state p, sys_threads = []\<rparr>"
  let ?ms = "[StartAdd (Obj (sample_object ''c1'' ''d'' ''a'')), StepThread 0 None, StepThread 0 None]"
  have init: "sys_init p ?\<sigma>0" using assms(1,2) by (simp add: sys_init_def)
  obtain \<sigma> where run: "run_schedule documented_lib sample_cluster_lib picky_manager ?ms ?\<sigma>0 = Some \<sigma>"
    and \<sigma>: "clusters (sys_state \<sigma>) ''c1'' = Some (0, cl)"
    using cl assms(1) by (simp add: add_slow_cases add_known_def)
  show ?thesis using run_schedule_reachable [OF init run] \<sigma> by blast
qed

theorem crd_reconciles_in_own_workspace_witness:
  "\<exists>(r :: running) c GetCluster. crd_reconcile GetCluster (\<lambda>c p. working_clients) (run_providerClient r) ''c1'' sample_req sample_world =
     Reconcile working_clients sample_req sample_world \<and>
   client_New sample_cluster_lib \<lparr>Host = ''https://kcp:6443/services/clusters/c1'', cfg_rest = ''''\<rparr>
     (default_Scheme sample_cluster_lib) None = Ok c"
proof -
  obtain r where r: "main_setup sample_main_lib sample_cluster_lib (\<lambda>n. n) sample_flags = Runs r"
    "clusters (run_provider r) = Map.empty" "cancelFns (run_provider r) = Map.empty"
    "config (run_provider r) = \<lparr>Host = ''https://kcp:6443/services'', cfg_rest = ''''\<rparr>"
    using sample_setup by blast
  let ?p = "run_provider r"
  obtain \<sigma> cl where reach: "reachable (sys_init ?p) (sys_step documented_lib sample_cluster_lib picky_manager) \<sigma>"
    and \<sigma>: "clusters (sys_state \<sigma>) ''c1'' = Some (0, cl)"
    using sample_provider_run [OF r(2,3)] r(4) by auto
  let ?G = "provider_GetCluster (sys_state \<sigma>)"
  have "endpoint ''https'' ''kcp:6443'' [''services''] @ ''/clusters/'' @ ''c1'' = ''https://kcp:6443/services/clusters/c1''"
    by (simp add: endpoint_def)
  moreover have "serverURL sample_flags = endpoint ''https'' ''kcp:6443'' [''services''] \<or>
      serverURL sample_flags = endpoint ''https'' ''kcp:6443'' [''services''] @ ''/''"
    using sample_services_ok(2) by blast
  moreover have "serverURL sample_flags \<noteq> ''''" "''c1'' \<noteq> ''''" by simp_all
  ultimately obtain cfg c where "GetConfig sample_main_lib = Ok cfg"
    "client_New sample_cluster_lib (cfg\<lparr>Host := ''https://kcp:6443/services/clusters/c1''\<rparr>)
       (default_Scheme sample_cluster_lib) None = Ok c"
    "crd_reconcile ?G (\<lambda>c p. working_clients) (run_providerClient r) ''c1'' sample_req sample_world =
       Reconcile working_clients sample_req sample_world"
    using crd_reconciles_in_own_workspace [OF r(1) sample_services_ok(1) _ _ sample_url_name_ok(1) _
        sample_request_path_ok reach asks_provider_itself, of "\<lambda>c p. working_clients" sample_req sample_world] \<sigma>
    by fastforce
  then show ?thesis
    by (intro exI [of _ r] exI [of _ c] exI [of _ ?G]) (auto simp: sample_main_lib_def)
qed

text \<open>
  A missing provider kubeconfig is not found missing: without the flag the path is cleaned
  to the current directory, which exists, so the check of the file never fails; the command
  never reports that it is unable to find the provider kubeconfig, and with a client library that
  refuses to read a directory it never gets to the manager.
\<close>

lemma missing_kubeconfig_undetected:
  assumes "providerKubeConfig f = ''''" and "os_Stat M ''.'' = None"
    and "\<exists>err. BuildConfigFromFlags M '''' ''.'' = Err err"
  shows "main_setup M K grow f \<noteq> Exits 1 ''unable to find provider kubeconfig'' \<and>
    (\<forall>r. main_setup M K grow f \<noteq> Runs r)"
proof -
  have dot: "path_Clean '''' = ''.''" by (simp add: path_Clean_def Let_def)
  have server: "main_servers M grow f \<noteq> Exits 1 ''unable to find provider kubeconfig''"
    using main_servers_Exits [of M grow f] by fastforce
  obtain err where "BuildConfigFromFlags M '''' ''.'' = Err err" using assms(3) by blast
  then have "main_setup M K grow f \<noteq> Exits 1 ''unable to find provider kubeconfig''"
    using assms(1,2) server dot by (simp add: main_setup_def process_Exits Let_def)
  moreover have "main_setup M K grow f \<noteq> Runs r" for r
    using main_setup_Runs [of M K grow f r] assms dot by auto
  ultimately show ?thesis by blast
qed

lemma missing_kubeconfig_undetected_witness:
  "main_setup sample_main_lib sample_cluster_lib (\<lambda>n. n) (sample_flags\<lparr>providerKubeConfig := ''''\<rparr>) \<noteq>
     Exits 1 ''unable to find provider kubeconfig''"
proof -
  have "os_Stat sample_main_lib ''.'' = None" "\<exists>err. BuildConfigFromFlags sample_main_lib '''' ''.'' = Err err"
    by (simp_all add: sample_main_lib_def)
  from missing_kubeconfig_undetected [OF _ this, of "sample_flags\<lparr>providerKubeConfig := ''''\<rparr>"
      sample_cluster_lib "\<lambda>n. n"]
  show ?thesis by simp
qed

end
