(* ===== verification/ConfigMap_Example.thy ===== *)
theory ConfigMap_Example
  imports Manager_Main
begin

text \<open>
  The ConfigMap example, \<open>examples/configmap/main.go\<close>: the provider and the manager it sets
  up, and its reconciler, which asks the manager for the cluster of a request, reads the
  ConfigMap through the cluster's client and logs it. The manager's \<open>GetCluster\<close> and the
  client's \<open>Get\<close> are third-party calls; a client is the handle the scoped cluster has. The
  statement that sets a logging transport names a field the provider does not have, so the program
  as it stands does not compile; what is modelled is the program with the provider's field
  \<open>config\<close> in its place.
\<close>

section \<open>The reconciler\<close>

record configmap =
  cm_Name :: string
  cm_UID :: string

definition configmap_reconcile ::
  "(string \<Rightarrow> scopedCluster outcome) \<Rightarrow> (nat \<Rightarrow> object_key \<Rightarrow> configmap outcome) \<Rightarrow>
   string \<Rightarrow> object_key \<Rightarrow> string list list \<Rightarrow> go_error option outcome \<times> string list list" where
  "configmap_reconcile GetCluster client_Get ClusterName key log =
     (case GetCluster ClusterName of
        Panic p \<Rightarrow> (Panic p, log)
      | Err err \<Rightarrow> (Ok (Some (Wrapf ''failed to get cluster: %w'' [] err)), log)
      | Ok cl \<Rightarrow>
          (case client_Get (scopedCluster_GetClient cl) key of
             Panic p \<Rightarrow> (Panic p, log)
           | Err err \<Rightarrow>
               if is_NotFound err then (Ok None, log)
               else (Ok (Some (Wrapf ''failed to get configmap: %w'' [] err)), log)
           | Ok s \<Rightarrow> (Ok None, log @ [[''Reconciling configmap'', ClusterName, cm_Name s, cm_UID s]])))"

text \<open>
  A reconciliation logs at most one entry, and logs one exactly if the ConfigMap was read; a
  deleted ConfigMap is no error, and a missing cluster is one even if its error says NotFound.
\<close>

lemma configmap_reconcile_logs:
  assumes "configmap_reconcile GetCluster client_Get c key log = (Ok r, log')"
  shows "(\<exists>cl s. GetCluster c = Ok cl \<and> client_Get (scopedCluster_GetClient cl) key = Ok s \<and>
      log' = log @ [[''Reconciling configmap'', c, cm_Name s, cm_UID s]] \<and> r = None) \<or>
    log' = log \<and> (r = None \<longleftrightarrow> (\<exists>cl e. GetCluster c = Ok cl \<and>
      client_Get (scopedCluster_GetClient cl) key = Err e \<and> is_NotFound e))"
  using assms by (auto simp: configmap_reconcile_def split: outcome.splits if_splits)

text \<open>A manager that looks clusters up in the provider fails for clusters it does not have.\<close>

lemma configmap_reconcile_unknown_cluster:
  "clusters p c = None \<Longrightarrow>
   configmap_reconcile (provider_GetCluster p) client_Get c key log =
   (Ok (Some (Wrapf ''failed to get cluster: %w'' [] (Errorf ''cluster %q not found'' [c]))), log)"
  by (simp add: configmap_reconcile_def provider_GetCluster_iff)

section \<open>Starting up\<close>

text \<open>
  The package's \<open>init\<close>, over the four \<open>AddToScheme\<close> functions, in the order of their calls: it
  returns the scheme with all of them applied, or panics at the first that fails.
\<close>

definition configmap_init ::
  "(scheme \<Rightarrow> scheme outcome) \<Rightarrow> (scheme \<Rightarrow> scheme outcome) \<Rightarrow> (scheme \<Rightarrow> scheme outcome) \<Rightarrow>
   (scheme \<Rightarrow> scheme outcome) \<Rightarrow> scheme \<Rightarrow> scheme process" where
  "configmap_init corev1alpha1 tenancyv1alpha1 apisv1alpha1 corev1 s =
     init_scheme [corev1alpha1, tenancyv1alpha1, apisv1alpha1, corev1] s"

lemma configmap_init_Runs:
  "configmap_init f1 f2 f3 f4 s = Runs s' \<longleftrightarrow>
     (\<exists>s1 s2 s3. f1 s = Ok s1 \<and> f2 s1 = Ok s2 \<and> f3 s2 = Ok s3 \<and> f4 s3 = Ok s')"
  by (auto simp: configmap_init_def split: outcome.splits)

text \<open>
  The transport: \<open>RoundTripperFunc\<close> makes a function a round tripper, here one that prints the
  URL of the request and hands it on. A request is its URL.
\<close>

type_synonym round_tripper = "string \<Rightarrow> string list \<Rightarrow> string outcome \<times> string list"

definition RoundTripperFunc_RoundTrip :: "round_tripper \<Rightarrow> round_tripper" where
  "RoundTripperFunc_RoundTrip f r = f r"

definition WrapTransport :: "round_tripper \<Rightarrow> round_tripper" where
  "WrapTransport rt = RoundTripperFunc_RoundTrip (\<lambda>r out. rt r (out @ [r]))"

lemma WrapTransport_answers: "WrapTransport rt r out = rt r (out @ [r])"
  by (simp add: WrapTransport_def RoundTripperFunc_RoundTrip_def)

text \<open>
  The \<open>--server\<close> flag is read by a third-party package, so its value is an argument. Manager
  options and provider options are left at their zero values. \<open>set_WrapTransport\<close> assigns that
  field of a \<open>rest.Config\<close>; provider and manager share the configuration by its address, so both
  see the transport, whereas the wildcard cache was made before.
\<close>

definition zero_manager_options :: manager_options where
  "zero_manager_options =
     \<lparr>mo_Scheme = None,
      mo_Metrics = \<lparr>BindAddress = '''', SecureServing = False, metrics_TLSOpts = nil_slice, FilterProvider = False\<rparr>,
      mo_WebhookTLSOpts = None, HealthProbeBindAddress = '''', LeaderElection = False, LeaderElectionID = ''''\<rparr>"

definition configmap_setup ::
  "main_lib \<Rightarrow> 'a cluster_lib_scheme \<Rightarrow> ((round_tripper \<Rightarrow> round_tripper) \<Rightarrow> rest_config \<Rightarrow> rest_config) \<Rightarrow>
   string \<Rightarrow> (rest_config \<times> Provider \<times> nat) process" where
  "configmap_setup M K set_WrapTransport server =
     attempt (GetConfig M) ''unable to get kubeconfig'' (\<lambda>cfg.
     let cfg = override_server server cfg in
     attempt (New K cfg APIBinding \<lparr>opts_Scheme = None, opts_WildcardCache = None\<rparr>)
       ''unable to construct cluster provider'' (\<lambda>provider.
     let cfg = set_WrapTransport WrapTransport cfg;
         provider = provider\<lparr>config := cfg\<rparr> in
     attempt (mcmanager_New M cfg provider zero_manager_options)
       ''unable to set up overall controller manager'' (\<lambda>mgr.
     checked (Complete M mgr ''kcp-configmap-controller'' (TypedT ''*v1.ConfigMap''))
       ''failed to build controller'' (
     Runs (cfg, provider, mgr)))))"

definition configmap_run :: "process_event list \<Rightarrow> (nat \<times> string) option" where
  "configmap_run = main_run ''unable to run manager''"

text \<open>
  The example end to end: when it came up with \<open>--server\<close> set to the URL of a virtual
  workspace, then for a request for a cluster the provider has, the reconciler reads with a
  client made for \<open>server/clusters/name\<close> with the logging transport; it logs exactly the
  ConfigMaps that client returns, a ConfigMap that is gone ends the request without an error,
  and any other failure of the read is returned.
\<close>

lemma configmap_reads_own_workspace:
  assumes "configmap_setup M K set_transport server = Runs (cfg, p, mgr)"
    and "\<And>w c. Host (set_transport w c) = Host c"
    and "endpoint_ok sch authority es"
    and "server = endpoint sch authority es \<or> server = endpoint sch authority es @ ''/''" and "server \<noteq> ''''"
    and "url_name_ok n" and "n \<noteq> ''''" and "request_path_ok L n"
    and "reachable (sys_init p) (sys_step L K engage) \<sigma>"
    and "asks_provider (sys_state \<sigma>) GetCluster"
    and "clusters (sys_state \<sigma>) n = Some (ctx, cl)"
  shows "\<exists>env c. GetConfig M = Ok env \<and>
    client_New K ((set_transport WrapTransport (env\<lparr>Host := server\<rparr>))
      \<lparr>Host := endpoint sch authority es @ ''/clusters/'' @ n\<rparr>) (default_Scheme K) None = Ok c \<and>
    configmap_reconcile GetCluster client_Get n key log =
      (case client_Get c key of
         Ok s \<Rightarrow> (Ok None, log @ [[''Reconciling configmap'', n, cm_Name s, cm_UID s]])
       | Err err \<Rightarrow> (Ok (if is_NotFound err then None else Some (Wrapf ''failed to get configmap: %w'' [] err)), log)
       | Panic e \<Rightarrow> (Panic e, log))"
proof -
  obtain env p0 where env: "GetConfig M = Ok env" "cfg = set_transport WrapTransport (override_server server env)"
    and p: "New K (override_server server env) APIBinding \<lparr>opts_Scheme = None, opts_WildcardCache = None\<rparr> = Ok p0"
      "p = p0\<lparr>config := cfg\<rparr>"
    using assms(1) by (auto simp: configmap_setup_def process_Runs Let_def)
  have cfg: "cfg = set_transport WrapTransport (env\<lparr>Host := server\<rparr>)"
    using env(2) assms(5) by (simp add: override_server_def)
  then have host: "Host (config p) = endpoint sch authority es \<or> Host (config p) = endpoint sch authority es @ [slash]"
    using assms(2,4) p(2) by simp
  have ask: "GetCluster n = Ok cl" using assms(7,10,11) by (simp add: asks_provider_def provider_GetCluster_iff)
  have "config p = cfg" "pscheme p = default_Scheme K" using p(2) New_Ok [OF p(1)] by simp_all
  then show ?thesis
    using cluster_client [OF assms(3) host assms(6,8,9,11)] env(1) cfg ask
    by (simp add: configmap_reconcile_def split: outcome.split)
qed

end
