(* ===== verification/API_Types.thy ===== *)
theory API_Types
  imports App_Controller
begin

text \<open>
  The API types of the CRD example and their generated copy functions,
  \<open>examples/crd/api/v1alpha1/application_types.go\<close>, \<open>groupversion_info.go\<close> and
  \<open>zz_generated.deepcopy.go\<close>. The copy functions are about aliasing, so structs live in a heap
  here: a struct assignment copies the references in it, and only the deep copy allocates
  what they point to. The theorems say that a copy shares no memory with what existed before
  and has the same content, and that the code respects the Go types of the heap.
\<close>

section \<open>Types\<close>

text \<open>
  A reference is an address or nil. Of \<open>metav1.ObjectMeta\<close> and \<open>metav1.ListMeta\<close> the model has
  fields of every kind the structs have: plain ones, maps, slices and pointers. A slice is its array with
  an offset and a length.
\<close>

type_synonym addr = nat

record TypeMeta =
  tm_Kind :: string
  tm_APIVersion :: string

record ObjectMeta =
  om_Name :: string
  om_Namespace :: string
  om_ResourceVersion :: string
  om_Labels :: "addr option"
  om_Annotations :: "addr option"
  om_Finalizers :: "addr option"

record ListMeta =
  lm_ResourceVersion :: string
  lm_Continue :: string
  lm_RemainingItemCount :: "addr option"

record ApplicationSpec =
  spec_DatabaseRef :: string
  spec_DatabaseSecretRef :: secret_reference

record ApplicationStatus =
  status_Status :: string
  status_ConnectionString :: string

record Application =
  a_TypeMeta :: TypeMeta
  a_ObjectMeta :: ObjectMeta
  a_Spec :: ApplicationSpec
  a_Status :: ApplicationStatus

record slice =
  sl_array :: addr
  sl_offset :: nat
  sl_len :: nat

record ApplicationList =
  l_TypeMeta :: TypeMeta
  l_ListMeta :: ListMeta
  l_Items :: "slice option"

text \<open>\<open>GroupVersion\<close>, and the types the package's \<open>init\<close> registers under it.\<close>

definition GroupVersion :: "string \<times> string" where
  "GroupVersion = (''apis.contrib.kcp.io'', ''v1alpha1'')"

definition registered_types :: "go_type list" where
  "registered_types = [TypedT ''*v1alpha1.Application'', TypedT ''*v1alpha1.ApplicationList'']"

section \<open>The heap\<close>

text \<open>
  An allocated variable: a map, an array of strings, a number, an array of applications (a
  single variable is an array of length one), or a variable of one of the other types. A
  pointer to an \<open>Application\<close> may point into an array.
\<close>

datatype cell =
    MapCell "string \<rightharpoonup> string"
  | StringsCell "string list"
  | Int64Cell int
  | AppsCell "Application list"
  | ListCell ApplicationList
  | SpecCell ApplicationSpec
  | StatusCell ApplicationStatus

record heap =
  cells :: "addr \<rightharpoonup> cell"
  next_addr :: addr

type_synonym app_ptr = "addr \<times> nat"

definition alloc :: "cell \<Rightarrow> heap \<Rightarrow> addr \<times> heap" where
  "alloc c h = (next_addr h, h\<lparr>cells := (cells h)(next_addr h \<mapsto> c), next_addr := Suc (next_addr h)\<rparr>)"

definition store :: "addr \<Rightarrow> cell \<Rightarrow> heap \<Rightarrow> heap" where
  "store a c h = h\<lparr>cells := (cells h)(a \<mapsto> c)\<rparr>"

definition load_app :: "heap \<Rightarrow> app_ptr \<Rightarrow> Application option" where
  "load_app h p =
     (case cells h (fst p) of
        Some (AppsCell vs) \<Rightarrow> if snd p < length vs then Some (vs ! snd p) else None
      | _ \<Rightarrow> None)"

definition store_app :: "app_ptr \<Rightarrow> Application \<Rightarrow> heap \<Rightarrow> heap" where
  "store_app p v h =
     (case cells h (fst p) of
        Some (AppsCell vs) \<Rightarrow> store (fst p) (AppsCell (vs[snd p := v])) h
      | _ \<Rightarrow> h)"

definition load_list :: "heap \<Rightarrow> addr \<Rightarrow> ApplicationList option" where
  "load_list h a = (case cells h a of Some (ListCell l) \<Rightarrow> Some l | _ \<Rightarrow> None)"

definition load_spec :: "heap \<Rightarrow> addr \<Rightarrow> ApplicationSpec option" where
  "load_spec h a = (case cells h a of Some (SpecCell s) \<Rightarrow> Some s | _ \<Rightarrow> None)"

definition load_status :: "heap \<Rightarrow> addr \<Rightarrow> ApplicationStatus option" where
  "load_status h a = (case cells h a of Some (StatusCell s) \<Rightarrow> Some s | _ \<Rightarrow> None)"

text \<open>The zero values \<open>new\<close> and \<open>make\<close> start from.\<close>

definition zero_TypeMeta :: TypeMeta where
  "zero_TypeMeta = \<lparr>tm_Kind = '''', tm_APIVersion = ''''\<rparr>"

definition zero_spec :: ApplicationSpec where
  "zero_spec = \<lparr>spec_DatabaseRef = '''', spec_DatabaseSecretRef = \<lparr>ref_Name = '''', ref_Namespace = ''''\<rparr>\<rparr>"

definition zero_status :: ApplicationStatus where
  "zero_status = \<lparr>status_Status = '''', status_ConnectionString = ''''\<rparr>"

definition zero_app :: Application where
  "zero_app =
     \<lparr>a_TypeMeta = zero_TypeMeta,
      a_ObjectMeta = \<lparr>om_Name = '''', om_Namespace = '''', om_ResourceVersion = '''',
                      om_Labels = None, om_Annotations = None, om_Finalizers = None\<rparr>,
      a_Spec = zero_spec, a_Status = zero_status\<rparr>"

definition zero_list :: ApplicationList where
  "zero_list =
     \<lparr>l_TypeMeta = zero_TypeMeta,
      l_ListMeta = \<lparr>lm_ResourceVersion = '''', lm_Continue = '''', lm_RemainingItemCount = None\<rparr>,
      l_Items = None\<rparr>"

section \<open>The copy functions\<close>

text \<open>
  The library's \<open>ObjectMeta.DeepCopyInto\<close> and \<open>ListMeta.DeepCopyInto\<close>: what they write to
  their target for a source, and the heap after they allocated what that refers to. The two
  pointers of a \<open>DeepCopyInto\<close> are pointers to different variables wherever it is called.
\<close>

record copy_lib =
  copy_ObjectMeta :: "ObjectMeta \<Rightarrow> heap \<Rightarrow> ObjectMeta \<times> heap"
  copy_ListMeta :: "ListMeta \<Rightarrow> heap \<Rightarrow> ListMeta \<times> heap"

text \<open>A field access through a pointer the code has already read or written through.\<close>

definition get_app :: "heap \<Rightarrow> app_ptr \<Rightarrow> Application" where
  "get_app h p = (case load_app h p of Some v \<Rightarrow> v | None \<Rightarrow> zero_app)"

definition Application_DeepCopyInto :: "copy_lib \<Rightarrow> app_ptr \<Rightarrow> app_ptr \<Rightarrow> heap \<Rightarrow> heap outcome" where
  "Application_DeepCopyInto D inp outp h =
     (if load_app h inp = None \<or> load_app h outp = None then Panic nil_dereference
      else
        let h = store_app outp (get_app h inp) h;
            h = store_app outp ((get_app h outp)\<lparr>a_TypeMeta := a_TypeMeta (get_app h inp)\<rparr>) h;
            (m, h) = copy_ObjectMeta D (a_ObjectMeta (get_app h inp)) h;
            h = store_app outp ((get_app h outp)\<lparr>a_ObjectMeta := m\<rparr>) h;
            h = store_app outp ((get_app h outp)\<lparr>a_Spec := a_Spec (get_app h inp)\<rparr>) h;
            h = store_app outp ((get_app h outp)\<lparr>a_Status := a_Status (get_app h inp)\<rparr>) h
        in Ok h)"

definition Application_DeepCopy ::
  "copy_lib \<Rightarrow> app_ptr option \<Rightarrow> heap \<Rightarrow> (app_ptr option \<times> heap) outcome" where
  "Application_DeepCopy D inp h =
     (case inp of
        None \<Rightarrow> Ok (None, h)
      | Some p \<Rightarrow>
          (let (a, h) = alloc (AppsCell [zero_app]) h
           in case Application_DeepCopyInto D p (a, 0) h of
                Ok h \<Rightarrow> Ok (Some (a, 0), h)
              | Err err \<Rightarrow> Err err
              | Panic e \<Rightarrow> Panic e))"

text \<open>A value of the interface \<open>runtime.Object\<close> is nil or a pointer with its type.\<close>

datatype runtime_Object = ApplicationObject app_ptr | ApplicationListObject addr

definition Application_DeepCopyObject ::
  "copy_lib \<Rightarrow> app_ptr option \<Rightarrow> heap \<Rightarrow> (runtime_Object option \<times> heap) outcome" where
  "Application_DeepCopyObject D inp h =
     (case Application_DeepCopy D inp h of
        Ok (c, h) \<Rightarrow> (case c of Some p \<Rightarrow> Ok (Some (ApplicationObject p), h) | None \<Rightarrow> Ok (None, h))
      | Err err \<Rightarrow> Err err
      | Panic e \<Rightarrow> Panic e)"

text \<open>The loop over the items of a list, over the indices left.\<close>

fun copy_items :: "copy_lib \<Rightarrow> slice \<Rightarrow> slice \<Rightarrow> nat list \<Rightarrow> heap \<Rightarrow> heap outcome" where
  "copy_items D inp outp [] h = Ok h"
| "copy_items D inp outp (i # is) h =
     (case Application_DeepCopyInto D (sl_array inp, sl_offset inp + i) (sl_array outp, sl_offset outp + i) h of
        Ok h \<Rightarrow> copy_items D inp outp is h
      | Err err \<Rightarrow> Err err
      | Panic e \<Rightarrow> Panic e)"

definition get_list :: "heap \<Rightarrow> addr \<Rightarrow> ApplicationList" where
  "get_list h a = (case load_list h a of Some l \<Rightarrow> l | None \<Rightarrow> zero_list)"

definition ApplicationList_DeepCopyInto :: "copy_lib \<Rightarrow> addr \<Rightarrow> addr \<Rightarrow> heap \<Rightarrow> heap outcome" where
  "ApplicationList_DeepCopyInto D inp outp h =
     (if load_list h inp = None \<or> load_list h outp = None then Panic nil_dereference
      else
        let h = store outp (ListCell (get_list h inp)) h;
            h = store outp (ListCell ((get_list h outp)\<lparr>l_TypeMeta := l_TypeMeta (get_list h inp)\<rparr>)) h;
            (m, h) = copy_ListMeta D (l_ListMeta (get_list h inp)) h;
            h = store outp (ListCell ((get_list h outp)\<lparr>l_ListMeta := m\<rparr>)) h
        in case l_Items (get_list h inp) of
             None \<Rightarrow> Ok h
           | Some s \<Rightarrow>
               (let (a, h) = alloc (AppsCell (replicate (sl_len s) zero_app)) h;
                    t = \<lparr>sl_array = a, sl_offset = 0, sl_len = sl_len s\<rparr>;
                    h = store outp (ListCell ((get_list h outp)\<lparr>l_Items := Some t\<rparr>)) h
                in copy_items D s t [0..<sl_len s] h))"

definition ApplicationList_DeepCopy ::
  "copy_lib \<Rightarrow> addr option \<Rightarrow> heap \<Rightarrow> (addr option \<times> heap) outcome" where
  "ApplicationList_DeepCopy D inp h =
     (case inp of
        None \<Rightarrow> Ok (None, h)
      | Some p \<Rightarrow>
          (let (a, h) = alloc (ListCell zero_list) h
           in case ApplicationList_DeepCopyInto D p a h of
                Ok h \<Rightarrow> Ok (Some a, h)
              | Err err \<Rightarrow> Err err
              | Panic e \<Rightarrow> Panic e))"

definition ApplicationList_DeepCopyObject ::
  "copy_lib \<Rightarrow> addr option \<Rightarrow> heap \<Rightarrow> (runtime_Object option \<times> heap) outcome" where
  "ApplicationList_DeepCopyObject D inp h =
     (case ApplicationList_DeepCopy D inp h of
        Ok (c, h) \<Rightarrow> (case c of Some p \<Rightarrow> Ok (Some (ApplicationListObject p), h) | None \<Rightarrow> Ok (None, h))
      | Err err \<Rightarrow> Err err
      | Panic e \<Rightarrow> Panic e)"

definition ApplicationSpec_DeepCopyInto :: "addr \<Rightarrow> addr \<Rightarrow> heap \<Rightarrow> heap outcome" where
  "ApplicationSpec_DeepCopyInto inp outp h =
     (case (load_spec h inp, load_spec h outp) of
        (Some v, Some w) \<Rightarrow>
          (let h = store outp (SpecCell v) h
           in Ok (store outp (SpecCell (v\<lparr>spec_DatabaseSecretRef := spec_DatabaseSecretRef v\<rparr>)) h))
      | _ \<Rightarrow> Panic nil_dereference)"

definition ApplicationSpec_DeepCopy :: "addr option \<Rightarrow> heap \<Rightarrow> (addr option \<times> heap) outcome" where
  "ApplicationSpec_DeepCopy inp h =
     (case inp of
        None \<Rightarrow> Ok (None, h)
      | Some p \<Rightarrow>
          (let (a, h) = alloc (SpecCell zero_spec) h
           in case ApplicationSpec_DeepCopyInto p a h of
                Ok h \<Rightarrow> Ok (Some a, h)
              | Err err \<Rightarrow> Err err
              | Panic e \<Rightarrow> Panic e))"

definition ApplicationStatus_DeepCopyInto :: "addr \<Rightarrow> addr \<Rightarrow> heap \<Rightarrow> heap outcome" where
  "ApplicationStatus_DeepCopyInto inp outp h =
     (case (load_status h inp, load_status h outp) of
        (Some v, Some w) \<Rightarrow> Ok (store outp (StatusCell v) h)
      | _ \<Rightarrow> Panic nil_dereference)"

definition ApplicationStatus_DeepCopy :: "addr option \<Rightarrow> heap \<Rightarrow> (addr option \<times> heap) outcome" where
  "ApplicationStatus_DeepCopy inp h =
     (case inp of
        None \<Rightarrow> Ok (None, h)
      | Some p \<Rightarrow>
          (let (a, h) = alloc (StatusCell zero_status) h
           in case ApplicationStatus_DeepCopyInto p a h of
                Ok h \<Rightarrow> Ok (Some a, h)
              | Err err \<Rightarrow> Err err
              | Panic e \<Rightarrow> Panic e))"

section \<open>Typed heaps\<close>

text \<open>
  A heap is well-typed if every reference in an allocated variable points to an allocated
  variable of the type the field has, and every slice lies within its array. Variables of
  maps, strings and numbers refer to nothing.
\<close>

datatype cell_type = MapT | StringsT | Int64T | AppsT nat | ListT | SpecT | StatusT

fun type_of_cell :: "cell \<Rightarrow> cell_type" where
  "type_of_cell (MapCell m) = MapT"
| "type_of_cell (StringsCell ss) = StringsT"
| "type_of_cell (Int64Cell i) = Int64T"
| "type_of_cell (AppsCell vs) = AppsT (length vs)"
| "type_of_cell (ListCell l) = ListT"
| "type_of_cell (SpecCell s) = SpecT"
| "type_of_cell (StatusCell s) = StatusT"

definition type_at :: "heap \<Rightarrow> addr \<rightharpoonup> cell_type" where
  "type_at h a = map_option type_of_cell (cells h a)"

definition meta_ok :: "heap \<Rightarrow> ObjectMeta \<Rightarrow> bool" where
  "meta_ok h m \<longleftrightarrow> pred_option (\<lambda>a. type_at h a = Some MapT) (om_Labels m) \<and> pred_option (\<lambda>a. type_at h a = Some MapT) (om_Annotations m) \<and>
     pred_option (\<lambda>a. type_at h a = Some StringsT) (om_Finalizers m)"

definition listmeta_ok :: "heap \<Rightarrow> ListMeta \<Rightarrow> bool" where
  "listmeta_ok h m \<longleftrightarrow> pred_option (\<lambda>a. type_at h a = Some Int64T) (lm_RemainingItemCount m)"

definition slice_ok :: "heap \<Rightarrow> slice \<Rightarrow> bool" where
  "slice_ok h s \<longleftrightarrow>
     (\<exists>n. type_at h (sl_array s) = Some (AppsT n) \<and> sl_offset s + sl_len s \<le> n)"

fun cell_ok :: "heap \<Rightarrow> cell \<Rightarrow> bool" where
  "cell_ok h (AppsCell vs) = (\<forall>v \<in> set vs. meta_ok h (a_ObjectMeta v))"
| "cell_ok h (ListCell l) = (listmeta_ok h (l_ListMeta l) \<and> pred_option (slice_ok h) (l_Items l))"
| "cell_ok h _ = True"

definition heap_ok :: "heap \<Rightarrow> bool" where
  "heap_ok h \<longleftrightarrow> (\<forall>a c. cells h a = Some c \<longrightarrow> a < next_addr h \<and> cell_ok h c)"

section \<open>Content and memory of a value\<close>

text \<open>
  What a value denotes, with its references followed, and the variables it is made of.
\<close>

definition deref :: "heap \<Rightarrow> addr option \<Rightarrow> cell option" where
  "deref h r = (case r of None \<Rightarrow> None | Some a \<Rightarrow> cells h a)"

definition meta_content :: "heap \<Rightarrow> ObjectMeta \<Rightarrow> (string \<times> string \<times> string) \<times> cell option list" where
  "meta_content h m = ((om_Name m, om_Namespace m, om_ResourceVersion m),
     map (deref h) [om_Labels m, om_Annotations m, om_Finalizers m])"

definition listmeta_content :: "heap \<Rightarrow> ListMeta \<Rightarrow> (string \<times> string) \<times> cell option" where
  "listmeta_content h m = ((lm_ResourceVersion m, lm_Continue m), deref h (lm_RemainingItemCount m))"

definition app_content where
  "app_content h v = (a_TypeMeta v, meta_content h (a_ObjectMeta v), a_Spec v, a_Status v)"

definition slice_apps :: "heap \<Rightarrow> slice \<Rightarrow> Application list" where
  "slice_apps h s = map (\<lambda>i. get_app h (sl_array s, sl_offset s + i)) [0..<sl_len s]"

definition list_content where
  "list_content h l = (l_TypeMeta l, listmeta_content h (l_ListMeta l),
     map_option (\<lambda>s. map (app_content h) (slice_apps h s)) (l_Items l))"

definition meta_refs :: "ObjectMeta \<Rightarrow> addr set" where
  "meta_refs m = set_option (om_Labels m) \<union> set_option (om_Annotations m) \<union> set_option (om_Finalizers m)"

definition slice_memory :: "heap \<Rightarrow> slice \<Rightarrow> addr set" where
  "slice_memory h s = insert (sl_array s) (\<Union>v \<in> set (slice_apps h s). meta_refs (a_ObjectMeta v))"

definition list_memory :: "heap \<Rightarrow> ApplicationList \<Rightarrow> addr set" where
  "list_memory h l = set_option (lm_RemainingItemCount (l_ListMeta l)) \<union>
     (case l_Items l of None \<Rightarrow> {} | Some s \<Rightarrow> slice_memory h s)"

section \<open>Laws of the heap\<close>

definition extends :: "heap \<Rightarrow> heap \<Rightarrow> bool" where
  "extends h h' \<longleftrightarrow> next_addr h \<le> next_addr h' \<and> (\<forall>a < next_addr h. cells h' a = cells h a)"

lemma heap_okD: "heap_ok h \<Longrightarrow> cells h a = Some c \<Longrightarrow> a < next_addr h \<and> cell_ok h c"
  by (simp add: heap_ok_def)

lemma fresh_none: "heap_ok h \<Longrightarrow> next_addr h \<le> a \<Longrightarrow> cells h a = None"
  using heap_okD [of h a] by (cases "cells h a") auto

lemma extends_types: "heap_ok h \<Longrightarrow> extends h h' \<Longrightarrow> type_at h \<subseteq>\<^sub>m type_at h'"
  by (auto simp: map_le_def dom_def type_at_def extends_def dest: heap_okD)

lemma types_mono:
  assumes "type_at h \<subseteq>\<^sub>m type_at h'"
  shows "meta_ok h m \<Longrightarrow> meta_ok h' m" and "listmeta_ok h lm \<Longrightarrow> listmeta_ok h' lm"
    and "slice_ok h s \<Longrightarrow> slice_ok h' s"
proof -
  have le: "type_at h a = Some t \<Longrightarrow> type_at h' a = Some t" for a t
    by (rule map_le_Some [OF assms])
  have "pred_option (\<lambda>a. type_at h a = Some t) r \<Longrightarrow> pred_option (\<lambda>a. type_at h' a = Some t) r" for t r
    by (erule option.pred_mono_strong) (rule le)
  then show "meta_ok h m \<Longrightarrow> meta_ok h' m" and "listmeta_ok h lm \<Longrightarrow> listmeta_ok h' lm"
    unfolding meta_ok_def listmeta_ok_def by blast+
  show "slice_ok h s \<Longrightarrow> slice_ok h' s" unfolding slice_ok_def by (blast intro: le)
qed

lemma cell_ok_mono: "type_at h \<subseteq>\<^sub>m type_at h' \<Longrightarrow> cell_ok h c \<Longrightarrow> cell_ok h' c"
  by (cases c) (auto simp: pred_option_def dest: types_mono)

lemma store_sel [simp]:
  "cells (store a c h) = (cells h)(a \<mapsto> c)" "next_addr (store a c h) = next_addr h"
  by (simp_all add: store_def)

lemma store_types: "type_at h a = Some (type_of_cell c) \<Longrightarrow> type_at (store a c h) = type_at h"
  by (auto simp: type_at_def fun_eq_iff)

lemma store_ok:
  assumes "heap_ok h" and "type_at h a = Some (type_of_cell c)" and "cell_ok h c"
  shows "heap_ok (store a c h)"
proof -
  have le: "type_at h \<subseteq>\<^sub>m type_at (store a c h)" using store_types [OF assms(2)] by (simp add: map_le_def)
  have "a < next_addr h" using assms(1,2) by (auto simp: type_at_def dest: heap_okD)
  then show ?thesis
    using assms(1,3) cell_ok_mono [OF le] by (auto simp: heap_ok_def)
qed

lemma alloc_sel [simp]:
  "fst (alloc c h) = next_addr h" "cells (snd (alloc c h)) = (cells h)(next_addr h \<mapsto> c)"
  "next_addr (snd (alloc c h)) = Suc (next_addr h)"
  by (simp_all add: alloc_def)

lemma alloc_extends: "extends h (snd (alloc c h))"
  by (auto simp: extends_def)

lemma alloc_ok:
  assumes "heap_ok h" and "cell_ok h c"
  shows "heap_ok (snd (alloc c h))"
  using assms cell_ok_mono [OF extends_types [OF assms(1) alloc_extends]]
  by (auto simp: heap_ok_def less_Suc_eq)

lemma extends_refl [simp]: "extends h h"
  by (simp add: extends_def)

lemma extends_trans: "extends h h' \<Longrightarrow> extends h' h'' \<Longrightarrow> extends h h''"
  by (auto simp: extends_def)

lemma extends_store: "extends h h' \<Longrightarrow> next_addr h \<le> a \<Longrightarrow> extends h (store a c h')"
  by (auto simp: extends_def)

lemma extends_cell: "heap_ok h \<Longrightarrow> extends h h' \<Longrightarrow> cells h a = Some c \<Longrightarrow> cells h' a = Some c"
  by (metis extends_def heap_okD)

text \<open>What a value denotes depends on the variables it is made of.\<close>

lemma meta_content_cong:
  "(\<And>a. a \<in> meta_refs m \<Longrightarrow> cells h' a = cells h a) \<Longrightarrow> meta_content h' m = meta_content h m"
  by (auto simp: meta_content_def meta_refs_def deref_def split: option.split)

lemma listmeta_content_cong:
  "(\<And>a. a \<in> set_option (lm_RemainingItemCount m) \<Longrightarrow> cells h' a = cells h a) \<Longrightarrow>
   listmeta_content h' m = listmeta_content h m"
  by (auto simp: listmeta_content_def deref_def split: option.split)

lemma app_content_cong:
  "(\<And>a. a \<in> meta_refs (a_ObjectMeta v) \<Longrightarrow> cells h' a = cells h a) \<Longrightarrow> app_content h' v = app_content h v"
  using meta_content_cong [of "a_ObjectMeta v" h' h] by (simp add: app_content_def)

lemma meta_refs_typed: "meta_ok h m \<Longrightarrow> a \<in> meta_refs m \<Longrightarrow> type_at h a \<in> {Some MapT, Some StringsT}"
  by (auto simp: meta_ok_def meta_refs_def pred_option_def)

lemma meta_refs_below: "heap_ok h \<Longrightarrow> meta_ok h m \<Longrightarrow> a \<in> meta_refs m \<Longrightarrow> a < next_addr h"
  by (auto simp: type_at_def dest!: meta_refs_typed dest: heap_okD)

text \<open>Applications in the heap.\<close>

lemma load_app_get: "load_app h p = Some v \<Longrightarrow> get_app h p = v"
  by (simp add: get_app_def)

lemma load_appD:
  "load_app h p = Some v \<Longrightarrow> \<exists>vs. cells h (fst p) = Some (AppsCell vs) \<and> snd p < length vs \<and> v = vs ! snd p"
  by (auto simp: load_app_def split: option.splits cell.splits if_splits)

lemma load_app_meta_ok: "heap_ok h \<Longrightarrow> load_app h p = Some v \<Longrightarrow> meta_ok h (a_ObjectMeta v)"
  using heap_okD by (fastforce dest!: load_appD)

lemma load_store_same: "load_app h p \<noteq> None \<Longrightarrow> load_app (store_app p v h) p = Some v"
  by (auto simp: load_app_def store_app_def split: option.splits cell.splits if_splits)

lemma load_store_other: "fst p \<noteq> fst q \<Longrightarrow> load_app (store_app p v h) q = load_app h q"
  by (auto simp: load_app_def store_app_def split: option.splits cell.splits)

lemma store_app_twice: "store_app p w (store_app p v h) = store_app p w h"
  by (cases "cells h (fst p)") (auto simp: store_app_def store_def split: cell.splits)

lemma store_app_next [simp]: "next_addr (store_app p v h) = next_addr h"
  by (simp add: store_app_def split: option.split cell.split)

lemma store_app_cells: "a \<noteq> fst p \<Longrightarrow> cells (store_app p v h) a = cells h a"
  by (simp add: store_app_def split: option.split cell.split)

lemma store_app_types [simp]: "type_at (store_app p v h) = type_at h"
  by (auto simp: store_app_def type_at_def fun_eq_iff split: option.split cell.split)

lemma store_app_ok:
  assumes "heap_ok h" and "meta_ok h (a_ObjectMeta v)"
  shows "heap_ok (store_app p v h)"
proof -
  have "heap_ok (store (fst p) (AppsCell (vs[snd p := v])) h)" if c: "cells h (fst p) = Some (AppsCell vs)" for vs
  proof (rule store_ok)
    show "cell_ok h (AppsCell (vs[snd p := v]))"
      using heap_okD [OF assms(1) c] assms(2) set_update_subset_insert [of vs "snd p" v] by auto
  qed (use assms(1) c in \<open>simp_all add: type_at_def\<close>)
  then show ?thesis using assms(1) by (simp add: store_app_def split: option.split cell.split)
qed

lemma load_app_extends: "heap_ok h \<Longrightarrow> extends h h' \<Longrightarrow> load_app h p = Some v \<Longrightarrow> load_app h' p = Some v"
  using extends_cell [of h h' "fst p"] by (fastforce simp: load_app_def split: option.splits cell.splits if_splits)

section \<open>What a copy of an application is\<close>

text \<open>
  The documented behaviour of the library's copies: the result has the same content, in newly
  allocated memory, and memory that was there is untouched.
\<close>

definition copies_ok :: "copy_lib \<Rightarrow> bool" where
  "copies_ok D \<longleftrightarrow>
     (\<forall>h m m' h'. heap_ok h \<longrightarrow> meta_ok h m \<longrightarrow> copy_ObjectMeta D m h = (m', h') \<longrightarrow>
        heap_ok h' \<and> extends h h' \<and> meta_ok h' m' \<and> meta_content h' m' = meta_content h m \<and>
        meta_refs m' \<inter> {..<next_addr h} = {}) \<and>
     (\<forall>h m m' h'. heap_ok h \<longrightarrow> listmeta_ok h m \<longrightarrow> copy_ListMeta D m h = (m', h') \<longrightarrow>
        heap_ok h' \<and> extends h h' \<and> listmeta_ok h' m' \<and> listmeta_content h' m' = listmeta_content h m \<and>
        set_option (lm_RemainingItemCount m') \<inter> {..<next_addr h} = {})"

lemma copies_okD:
  assumes "copies_ok D" and "heap_ok h"
  shows "meta_ok h m \<Longrightarrow> copy_ObjectMeta D m h = (m', h') \<Longrightarrow>
      heap_ok h' \<and> extends h h' \<and> meta_ok h' m' \<and> meta_content h' m' = meta_content h m \<and>
      meta_refs m' \<inter> {..<next_addr h} = {}"
    and "listmeta_ok h lm \<Longrightarrow> copy_ListMeta D lm h = (lm', h') \<Longrightarrow>
      heap_ok h' \<and> extends h h' \<and> listmeta_ok h' lm' \<and> listmeta_content h' lm' = listmeta_content h lm \<and>
      set_option (lm_RemainingItemCount lm') \<inter> {..<next_addr h} = {}"
  using assms unfolding copies_ok_def by blast+

lemma Application_DeepCopyInto_eq:
  assumes D: "copies_ok D" and ok: "heap_ok h" and inp: "load_app h inp = Some v"
    and outp: "load_app h outp \<noteq> None" and apart: "fst inp \<noteq> fst outp"
    and copy: "copy_ObjectMeta D (a_ObjectMeta v) (store_app outp v h) = (m, h2)"
  shows "Application_DeepCopyInto D inp outp h = Ok (store_app outp (v\<lparr>a_ObjectMeta := m\<rparr>) h2)"
    and "heap_ok h2" and "extends (store_app outp v h) h2" and "load_app h2 outp = Some v"
proof -
  let ?h1 = "store_app outp v h"
  have ok1: "heap_ok ?h1" and meta: "meta_ok ?h1 (a_ObjectMeta v)"
    using store_app_ok [OF ok] load_app_meta_ok [OF ok inp] types_mono(1) [of h ?h1] by simp_all
  show ok2: "heap_ok h2" and ext: "extends ?h1 h2" using copies_okD(1) [OF D ok1 meta copy] by blast+
  have out1: "load_app ?h1 outp = Some v" and in1: "load_app ?h1 inp = Some v"
    using load_store_same [OF outp] load_store_other [of outp inp v h] apart inp by auto
  show out2: "load_app h2 outp = Some v" by (rule load_app_extends [OF ok1 ext out1])
  have in2: "load_app h2 inp = Some v" by (rule load_app_extends [OF ok1 ext in1])
  have get: "get_app (store_app outp w g) outp = w" "get_app (store_app outp w g) inp = v"
    if "load_app g outp \<noteq> None" and "load_app g inp = Some v" for w g
    using load_store_same [OF that(1)] load_store_other [of outp inp w g] apart that(2)
    by (simp_all add: get_app_def)
  have got: "get_app h inp = v" "get_app ?h1 outp = v" "get_app ?h1 inp = v" "get_app h2 outp = v"
    "get_app h2 inp = v" "get_app (store_app outp (v\<lparr>a_ObjectMeta := m\<rparr>) h2) outp = v\<lparr>a_ObjectMeta := m\<rparr>"
    "get_app (store_app outp (v\<lparr>a_ObjectMeta := m\<rparr>) h2) inp = v"
    using inp outp out1 in1 out2 in2 get [of h v] get [of h2] by (simp_all add: load_app_get)
  have "load_app h inp \<noteq> None" using inp by simp
  then show "Application_DeepCopyInto D inp outp h = Ok (store_app outp (v\<lparr>a_ObjectMeta := m\<rparr>) h2)"
    using outp copy by (simp add: Application_DeepCopyInto_def Let_def got store_app_twice)
qed

text \<open>
  One application: its content arrives in the target, whose new references are fresh; every
  other variable is as before.
\<close>

lemma Application_DeepCopyInto_spec:
  assumes D: "copies_ok D" and ok: "heap_ok h" and inp: "load_app h inp = Some v"
    and outp: "cells h (fst outp) = Some (AppsCell ws)" "snd outp < length ws" and apart: "fst inp \<noteq> fst outp"
  shows "\<exists>h' v'. Application_DeepCopyInto D inp outp h = Ok h' \<and> heap_ok h' \<and>
    cells h' (fst outp) = Some (AppsCell (ws[snd outp := v'])) \<and> app_content h' v' = app_content h v \<and>
    meta_refs (a_ObjectMeta v') \<inter> {..<next_addr h} = {} \<and> next_addr h \<le> next_addr h' \<and>
    (\<forall>a < next_addr h. a \<noteq> fst outp \<longrightarrow> cells h' a = cells h a)"
proof -
  let ?h1 = "store_app outp v h"
  have load: "load_app h outp \<noteq> None" using outp by (simp add: load_app_def)
  have meta: "meta_ok h (a_ObjectMeta v)" by (rule load_app_meta_ok [OF ok inp])
  have ok1: "heap_ok ?h1" and meta1: "meta_ok ?h1 (a_ObjectMeta v)"
    using store_app_ok [OF ok meta] types_mono(1) [of h ?h1] meta by simp_all
  obtain m h2 where copy: "copy_ObjectMeta D (a_ObjectMeta v) ?h1 = (m, h2)" by fastforce
  let ?v' = "v\<lparr>a_ObjectMeta := m\<rparr>" and ?h' = "store_app outp (v\<lparr>a_ObjectMeta := m\<rparr>) h2"
  note eq = Application_DeepCopyInto_eq [OF D ok inp load apart copy]
  have m: "meta_ok h2 m" "meta_content h2 m = meta_content ?h1 (a_ObjectMeta v)" "meta_refs m \<inter> {..<next_addr h} = {}"
    using copies_okD(1) [OF D ok1 meta1 copy] by simp_all
  have out1: "cells ?h1 (fst outp) = Some (AppsCell (ws[snd outp := v]))" using outp by (simp add: store_app_def)
  have out2: "cells h2 (fst outp) = Some (AppsCell (ws[snd outp := v]))"
    by (rule extends_cell [OF ok1 eq(3) out1])
  have typed: "a \<noteq> fst outp" if "meta_ok g k" and "a \<in> meta_refs k" and "type_at g (fst outp) \<noteq> Some MapT"
    and "type_at g (fst outp) \<noteq> Some StringsT" for a g k
    using meta_refs_typed [OF that(1,2)] that(3,4) by auto
  have "meta_content ?h' m = meta_content h2 m"
    by (rule meta_content_cong) (use typed [OF m(1)] out2 in \<open>auto simp: store_app_cells type_at_def\<close>)
  moreover have "meta_content ?h1 (a_ObjectMeta v) = meta_content h (a_ObjectMeta v)"
    by (rule meta_content_cong) (use typed [OF meta] outp in \<open>auto simp: store_app_cells type_at_def\<close>)
  ultimately have content: "app_content ?h' ?v' = app_content h v" using m(2) by (simp add: app_content_def)
  have "cells ?h' (fst outp) = Some (AppsCell (ws[snd outp := ?v']))"
    using out2 by (simp add: store_app_def)
  moreover have "cells ?h' a = cells h a" if "a < next_addr h" "a \<noteq> fst outp" for a
    using that eq(3) by (simp add: store_app_cells extends_def)
  moreover have "heap_ok ?h'" using store_app_ok [OF eq(2)] m(1) by simp
  moreover have "next_addr h \<le> next_addr ?h'" using eq(3) by (simp add: extends_def)
  ultimately show ?thesis using eq(1) content m(3) by fastforce
qed

lemma meta_ok_below: "heap_ok h \<Longrightarrow> extends h h' \<Longrightarrow> meta_ok h m \<Longrightarrow> meta_content h' m = meta_content h m"
  by (rule meta_content_cong) (auto simp: extends_def dest: meta_refs_below)

lemma Application_DeepCopy_run:
  assumes D: "copies_ok D" and ok: "heap_ok h" and p: "load_app h p = Some v"
  shows "\<exists>a h' v'. Application_DeepCopy D (Some p) h = Ok (Some (a, 0), h') \<and> heap_ok h' \<and> extends h h' \<and>
    load_app h' (a, 0) = Some v' \<and> app_content h' v' = app_content h v \<and>
    insert a (meta_refs (a_ObjectMeta v')) \<inter> {..<next_addr h} = {}"
proof -
  define h1 where "h1 = snd (alloc (AppsCell [zero_app]) h)"
  let ?a = "next_addr h"
  have meta: "meta_ok h (a_ObjectMeta v)" by (rule load_app_meta_ok [OF ok p])
  have ok1: "heap_ok h1"
    unfolding h1_def by (rule alloc_ok [OF ok]) (simp add: zero_app_def meta_ok_def)
  have ext: "extends h h1" unfolding h1_def by (rule alloc_extends)
  have p1: "load_app h1 p = Some v" by (rule load_app_extends [OF ok ext p])
  have out: "cells h1 (fst (?a, 0 :: nat)) = Some (AppsCell [zero_app])" "snd (?a, 0 :: nat) < length [zero_app]"
    by (simp_all add: h1_def)
  have "fst p < next_addr h" using load_appD [OF p] heap_okD [OF ok] by blast
  then have apart: "fst p \<noteq> fst (?a, 0 :: nat)" by simp
  obtain h2 v' where run: "Application_DeepCopyInto D p (?a, 0) h1 = Ok h2" "heap_ok h2"
    "cells h2 ?a = Some (AppsCell [v'])" "app_content h2 v' = app_content h1 v"
    "meta_refs (a_ObjectMeta v') \<inter> {..<next_addr h1} = {}" "next_addr h1 \<le> next_addr h2"
    "\<forall>a < next_addr h1. a \<noteq> ?a \<longrightarrow> cells h2 a = cells h1 a"
    using Application_DeepCopyInto_spec [OF D ok1 p1 out apart] by auto
  have "app_content h1 v = app_content h v" using meta_ok_below [OF ok ext meta] by (simp add: app_content_def)
  moreover have "extends h h2" using run(6,7) ext by (auto simp: extends_def h1_def)
  moreover have "Application_DeepCopy D (Some p) h = Ok (Some (?a, 0), h2)"
    using run(1) by (simp add: Application_DeepCopy_def h1_def alloc_def)
  moreover have "load_app h2 (?a, 0) = Some v'" using run(3) by (simp add: load_app_def)
  moreover have "insert ?a (meta_refs (a_ObjectMeta v')) \<inter> {..<next_addr h} = {}"
    using run(5) by (auto simp: h1_def)
  ultimately show ?thesis using run(2,4) by metis
qed

section \<open>What a copy of a list is\<close>

text \<open>
  Content survives changes of one variable of a type that no metadata refers to, and the
  allocation of others.
\<close>

definition only_changes :: "addr \<Rightarrow> heap \<Rightarrow> heap \<Rightarrow> bool" where
  "only_changes b h h' \<longleftrightarrow> next_addr h \<le> next_addr h' \<and> (\<forall>a < next_addr h. a \<noteq> b \<longrightarrow> cells h' a = cells h a)"

lemma only_changes_trans: "only_changes b h h' \<Longrightarrow> only_changes b h' h'' \<Longrightarrow> only_changes b h h''"
  by (auto simp: only_changes_def)

lemma only_changes_extends: "extends h h' \<Longrightarrow> only_changes b h h'"
  by (auto simp: only_changes_def extends_def)

lemma only_changes_store: "only_changes b h (store b c h)"
  by (simp add: only_changes_def)

lemma app_content_frame:
  assumes "heap_ok h" and "meta_ok h (a_ObjectMeta v)" and "only_changes b h h'"
    and "type_at h b \<notin> {Some MapT, Some StringsT}"
  shows "app_content h' v = app_content h v"
proof (rule app_content_cong)
  fix a assume a: "a \<in> meta_refs (a_ObjectMeta v)"
  have "a \<noteq> b" using meta_refs_typed [OF assms(2) a] assms(4) by metis
  then show "cells h' a = cells h a"
    using assms(3) meta_refs_below [OF assms(1,2) a] by (simp add: only_changes_def)
qed

lemma listmeta_content_frame:
  assumes "heap_ok h" and "listmeta_ok h m" and "only_changes b h h'" and "type_at h b \<noteq> Some Int64T"
  shows "listmeta_content h' m = listmeta_content h m"
proof (rule listmeta_content_cong)
  fix a assume "a \<in> set_option (lm_RemainingItemCount m)"
  then have a: "type_at h a = Some Int64T" using assms(2) by (simp add: listmeta_ok_def)
  then have "a \<noteq> b" and "a < next_addr h" using assms(1,4) by (auto simp: type_at_def dest: heap_okD)
  then show "cells h' a = cells h a" using assms(3) by (simp add: only_changes_def)
qed

text \<open>
  The loop: every element of the target array whose index was visited has the content of
  its source and fresh references; nothing else but that array changes.
\<close>

lemma copy_items_spec:
  assumes D: "copies_ok D" and "heap_ok h" and "distinct is" and apart: "sl_array s \<noteq> sl_array t"
    and "\<forall>i \<in> set is. load_app h (sl_array s, sl_offset s + i) = Some (v i)"
    and "cells h (sl_array t) = Some (AppsCell ws)" and "sl_offset t = 0" and "\<forall>i \<in> set is. i < length ws"
  shows "\<exists>h' ws'. copy_items D s t is h = Ok h' \<and> heap_ok h' \<and> only_changes (sl_array t) h h' \<and>
    cells h' (sl_array t) = Some (AppsCell ws') \<and> length ws' = length ws \<and>
    (\<forall>i \<in> set is. app_content h' (ws' ! i) = app_content h (v i) \<and>
       meta_refs (a_ObjectMeta (ws' ! i)) \<inter> {..<next_addr h} = {}) \<and>
    (\<forall>i. i \<notin> set is \<longrightarrow> ws' ! i = ws ! i)"
  using assms(2,3,5-8)
proof (induction "is" arbitrary: h ws)
  case Nil
  then show ?case by (auto simp: only_changes_def)
next
  case (Cons i "is")
  have inp: "load_app h (sl_array s, sl_offset s + i) = Some (v i)" and i: "i < length ws" "i \<notin> set is"
    using Cons.prems by simp_all
  obtain h1 w where one: "Application_DeepCopyInto D (sl_array s, sl_offset s + i) (sl_array t, i) h = Ok h1"
    "heap_ok h1" "cells h1 (sl_array t) = Some (AppsCell (ws[i := w]))" "app_content h1 w = app_content h (v i)"
    "meta_refs (a_ObjectMeta w) \<inter> {..<next_addr h} = {}" "only_changes (sl_array t) h h1"
    using Application_DeepCopyInto_spec [OF D Cons.prems(1) inp, of "(sl_array t, i)" ws] Cons.prems apart
    by (auto simp: only_changes_def)
  have sarr: "sl_array s < next_addr h" using load_appD [OF inp] heap_okD [OF Cons.prems(1)] by fastforce
  then have "cells h1 (sl_array s) = cells h (sl_array s)" using one(6) apart by (simp add: only_changes_def)
  then have loads: "\<forall>j \<in> set is. load_app h1 (sl_array s, sl_offset s + j) = Some (v j)"
    using Cons.prems(3) by (simp add: load_app_def)
  obtain h2 ws' where rest: "copy_items D s t is h1 = Ok h2" "heap_ok h2" "only_changes (sl_array t) h1 h2"
    "cells h2 (sl_array t) = Some (AppsCell ws')" "length ws' = length (ws[i := w])"
    "\<forall>j \<in> set is. app_content h2 (ws' ! j) = app_content h1 (v j) \<and>
       meta_refs (a_ObjectMeta (ws' ! j)) \<inter> {..<next_addr h1} = {}"
    "\<forall>j. j \<notin> set is \<longrightarrow> ws' ! j = ws[i := w] ! j"
    using Cons.IH [of h1 "ws[i := w]"] Cons.prems loads one(2,3) by auto
  have wi: "ws' ! i = w" using rest(5,7) i by simp
  have "meta_ok h1 (a_ObjectMeta w)"
    using heap_okD [OF one(2,3)] i(1) by (auto simp: set_update_memI)
  then have "app_content h2 w = app_content h1 w"
    using app_content_frame [OF one(2) _ rest(3)] one(3) by (simp add: type_at_def)
  then have first: "app_content h2 (ws' ! i) = app_content h (v i)" using one(4) wi by simp
  have vj: "app_content h1 (v j) = app_content h (v j)" if "j \<in> set is" for j
    using app_content_frame [OF Cons.prems(1) load_app_meta_ok [OF Cons.prems(1)] one(6), of "(sl_array s, sl_offset s + j)" "v j"]
      Cons.prems(3,4) that
    by (simp add: type_at_def)
  have content: "app_content h2 (ws' ! j) = app_content h (v j)" if "j \<in> set (i # is)" for j
    using that first rest(6) vj by auto
  have refs: "meta_refs (a_ObjectMeta (ws' ! j)) \<inter> {..<next_addr h} = {}" if "j \<in> set (i # is)" for j
    using that wi one(5,6) rest(6) by (fastforce simp: only_changes_def)
  have others: "ws' ! j = ws ! j" if "j \<notin> set (i # is)" for j
    using that rest(7) by auto
  have frame: "only_changes (sl_array t) h h2" by (rule only_changes_trans [OF one(6) rest(3)])
  have "copy_items D s t (i # is) h = Ok h2" using one(1) rest(1) Cons.prems(5) by simp
  then show ?case
    using rest(2,4,5) content refs others frame by (intro exI [of _ h2] exI [of _ ws']) auto
qed

text \<open>The part of a list's copy before its items: type and list metadata, with the items still shared.\<close>

lemma ApplicationList_metadata:
  assumes D: "copies_ok D" and ok: "heap_ok h" and inp: "cells h p = Some (ListCell l)"
    and outp: "type_at h q = Some ListT" and copy: "copy_ListMeta D (l_ListMeta l) (store q (ListCell l) h) = (m, h2)"
  defines "h3 \<equiv> store q (ListCell (l\<lparr>l_ListMeta := m\<rparr>)) h2"
  shows "heap_ok h3" and "only_changes q h h3" and "cells h3 q = Some (ListCell (l\<lparr>l_ListMeta := m\<rparr>))"
    and "listmeta_content h3 m = listmeta_content h (l_ListMeta l)" and "listmeta_ok h3 m"
    and "set_option (lm_RemainingItemCount m) \<inter> {..<next_addr h} = {}" and "extends (store q (ListCell l) h) h2"
proof -
  let ?h1 = "store q (ListCell l) h"
  have l: "listmeta_ok h (l_ListMeta l)" "pred_option (slice_ok h) (l_Items l)" using heap_okD [OF ok inp] by simp_all
  have types1: "type_at ?h1 = type_at h" using store_types outp by simp
  have ok1: "heap_ok ?h1" by (rule store_ok [OF ok]) (use outp l in simp_all)
  have l1: "listmeta_ok ?h1 (l_ListMeta l)" "pred_option (slice_ok ?h1) (l_Items l)"
    using l types1 by (simp_all add: listmeta_ok_def slice_ok_def [abs_def])
  note c = copies_okD(2) [OF D ok1 l1(1) copy]
  then show "set_option (lm_RemainingItemCount m) \<inter> {..<next_addr h} = {}" and ext: "extends ?h1 h2" by simp_all
  have le: "type_at ?h1 \<subseteq>\<^sub>m type_at h2" using extends_types [OF ok1] c by blast
  have q2: "type_at h2 q = Some ListT"
    using map_le_Some [OF le] outp types1 by simp
  have ok2: "cell_ok h2 (ListCell (l\<lparr>l_ListMeta := m\<rparr>))"
    using c l1(2) types_mono(3) [OF le] by (auto intro: option.pred_mono_strong)
  show "heap_ok h3" unfolding h3_def by (rule store_ok) (use c q2 ok2 in simp_all)
  have frame: "only_changes q ?h1 h2" using only_changes_extends ext by blast
  show "only_changes q h h3"
    unfolding h3_def by (blast intro: only_changes_trans only_changes_store frame)
  show "cells h3 q = Some (ListCell (l\<lparr>l_ListMeta := m\<rparr>))" by (simp add: h3_def)
  show "listmeta_ok h3 m" using c q2 store_types [of h2 q] by (simp add: h3_def listmeta_ok_def)
  have "listmeta_content h3 m = listmeta_content h2 m"
    unfolding h3_def by (rule listmeta_content_frame [OF _ _ only_changes_store]) (use c q2 in simp_all)
  also have "\<dots> = listmeta_content ?h1 (l_ListMeta l)" using c by simp
  also have "\<dots> = listmeta_content h (l_ListMeta l)"
    by (rule listmeta_content_frame [OF ok l(1) only_changes_store]) (use outp in simp)
  finally show "listmeta_content h3 m = listmeta_content h (l_ListMeta l)" .
qed

lemma type_at_ListT: "type_at h a = Some ListT \<Longrightarrow> \<exists>l. cells h a = Some (ListCell l)"
  unfolding type_at_def by (auto elim!: type_of_cell.elims)

lemma get_list_cell [simp]: "cells h a = Some (ListCell l) \<Longrightarrow> get_list h a = l"
  by (simp add: get_list_def load_list_def)

lemma store_twice [simp]: "store a c (store a d h) = store a c h"
  by (simp add: store_def)

lemma ApplicationList_DeepCopyInto_eq:
  assumes inp: "cells h p = Some (ListCell l)" and outp: "type_at h q = Some ListT" and apart: "p \<noteq> q"
    and ok: "heap_ok h" and copy: "copy_ListMeta D (l_ListMeta l) (store q (ListCell l) h) = (m, h2)"
    and ext: "extends (store q (ListCell l) h) h2"
  defines "h3 \<equiv> store q (ListCell (l\<lparr>l_ListMeta := m\<rparr>)) h2"
  shows "ApplicationList_DeepCopyInto D p q h =
    (case l_Items l of
       None \<Rightarrow> Ok h3
     | Some s \<Rightarrow>
         copy_items D s \<lparr>sl_array = next_addr h3, sl_offset = 0, sl_len = sl_len s\<rparr> [0..<sl_len s]
           (store q (ListCell (l\<lparr>l_ListMeta := m, l_Items := Some \<lparr>sl_array = next_addr h3, sl_offset = 0, sl_len = sl_len s\<rparr>\<rparr>))
              (snd (alloc (AppsCell (replicate (sl_len s) zero_app)) h3))))"
proof -
  have below: "p < next_addr h" "q < next_addr h"
    using heap_okD [OF ok] inp outp by (auto simp: type_at_def)
  have old: "cells h2 p = Some (ListCell l)" "cells h2 q = Some (ListCell l)"
    using ext below inp apart by (simp_all add: extends_def)
  obtain k where "load_list h q = Some k" using type_at_ListT [OF outp] by (auto simp: load_list_def)
  moreover have "load_list h p = Some l" using inp by (simp add: load_list_def)
  moreover have "q \<noteq> next_addr h2" using ext below by (simp add: extends_def)
  ultimately show ?thesis
    using inp apart old copy
    by (simp add: ApplicationList_DeepCopyInto_def h3_def alloc_def Let_def split: option.split)
qed

lemma type_at_AppsT: "type_at h a = Some (AppsT n) \<Longrightarrow> \<exists>vs. cells h a = Some (AppsCell vs) \<and> length vs = n"
  unfolding type_at_def by (auto elim!: type_of_cell.elims)

lemma slice_loads:
  assumes "slice_ok h s" and "i < sl_len s"
  shows "load_app h (sl_array s, sl_offset s + i) = Some (slice_apps h s ! i)"
  using assms by (auto simp: slice_ok_def slice_apps_def get_app_def load_app_def dest!: type_at_AppsT)

lemma copy_slice:
  assumes D: "copies_ok D" and ok: "heap_ok h" and s: "slice_ok h s"
    and b: "cells h b = Some (AppsCell ws)" "length ws = sl_len s" "sl_array s \<noteq> b"
  defines "t \<equiv> \<lparr>sl_array = b, sl_offset = 0, sl_len = sl_len s\<rparr>"
  shows "\<exists>h'. copy_items D s t [0..<sl_len s] h = Ok h' \<and> heap_ok h' \<and> only_changes b h h' \<and>
    map (app_content h') (slice_apps h' t) = map (app_content h) (slice_apps h s) \<and>
    (\<forall>v \<in> set (slice_apps h' t). meta_refs (a_ObjectMeta v) \<inter> {..<next_addr h} = {})"
proof -
  have len: "length (slice_apps g r) = sl_len r" for g r by (simp add: slice_apps_def)
  obtain h' ws' where run: "copy_items D s t [0..<sl_len s] h = Ok h'" "heap_ok h'" "only_changes b h h'"
    "cells h' b = Some (AppsCell ws')" "length ws' = sl_len s"
    "\<forall>i < sl_len s. app_content h' (ws' ! i) = app_content h (slice_apps h s ! i) \<and>
       meta_refs (a_ObjectMeta (ws' ! i)) \<inter> {..<next_addr h} = {}"
    using copy_items_spec [OF D ok, of "[0..<sl_len s]" s t "\<lambda>i. slice_apps h s ! i" ws]
      slice_loads [OF s] b by (auto simp: t_def)
  have apps: "slice_apps h' t = ws'"
    by (rule nth_equalityI) (use run(4,5) in \<open>simp_all add: len t_def slice_apps_def get_app_def load_app_def\<close>)
  have "map (app_content h') ws' = map (app_content h) (slice_apps h s)"
    by (rule nth_equalityI) (use run(5,6) in \<open>simp_all add: len\<close>)
  moreover have "\<forall>v \<in> set ws'. meta_refs (a_ObjectMeta v) \<inter> {..<next_addr h} = {}"
    using run(5,6) by (metis in_set_conv_nth)
  ultimately show ?thesis using run(1-3) apps by blast
qed

lemma slice_apps_ok: "heap_ok h \<Longrightarrow> slice_ok h s \<Longrightarrow> v \<in> set (slice_apps h s) \<Longrightarrow> meta_ok h (a_ObjectMeta v)"
  using slice_loads load_app_meta_ok by (fastforce simp: in_set_conv_nth slice_apps_def)

lemma slice_content_frame:
  assumes "heap_ok h" and "slice_ok h s" and "only_changes b h h'" and "type_at h b = Some ListT"
  shows "map (app_content h') (slice_apps h' s) = map (app_content h) (slice_apps h s)"
    and "type_at h' (sl_array s) = type_at h (sl_array s)"
proof -
  obtain vs where vs: "cells h (sl_array s) = Some (AppsCell vs)"
    using assms(2) type_at_AppsT by (fastforce simp: slice_ok_def)
  then have "sl_array s < next_addr h" "sl_array s \<noteq> b"
    using assms(1,4) heap_okD by (fastforce simp: type_at_def)+
  then have same: "cells h' (sl_array s) = cells h (sl_array s)" using assms(3) by (simp add: only_changes_def)
  then show "type_at h' (sl_array s) = type_at h (sl_array s)" by (simp add: type_at_def)
  have "slice_apps h' s = slice_apps h s" using same by (simp add: slice_apps_def get_app_def load_app_def)
  moreover have "app_content h' v = app_content h v" if "v \<in> set (slice_apps h s)" for v
    by (rule app_content_frame [OF assms(1) slice_apps_ok [OF assms(1,2) that] assms(3)]) (use assms(4) in simp)
  ultimately show "map (app_content h') (slice_apps h' s) = map (app_content h) (slice_apps h s)" by simp
qed

lemma zero_apps_ok: "cell_ok h (AppsCell (replicate n zero_app))"
  by (auto simp: zero_app_def meta_ok_def)

text \<open>The new array of items, before the loop fills it.\<close>

lemma fresh_items:
  fixes n :: nat
  assumes ok: "heap_ok h" and q: "cells h q = Some (ListCell l)"
  defines "t \<equiv> \<lparr>sl_array = next_addr h, sl_offset = 0, sl_len = n\<rparr>"
  defines "h' \<equiv> store q (ListCell (l\<lparr>l_Items := Some t\<rparr>)) (snd (alloc (AppsCell (replicate n zero_app)) h))"
  shows "heap_ok h'" and "only_changes q h h'" and "cells h' q = Some (ListCell (l\<lparr>l_Items := Some t\<rparr>))"
    and "cells h' (next_addr h) = Some (AppsCell (replicate n zero_app))" and "next_addr h < next_addr h'"
    and "listmeta_ok h' (l_ListMeta l)" and "listmeta_content h' (l_ListMeta l) = listmeta_content h (l_ListMeta l)"
proof -
  let ?h1 = "snd (alloc (AppsCell (replicate n zero_app)) h)"
  have qn: "q < next_addr h" and l: "listmeta_ok h (l_ListMeta l)" using heap_okD [OF ok q] by simp_all
  have qt: "type_at h q = Some ListT" using q by (simp add: type_at_def)
  have le: "type_at h \<subseteq>\<^sub>m type_at ?h1" by (rule extends_types [OF ok alloc_extends])
  have "slice_ok ?h1 t" by (auto simp: slice_ok_def t_def type_at_def)
  then show "heap_ok h'"
    unfolding h'_def
    using alloc_ok [OF ok zero_apps_ok] types_mono(2) [OF le l] map_le_Some [OF le qt]
    by (intro store_ok) auto
  show frame: "only_changes q h h'"
    unfolding h'_def by (rule only_changes_trans [OF only_changes_extends [OF alloc_extends] only_changes_store])
  show "cells h' q = Some (ListCell (l\<lparr>l_Items := Some t\<rparr>))" "next_addr h < next_addr h'"
    "cells h' (next_addr h) = Some (AppsCell (replicate n zero_app))"
    using qn by (simp_all add: h'_def)
  show "listmeta_ok h' (l_ListMeta l)"
    using types_mono(2) [OF le l] store_types [of ?h1 q] map_le_Some [OF le qt]
    by (simp add: h'_def listmeta_ok_def)
  show "listmeta_content h' (l_ListMeta l) = listmeta_content h (l_ListMeta l)"
    by (rule listmeta_content_frame [OF ok l frame]) (use qt in simp)
qed

lemma ApplicationList_DeepCopyInto_spec:
  assumes D: "copies_ok D" and ok: "heap_ok h" and inp: "cells h p = Some (ListCell l)"
    and outp: "type_at h q = Some ListT" and apart: "p \<noteq> q"
  shows "\<exists>h' l'. ApplicationList_DeepCopyInto D p q h = Ok h' \<and> heap_ok h' \<and> only_changes q h h' \<and>
    cells h' q = Some (ListCell l') \<and> list_content h' l' = list_content h l \<and>
    list_memory h' l' \<inter> {..<next_addr h} = {}"
proof -
  obtain m h2 where copy: "copy_ListMeta D (l_ListMeta l) (store q (ListCell l) h) = (m, h2)" by fastforce
  define h3 where "h3 = store q (ListCell (l\<lparr>l_ListMeta := m\<rparr>)) h2"
  note meta = ApplicationList_metadata [OF D ok inp outp copy, folded h3_def]
  note eq = ApplicationList_DeepCopyInto_eq [OF inp outp apart ok copy meta(7), folded h3_def]
  show ?thesis
  proof (cases "l_Items l")
    case None
    then show ?thesis using eq meta by (auto simp: list_content_def list_memory_def)
  next
    case (Some s)
    then have s: "slice_ok h s" using heap_okD [OF ok inp] by simp
    let ?b = "next_addr h3"
    define t where "t = \<lparr>sl_array = ?b, sl_offset = 0, sl_len = sl_len s\<rparr>"
    define l' where "l' = (l\<lparr>l_ListMeta := m\<rparr>)\<lparr>l_Items := Some t\<rparr>"
    define h5 where "h5 = store q (ListCell l') (snd (alloc (AppsCell (replicate (sl_len s) zero_app)) h3))"
    note items = fresh_items [OF meta(1,3), of "sl_len s", folded t_def l'_def, folded h5_def]
    have frame5: "only_changes q h h5" by (rule only_changes_trans [OF meta(2) items(2)])
    note old = slice_content_frame [OF ok s frame5 outp]
    have s5: "slice_ok h5 s" using s old(2) by (simp add: slice_ok_def)
    have below: "sl_array s < next_addr h" "q < next_addr h"
      using s type_at_AppsT type_at_ListT [OF outp] heap_okD [OF ok] by (fastforce simp: slice_ok_def)+
    have next3: "next_addr h \<le> ?b" using meta(2) by (simp add: only_changes_def)
    obtain h' where run: "copy_items D s t [0..<sl_len s] h5 = Ok h'" "heap_ok h'" "only_changes ?b h5 h'"
      "map (app_content h') (slice_apps h' t) = map (app_content h5) (slice_apps h5 s)"
      "\<forall>v \<in> set (slice_apps h' t). meta_refs (a_ObjectMeta v) \<inter> {..<next_addr h5} = {}"
      using copy_slice [OF D items(1) s5 items(4)] below next3 unfolding t_def by auto
    have frame: "only_changes q h h'" using frame5 run(3) next3 items(5) by (auto simp: only_changes_def)
    have "listmeta_ok h5 m" "listmeta_content h5 m = listmeta_content h3 m" using items(6,7) by simp_all
    then have "listmeta_content h' m = listmeta_content h3 m"
      using listmeta_content_frame [OF items(1) _ run(3)] items(4) by (simp add: type_at_def)
    then have "listmeta_content h' m = listmeta_content h (l_ListMeta l)" using meta(4) by simp
    moreover have "cells h' q = Some (ListCell l')"
      using run(3) below next3 items(3,5) by (simp add: only_changes_def)
    moreover have "ApplicationList_DeepCopyInto D p q h = Ok h'"
      using eq run(1) by (simp add: Some t_def l'_def h5_def)
    moreover have "slice_memory h' t \<inter> {..<next_addr h} = {}"
      using run(5) next3 items(5) by (fastforce simp: slice_memory_def t_def)
    ultimately show ?thesis
      using run(2,4) frame old(1) meta(6)
      by (intro exI [of _ h'] exI [of _ l']) (auto simp: list_content_def list_memory_def Some l'_def)
  qed
qed

lemma list_content_cong:
  assumes "\<And>a. a \<in> list_memory h l \<Longrightarrow> cells g a = cells h a"
  shows "list_content g l = list_content h l"
proof -
  have "listmeta_content g (l_ListMeta l) = listmeta_content h (l_ListMeta l)"
    by (rule listmeta_content_cong) (use assms in \<open>simp add: list_memory_def\<close>)
  moreover have "map (app_content g) (slice_apps g s) = map (app_content h) (slice_apps h s)"
    if s: "l_Items l = Some s" for s
  proof -
    have mem: "cells g a = cells h a" if "a \<in> slice_memory h s" for a
      using assms that by (simp add: list_memory_def s)
    then have "slice_apps g s = slice_apps h s"
      by (simp add: slice_apps_def get_app_def load_app_def slice_memory_def)
    moreover have "app_content g v = app_content h v" if "v \<in> set (slice_apps h s)" for v
      by (rule app_content_cong) (use mem that in \<open>auto simp: slice_memory_def\<close>)
    ultimately show ?thesis by simp
  qed
  ultimately show ?thesis by (cases "l_Items l") (simp_all add: list_content_def)
qed

lemma ApplicationList_DeepCopy_run:
  assumes D: "copies_ok D" and ok: "heap_ok h" and p: "cells h p = Some (ListCell l)"
  shows "\<exists>q h' l'. ApplicationList_DeepCopy D (Some p) h = Ok (Some q, h') \<and> heap_ok h' \<and> extends h h' \<and>
    cells h' q = Some (ListCell l') \<and> list_content h' l' = list_content h l \<and>
    insert q (list_memory h' l') \<inter> {..<next_addr h} = {}"
proof -
  define h1 where "h1 = snd (alloc (ListCell zero_list) h)"
  let ?q = "next_addr h"
  have ok1: "heap_ok h1"
    unfolding h1_def by (rule alloc_ok [OF ok]) (simp add: zero_list_def listmeta_ok_def)
  have p1: "cells h1 p = Some (ListCell l)" and pq: "p \<noteq> ?q"
    using p heap_okD [OF ok p] by (simp_all add: h1_def)
  have q1: "type_at h1 ?q = Some ListT" by (simp add: h1_def type_at_def)
  obtain h2 l' where run: "ApplicationList_DeepCopyInto D p ?q h1 = Ok h2" "heap_ok h2" "only_changes ?q h1 h2"
    "cells h2 ?q = Some (ListCell l')" "list_content h2 l' = list_content h1 l"
    "list_memory h2 l' \<inter> {..<next_addr h1} = {}"
    using ApplicationList_DeepCopyInto_spec [OF D ok1 p1 q1 pq] by auto
  have l: "listmeta_ok h (l_ListMeta l)" "\<And>s. l_Items l = Some s \<Longrightarrow> slice_ok h s"
    using heap_okD [OF ok p] by auto
  have free: "only_changes ?q h h1" by (simp add: h1_def only_changes_extends alloc_extends)
  have "list_content h1 l = list_content h l"
  proof (rule list_content_cong)
    fix a assume a: "a \<in> list_memory h l"
    have "a < ?q"
      using a l meta_refs_below [OF ok slice_apps_ok [OF ok l(2)]] type_at_AppsT
      by (fastforce simp: list_memory_def slice_memory_def listmeta_ok_def slice_ok_def type_at_def
          dest: heap_okD [OF ok] split: option.splits)
    then show "cells h1 a = cells h a" by (simp add: h1_def)
  qed
  moreover have "extends h h2" using run(3) free by (auto simp: only_changes_def extends_def)
  moreover have "ApplicationList_DeepCopy D (Some p) h = Ok (Some ?q, h2)"
    using run(1) by (simp add: ApplicationList_DeepCopy_def h1_def alloc_def)
  moreover have "insert ?q (list_memory h2 l') \<inter> {..<next_addr h} = {}"
    using run(6) by (auto simp: h1_def)
  ultimately show ?thesis using run(2,4,5) by metis
qed

lemma deep_copy_nil [simp]:
  "Application_DeepCopyObject D None h = Ok (None, h)" "ApplicationList_DeepCopyObject D None h = Ok (None, h)"
  "ApplicationSpec_DeepCopy None h = Ok (None, h)" "ApplicationStatus_DeepCopy None h = Ok (None, h)"
  by (simp_all add: Application_DeepCopyObject_def Application_DeepCopy_def ApplicationList_DeepCopyObject_def
      ApplicationList_DeepCopy_def ApplicationSpec_DeepCopy_def ApplicationStatus_DeepCopy_def)

text \<open>The two plain structs, whose copies have nothing to share.\<close>

lemma spec_status_copies:
  assumes "heap_ok h"
  shows "load_spec h p = Some v \<Longrightarrow> \<exists>h'. ApplicationSpec_DeepCopy (Some p) h = Ok (Some (next_addr h), h') \<and>
      load_spec h' (next_addr h) = Some v \<and> extends h h'"
    and "load_status h p = Some w \<Longrightarrow> \<exists>h'. ApplicationStatus_DeepCopy (Some p) h = Ok (Some (next_addr h), h') \<and>
      load_status h' (next_addr h) = Some w \<and> extends h h'"
  using fresh_none [OF assms, of p]
  by (auto simp: ApplicationSpec_DeepCopy_def ApplicationStatus_DeepCopy_def ApplicationSpec_DeepCopyInto_def
      ApplicationStatus_DeepCopyInto_def load_spec_def load_status_def alloc_def extends_def
      split: option.splits cell.splits)

section \<open>Documented copies exist\<close>

text \<open>Copies that allocate a new variable with the content of each one the metadata refers to.\<close>

definition copy_ref :: "addr option \<Rightarrow> heap \<Rightarrow> addr option \<times> heap" where
  "copy_ref r h =
     (case deref h r of
        None \<Rightarrow> (None, h)
      | Some c \<Rightarrow> (let (a, h) = alloc c h in (Some a, h)))"

definition allocating_copies :: copy_lib where
  "allocating_copies =
     \<lparr>copy_ObjectMeta = (\<lambda>m h.
        let (labels, h) = copy_ref (om_Labels m) h;
            (annotations, h) = copy_ref (om_Annotations m) h;
            (finalizers, h) = copy_ref (om_Finalizers m) h
        in (m\<lparr>om_Labels := labels, om_Annotations := annotations, om_Finalizers := finalizers\<rparr>, h)),
      copy_ListMeta = (\<lambda>m h.
        let (count, h) = copy_ref (lm_RemainingItemCount m) h
        in (m\<lparr>lm_RemainingItemCount := count\<rparr>, h))\<rparr>"

lemma copy_ref_spec:
  assumes ok: "heap_ok h" and r: "pred_option (\<lambda>a. type_at h a = Some t) r" and t: "t \<in> {MapT, StringsT, Int64T}"
    and copy: "copy_ref r h = (r', h')"
  shows "heap_ok h' \<and> extends h h' \<and> pred_option (\<lambda>a. type_at h' a = Some t) r' \<and>
    deref h' r' = deref h r \<and> set_option r' \<inter> {..<next_addr h} = {}"
proof (cases r)
  case None
  then show ?thesis using ok copy by (simp add: copy_ref_def deref_def)
next
  case (Some a)
  then obtain c where c: "cells h a = Some c" "type_of_cell c = t" using r by (auto simp: type_at_def)
  then have "cell_ok h c" using heap_okD [OF ok] by blast
  then show ?thesis
    using copy c Some alloc_ok [OF ok] alloc_extends [of h c]
    by (auto simp: copy_ref_def deref_def alloc_def type_at_def)
qed

lemma deref_extends:
  "heap_ok h \<Longrightarrow> extends h h' \<Longrightarrow> pred_option (\<lambda>a. type_at h a = Some t) r \<Longrightarrow>
   pred_option (\<lambda>a. type_at h' a = Some t) r \<and> deref h' r = deref h r"
  using extends_cell [of h h'] by (cases r) (auto simp: deref_def type_at_def)

lemma allocating_ObjectMeta_ok:
  assumes ok: "heap_ok h" and m: "meta_ok h m" and run: "copy_ObjectMeta allocating_copies m h = (m', h')"
  shows "heap_ok h' \<and> extends h h' \<and> meta_ok h' m' \<and> meta_content h' m' = meta_content h m \<and>
    meta_refs m' \<inter> {..<next_addr h} = {}"
proof (intro conjI)
  obtain l h1 where c1: "copy_ref (om_Labels m) h = (l, h1)" by fastforce
  obtain an h2 where c2: "copy_ref (om_Annotations m) h1 = (an, h2)" by fastforce
  obtain f h3 where c3: "copy_ref (om_Finalizers m) h2 = (f, h3)" by fastforce
  have res: "m' = m\<lparr>om_Labels := l, om_Annotations := an, om_Finalizers := f\<rparr>" "h' = h3"
    using run c1 c2 c3 by (simp_all add: allocating_copies_def)
  note typed = m [unfolded meta_ok_def]
  have s1: "heap_ok h1" "extends h h1" "pred_option (\<lambda>a. type_at h1 a = Some MapT) l"
    "deref h1 l = deref h (om_Labels m)" "set_option l \<inter> {..<next_addr h} = {}"
    using copy_ref_spec [OF ok _ _ c1, of MapT] typed by simp_all
  have an1: "pred_option (\<lambda>a. type_at h1 a = Some MapT) (om_Annotations m) \<and>
      deref h1 (om_Annotations m) = deref h (om_Annotations m)"
    using deref_extends [OF ok s1(2)] typed by blast
  have s2: "heap_ok h2" "extends h1 h2" "pred_option (\<lambda>a. type_at h2 a = Some MapT) an"
    "deref h2 an = deref h (om_Annotations m)" "set_option an \<inter> {..<next_addr h1} = {}"
    using copy_ref_spec [OF s1(1) _ _ c2, of MapT] an1 by simp_all
  have e2: "extends h h2" by (rule extends_trans [OF s1(2) s2(2)])
  have f2: "pred_option (\<lambda>a. type_at h2 a = Some StringsT) (om_Finalizers m) \<and>
      deref h2 (om_Finalizers m) = deref h (om_Finalizers m)"
    using deref_extends [OF ok e2] typed by blast
  have s3: "heap_ok h3" "extends h2 h3" "pred_option (\<lambda>a. type_at h3 a = Some StringsT) f"
    "deref h3 f = deref h (om_Finalizers m)" "set_option f \<inter> {..<next_addr h2} = {}"
    using copy_ref_spec [OF s2(1) _ _ c3, of StringsT] f2 by simp_all
  have e13: "extends h1 h3" by (rule extends_trans [OF s2(2) s3(2)])
  have l3: "pred_option (\<lambda>a. type_at h3 a = Some MapT) l \<and> deref h3 l = deref h (om_Labels m)"
    using deref_extends [OF s1(1) e13 s1(3)] s1(4) by simp
  have an3: "pred_option (\<lambda>a. type_at h3 a = Some MapT) an \<and> deref h3 an = deref h (om_Annotations m)"
    using deref_extends [OF s2(1) s3(2) s2(3)] s2(4) by simp
  show "heap_ok h'" using s3(1) res by simp
  show "extends h h'" using extends_trans [OF e2 s3(2)] res by simp
  show "meta_ok h' m'" using l3 an3 s3(3) res by (simp add: meta_ok_def)
  show "meta_content h' m' = meta_content h m" using l3 an3 s3(4) res by (simp add: meta_content_def)
  have "next_addr h \<le> next_addr h1" "next_addr h1 \<le> next_addr h2" using s1(2) s2(2) by (simp_all add: extends_def)
  then show "meta_refs m' \<inter> {..<next_addr h} = {}" using s1(5) s2(5) s3(5) by (fastforce simp: meta_refs_def res)
qed

lemma allocating_ListMeta_ok:
  assumes ok: "heap_ok h" and m: "listmeta_ok h m" and run: "copy_ListMeta allocating_copies m h = (m', h')"
  shows "heap_ok h' \<and> extends h h' \<and> listmeta_ok h' m' \<and> listmeta_content h' m' = listmeta_content h m \<and>
    set_option (lm_RemainingItemCount m') \<inter> {..<next_addr h} = {}"
proof -
  obtain r where c: "copy_ref (lm_RemainingItemCount m) h = (r, h')" "m' = m\<lparr>lm_RemainingItemCount := r\<rparr>"
    using run by (auto simp: allocating_copies_def split: prod.splits)
  show ?thesis
    using copy_ref_spec [OF ok m [unfolded listmeta_ok_def] _ c(1)]
    by (simp add: c(2) listmeta_ok_def listmeta_content_def)
qed

lemma allocating_copies_ok: "copies_ok allocating_copies"
  unfolding copies_ok_def using allocating_ObjectMeta_ok allocating_ListMeta_ok by blast

section \<open>Properties of the copy functions\<close>

text \<open>
  \<open>Application.DeepCopyObject\<close> returns a new application with the same content; nothing
  that existed is changed, and the copy is made of new variables only. So whatever is
  written later to other memory, the original's included, the copy keeps the content the
  original had when it was copied.
\<close>

lemma Application_DeepCopy_independent:
  assumes "copies_ok D" and "heap_ok h" and "load_app h p = Some v"
  shows "\<exists>a h' v'. Application_DeepCopyObject D (Some p) h = Ok (Some (ApplicationObject (a, 0)), h') \<and>
    extends h h' \<and> load_app h' (a, 0) = Some v' \<and>
    insert a (meta_refs (a_ObjectMeta v')) \<inter> {..<next_addr h} = {} \<and>
    (\<forall>g. (\<forall>b \<in> insert a (meta_refs (a_ObjectMeta v')). cells g b = cells h' b) \<longrightarrow>
       load_app g (a, 0) = Some v' \<and> app_content g v' = app_content h v)"
proof -
  obtain a h' v' where run: "Application_DeepCopy D (Some p) h = Ok (Some (a, 0), h')" "extends h h'"
    "load_app h' (a, 0) = Some v'" "app_content h' v' = app_content h v"
    "insert a (meta_refs (a_ObjectMeta v')) \<inter> {..<next_addr h} = {}"
    using Application_DeepCopy_run [OF assms] by blast
  have "load_app g (a, 0) = Some v' \<and> app_content g v' = app_content h v"
    if "\<forall>b \<in> insert a (meta_refs (a_ObjectMeta v')). cells g b = cells h' b" for g
    using that run(3,4) app_content_cong [of v' g h'] by (simp add: load_app_def)
  then show ?thesis using run by (fastforce simp: Application_DeepCopyObject_def)
qed

definition sample_stored_app :: Application where
  "sample_stored_app = zero_app\<lparr>a_ObjectMeta :=
     \<lparr>om_Name = ''pg'', om_Namespace = ''default'', om_ResourceVersion = ''7'',
      om_Labels = None, om_Annotations = Some 0, om_Finalizers = None\<rparr>\<rparr>"

definition sample_heap :: heap where
  "sample_heap =
     \<lparr>cells = [0 \<mapsto> MapCell [''kcp.io/cluster'' \<mapsto> ''c1''], 1 \<mapsto> AppsCell [sample_stored_app],
               2 \<mapsto> ListCell (zero_list\<lparr>l_Items := Some \<lparr>sl_array = 1, sl_offset = 0, sl_len = 1\<rparr>\<rparr>)],
      next_addr = 3\<rparr>"

lemma sample_heap_ok: "heap_ok sample_heap"
  by (auto simp: heap_ok_def sample_heap_def sample_stored_app_def zero_app_def zero_list_def meta_ok_def
      listmeta_ok_def slice_ok_def type_at_def)

lemma sample_heap_loads:
  "load_app sample_heap (1, 0) = Some sample_stored_app"
  "load_list sample_heap 2 = Some (zero_list\<lparr>l_Items := Some \<lparr>sl_array = 1, sl_offset = 0, sl_len = 1\<rparr>\<rparr>)"
  "type_at sample_heap 1 = Some (AppsT 1)" "type_at sample_heap 2 = Some ListT"
  by (simp_all add: sample_heap_def load_app_def load_list_def type_at_def)

lemma Application_DeepCopy_independent_witness:
  "\<exists>a h'. Application_DeepCopyObject allocating_copies (Some (1, 0)) sample_heap =
     Ok (Some (ApplicationObject (a, 0)), h') \<and> 3 \<le> a \<and> extends sample_heap h'"
  using Application_DeepCopy_independent [OF allocating_copies_ok sample_heap_ok sample_heap_loads(1)]
  by (fastforce simp: sample_heap_def)

text \<open>
  C34. \<open>ApplicationList.DeepCopyObject\<close>, with its loop over the items: the copy has the type,
  the list metadata and, item by item, the content of the original, in new variables only;
  every item's references are new as well, and later writes to other memory cannot be seen
  through the copy.
\<close>

theorem ApplicationList_DeepCopy_independent:
  assumes "copies_ok D" and "heap_ok h" and "load_list h p = Some l"
  shows "\<exists>q h' l'. ApplicationList_DeepCopyObject D (Some p) h = Ok (Some (ApplicationListObject q), h') \<and>
    extends h h' \<and> load_list h' q = Some l' \<and> insert q (list_memory h' l') \<inter> {..<next_addr h} = {} \<and>
    (\<forall>g. (\<forall>b \<in> insert q (list_memory h' l'). cells g b = cells h' b) \<longrightarrow>
       load_list g q = Some l' \<and> list_content g l' = list_content h l)"
proof -
  have p: "cells h p = Some (ListCell l)" using assms(3) by (simp add: load_list_def split: option.splits cell.splits)
  obtain q h' l' where run: "ApplicationList_DeepCopy D (Some p) h = Ok (Some q, h')" "extends h h'"
    "cells h' q = Some (ListCell l')" "list_content h' l' = list_content h l"
    "insert q (list_memory h' l') \<inter> {..<next_addr h} = {}"
    using ApplicationList_DeepCopy_run [OF assms(1,2) p] by blast
  have "load_list g q = Some l' \<and> list_content g l' = list_content h l"
    if "\<forall>b \<in> insert q (list_memory h' l'). cells g b = cells h' b" for g
    using that run(3,4) list_content_cong [of h' l' g] by (simp add: load_list_def)
  then show ?thesis using run by (fastforce simp: ApplicationList_DeepCopyObject_def load_list_def)
qed

theorem ApplicationList_DeepCopy_independent_witness:
  "\<exists>q h'. ApplicationList_DeepCopyObject allocating_copies (Some 2) sample_heap =
     Ok (Some (ApplicationListObject q), h') \<and> 3 \<le> q \<and> extends sample_heap h'"
  using ApplicationList_DeepCopy_independent [OF allocating_copies_ok sample_heap_ok sample_heap_loads(2)]
  by (fastforce simp: sample_heap_def)

text \<open>
  C35. Type safety of the copy functions: on a well-typed heap, for a pointer to an
  application, an element of an array included, and a pointer to a list, they return without
  a panic, the result is a pointer of the same type, the heap is well-typed again, and every
  variable keeps its type; a nil pointer gives the nil interface.
\<close>

theorem DeepCopyObject_typed:
  assumes "copies_ok D" and "heap_ok h" and "type_at h a = Some (AppsT n)" and "i < n"
    and "type_at h b = Some ListT"
  shows "\<exists>q h1 r h2.
    Application_DeepCopyObject D (Some (a, i)) h = Ok (Some (ApplicationObject (q, 0)), h1) \<and>
    heap_ok h1 \<and> type_at h \<subseteq>\<^sub>m type_at h1 \<and> (\<exists>k > 0. type_at h1 q = Some (AppsT k)) \<and>
    ApplicationList_DeepCopyObject D (Some b) h = Ok (Some (ApplicationListObject r), h2) \<and>
    heap_ok h2 \<and> type_at h \<subseteq>\<^sub>m type_at h2 \<and> type_at h2 r = Some ListT \<and>
    Application_DeepCopyObject D None h = Ok (None, h) \<and> ApplicationList_DeepCopyObject D None h = Ok (None, h)"
proof -
  obtain v where v: "load_app h (a, i) = Some v"
    using type_at_AppsT [OF assms(3)] assms(4) by (fastforce simp: load_app_def)
  obtain l where l: "cells h b = Some (ListCell l)" using type_at_ListT [OF assms(5)] by blast
  obtain q h1 v' where app: "Application_DeepCopy D (Some (a, i)) h = Ok (Some (q, 0), h1)" "heap_ok h1"
    "extends h h1" "load_app h1 (q, 0) = Some v'"
    using Application_DeepCopy_run [OF assms(1,2) v] by blast
  obtain r h2 l' where lst: "ApplicationList_DeepCopy D (Some b) h = Ok (Some r, h2)" "heap_ok h2"
    "extends h h2" "cells h2 r = Some (ListCell l')"
    using ApplicationList_DeepCopy_run [OF assms(1,2) l] by blast
  have "\<exists>k > 0. type_at h1 q = Some (AppsT k)" using load_appD [OF app(4)] by (auto simp: type_at_def)
  moreover have "type_at h2 r = Some ListT" using lst(4) by (simp add: type_at_def)
  moreover have "Application_DeepCopyObject D (Some (a, i)) h = Ok (Some (ApplicationObject (q, 0)), h1)"
    "ApplicationList_DeepCopyObject D (Some b) h = Ok (Some (ApplicationListObject r), h2)"
    using app(1) lst(1) by (simp_all add: Application_DeepCopyObject_def ApplicationList_DeepCopyObject_def)
  moreover have "type_at h \<subseteq>\<^sub>m type_at h1" "type_at h \<subseteq>\<^sub>m type_at h2"
    using extends_types [OF assms(2)] app(3) lst(3) by blast+
  ultimately show ?thesis
    using app(2) lst(2) by (intro exI [of _ q] exI [of _ h1] exI [of _ r] exI [of _ h2]) simp
qed

theorem DeepCopyObject_typed_witness:
  "\<exists>q h1. Application_DeepCopyObject allocating_copies (Some (1, 0)) sample_heap =
     Ok (Some (ApplicationObject (q, 0)), h1) \<and> heap_ok h1"
  using DeepCopyObject_typed [OF allocating_copies_ok sample_heap_ok sample_heap_loads(3) _ sample_heap_loads(4)]
  by fastforce

end
