(* ===== verification/Object_Heap.thy ===== *)
theory Object_Heap
  imports Cache_Reader
begin

text \<open>
  API objects on a heap, for the aliasing between the store and what the cache reader hands out:
  structs that refer to their label and annotation maps and to their content, the value such an
  object has, the variables it is made of, and what reading, writing and deep copying do to them.
\<close>

section \<open>Objects on the heap\<close>

text \<open>
  An API object as a struct: the fields of a typed struct are in it (\<open>Inline\<close>), those of an
  \<open>unstructured.Unstructured\<close> in the map it refers to (\<open>Behind\<close>). Assigning a struct copies
  the references. A nil map reads as the empty one. A variable of a list type, such as
  \<open>ConfigMapList\<close>, is its \<open>Items\<close>, which are structs.
\<close>

record meta_fields =
  mf_name :: string
  mf_namespace :: string
  mf_labels :: "nat option"
  mf_annotations :: "nat option"

record fields =
  f_gvk :: gvk
  f_meta :: "meta_fields option"
  f_data :: "nat option"

datatype body = Inline fields | Behind nat

record obj_struct =
  os_type :: go_type
  os_body :: body

datatype var =
    StructVar obj_struct
  | FieldsVar fields
  | MapVar "string \<rightharpoonup> string"
  | DataVar string
  | ListVar "obj_struct list"

record obj_heap =
  vars :: "nat \<rightharpoonup> var"
  next_var :: nat

text \<open>Addresses not yet allocated are those from \<open>next_var\<close> on.\<close>

definition obj_heap_ok :: "obj_heap \<Rightarrow> bool" where
  "obj_heap_ok h \<longleftrightarrow> (\<forall>a \<in> dom (vars h). a < next_var h)"

definition new_var :: "var \<Rightarrow> obj_heap \<Rightarrow> nat \<times> obj_heap" where
  "new_var x h = (next_var h, h\<lparr>vars := (vars h)(next_var h \<mapsto> x), next_var := Suc (next_var h)\<rparr>)"

definition set_var :: "nat \<Rightarrow> var \<Rightarrow> obj_heap \<Rightarrow> obj_heap" where
  "set_var a x h = h\<lparr>vars := (vars h)(a \<mapsto> x)\<rparr>"

definition load_struct :: "obj_heap \<Rightarrow> nat \<Rightarrow> obj_struct option" where
  "load_struct h p = (case vars h p of Some (StructVar s) \<Rightarrow> Some s | _ \<Rightarrow> None)"

fun struct_fields :: "obj_heap \<Rightarrow> body \<Rightarrow> fields option" where
  "struct_fields h (Inline f) = Some f"
| "struct_fields h (Behind a) = (case vars h a of Some (FieldsVar f) \<Rightarrow> Some f | _ \<Rightarrow> None)"

section \<open>Their values\<close>

fun load_map :: "obj_heap \<Rightarrow> nat option \<Rightarrow> (string \<rightharpoonup> string) option" where
  "load_map h None = Some Map.empty"
| "load_map h (Some a) = (case vars h a of Some (MapVar m) \<Rightarrow> Some m | _ \<Rightarrow> None)"

fun load_data :: "obj_heap \<Rightarrow> nat option \<Rightarrow> string option" where
  "load_data h None = Some ''''"
| "load_data h (Some a) = (case vars h a of Some (DataVar d) \<Rightarrow> Some d | _ \<Rightarrow> None)"

fun load_meta :: "obj_heap \<Rightarrow> meta_fields option \<Rightarrow> objmeta option option" where
  "load_meta h None = Some None"
| "load_meta h (Some m) =
     (case (load_map h (mf_labels m), load_map h (mf_annotations m)) of
        (Some ls, Some as) \<Rightarrow>
          Some (Some \<lparr>mname = mf_name m, mnamespace = mf_namespace m, mlabels = ls, mannotations = as\<rparr>)
      | _ \<Rightarrow> None)"

definition read_struct :: "obj_heap \<Rightarrow> obj_struct \<Rightarrow> object option" where
  "read_struct h s =
     (case struct_fields h (os_body s) of
        None \<Rightarrow> None
      | Some f \<Rightarrow>
          (case (load_meta h (f_meta f), load_data h (f_data f)) of
             (Some m, Some d) \<Rightarrow> Some \<lparr>otype = os_type s, ogvk = f_gvk f, ometa = m, odata = d\<rparr>
           | _ \<Rightarrow> None))"

text \<open>The value of the object a pointer points to; \<open>None\<close> where it does not point to one.\<close>

definition read_obj :: "obj_heap \<Rightarrow> nat \<Rightarrow> object option" where
  "read_obj h p = (case load_struct h p of None \<Rightarrow> None | Some s \<Rightarrow> read_struct h s)"

text \<open>The variables an object is made of.\<close>

fun meta_vars :: "meta_fields option \<Rightarrow> nat set" where
  "meta_vars None = {}"
| "meta_vars (Some m) = set_option (mf_labels m) \<union> set_option (mf_annotations m)"

definition field_vars :: "fields \<Rightarrow> nat set" where
  "field_vars f = meta_vars (f_meta f) \<union> set_option (f_data f)"

fun body_vars :: "obj_heap \<Rightarrow> body \<Rightarrow> nat set" where
  "body_vars h (Inline f) = field_vars f"
| "body_vars h (Behind a) = insert a (case vars h a of Some (FieldsVar f) \<Rightarrow> field_vars f | _ \<Rightarrow> {})"

definition obj_vars :: "obj_heap \<Rightarrow> nat \<Rightarrow> nat set" where
  "obj_vars h p = insert p (case load_struct h p of None \<Rightarrow> {} | Some s \<Rightarrow> body_vars h (os_body s))"

text \<open>
  \<open>DeepCopyObject\<close>, third-party code or generated: the pointer to the copy and the heap
  after it. What it does is documented: it allocates an object of the same value that has
  no variable in common with any older one, which it leaves alone.
\<close>

type_synonym deep_copy = "nat \<Rightarrow> obj_heap \<Rightarrow> nat \<times> obj_heap"

definition deep_copy_ok :: "deep_copy \<Rightarrow> bool" where
  "deep_copy_ok dc \<longleftrightarrow>
     (\<forall>h p ob q h'. obj_heap_ok h \<longrightarrow> read_obj h p = Some ob \<longrightarrow> dc p h = (q, h') \<longrightarrow>
        obj_heap_ok h' \<and> vars h \<subseteq>\<^sub>m vars h' \<and> read_obj h' q = Some ob \<and> obj_vars h' q \<inter> dom (vars h) = {})"

text \<open>\<open>SetGroupVersionKind\<close> writes into the struct, or into the map behind it.\<close>

definition set_gvk :: "nat \<Rightarrow> gvk \<Rightarrow> obj_heap \<Rightarrow> obj_heap" where
  "set_gvk p g h =
     (case load_struct h p of
        None \<Rightarrow> h
      | Some s \<Rightarrow>
          (case os_body s of
             Inline f \<Rightarrow> set_var p (StructVar (s\<lparr>os_body := Inline (f\<lparr>f_gvk := g\<rparr>)\<rparr>)) h
           | Behind a \<Rightarrow>
               (case vars h a of
                  Some (FieldsVar f) \<Rightarrow> set_var a (FieldsVar (f\<lparr>f_gvk := g\<rparr>)) h
                | _ \<Rightarrow> h)))"

text \<open>A caller's write into the labels of the object it was handed, where they are not nil.\<close>

definition labels_var :: "obj_heap \<Rightarrow> nat \<Rightarrow> nat option" where
  "labels_var h p =
     (case load_struct h p of
        None \<Rightarrow> None
      | Some s \<Rightarrow>
          (case struct_fields h (os_body s) of
             None \<Rightarrow> None
           | Some f \<Rightarrow> (case f_meta f of None \<Rightarrow> None | Some m \<Rightarrow> mf_labels m)))"

definition set_label :: "nat \<Rightarrow> string \<Rightarrow> string \<Rightarrow> obj_heap \<Rightarrow> obj_heap" where
  "set_label p k v h =
     (case labels_var h p of
        None \<Rightarrow> h
      | Some a \<Rightarrow>
          (case vars h a of Some (MapVar m) \<Rightarrow> set_var a (MapVar (m(k \<mapsto> v))) h | _ \<Rightarrow> h))"

section \<open>Reading and writing the heap\<close>

lemma load_struct_iff: "load_struct h p = Some s \<longleftrightarrow> vars h p = Some (StructVar s)"
  by (auto simp: load_struct_def split: option.splits var.splits)

lemma set_var_sel [simp]: "vars (set_var a x h) = (vars h)(a \<mapsto> x)" "next_var (set_var a x h) = next_var h"
  by (simp_all add: set_var_def)

lemma load_map_SomeD: "load_map h r = Some m \<Longrightarrow> a \<in> set_option r \<Longrightarrow> vars h a = Some (MapVar m)"
  by (cases r) (auto split: option.splits var.splits)

lemma load_data_SomeD: "load_data h r = Some d \<Longrightarrow> a \<in> set_option r \<Longrightarrow> vars h a = Some (DataVar d)"
  by (cases r) (auto split: option.splits var.splits)

lemma load_map_frame: "(\<And>a. a \<in> set_option r \<Longrightarrow> vars h' a = vars h a) \<Longrightarrow> load_map h' r = load_map h r"
  by (cases r) auto

lemma load_data_frame: "(\<And>a. a \<in> set_option r \<Longrightarrow> vars h' a = vars h a) \<Longrightarrow> load_data h' r = load_data h r"
  by (cases r) auto

lemma load_meta_frame:
  assumes "\<And>a. a \<in> meta_vars m \<Longrightarrow> vars h' a = vars h a"
  shows "load_meta h' m = load_meta h m"
proof (cases m)
  case (Some x)
  then have "load_map h' (mf_labels x) = load_map h (mf_labels x)"
    "load_map h' (mf_annotations x) = load_map h (mf_annotations x)"
    by (auto intro!: load_map_frame assms)
  then show ?thesis using Some by simp
qed simp

text \<open>No variable behind a readable object is a struct, so none is the object itself.\<close>

lemma field_vars_typed:
  assumes "load_meta h (f_meta f) = Some m" and "load_data h (f_data f) = Some d" and "a \<in> field_vars f"
  shows "\<exists>x. vars h a = Some x \<and> (\<forall>s. x \<noteq> StructVar s) \<and> (\<forall>g. x \<noteq> FieldsVar g)"
  using assms
  by (cases "f_meta f") (auto simp: field_vars_def split: option.splits dest: load_map_SomeD load_data_SomeD)

lemma read_struct_Some:
  "read_struct h s = Some ob \<longleftrightarrow>
     (\<exists>f m d. struct_fields h (os_body s) = Some f \<and> load_meta h (f_meta f) = Some m \<and>
        load_data h (f_data f) = Some d \<and> ob = \<lparr>otype = os_type s, ogvk = f_gvk f, ometa = m, odata = d\<rparr>)"
  by (auto simp: read_struct_def split: option.splits)

lemma read_struct_vars:
  assumes "read_struct h s = Some ob" and "a \<in> body_vars h (os_body s)"
  shows "\<exists>x. vars h a = Some x \<and> (\<forall>t. x \<noteq> StructVar t)"
  using assms field_vars_typed
  by (cases "os_body s") (fastforce simp: read_struct_Some split: option.splits var.splits)+

lemma read_struct_frame:
  assumes "\<And>a. a \<in> body_vars h (os_body s) \<Longrightarrow> vars h' a = vars h a"
  shows "read_struct h' s = read_struct h s" and "body_vars h' (os_body s) = body_vars h (os_body s)"
proof -
  have f: "struct_fields h' (os_body s) = struct_fields h (os_body s)"
    using assms by (cases "os_body s") auto
  show "body_vars h' (os_body s) = body_vars h (os_body s)"
    using assms by (cases "os_body s") auto
  show "read_struct h' s = read_struct h s"
  proof (cases "struct_fields h (os_body s)")
    case (Some g)
    then have "field_vars g \<subseteq> body_vars h (os_body s)"
      by (cases "os_body s") (auto split: option.splits var.splits)
    then have "load_meta h' (f_meta g) = load_meta h (f_meta g)" "load_data h' (f_data g) = load_data h (f_data g)"
      using assms by (auto intro!: load_meta_frame load_data_frame simp: field_vars_def)
    then show ?thesis using f Some by (simp add: read_struct_def)
  qed (simp add: read_struct_def f)
qed

text \<open>An object is read off its own variables, so it does not change while they do not.\<close>

lemma read_obj_frame:
  assumes "\<And>a. a \<in> obj_vars h p \<Longrightarrow> vars h' a = vars h a"
  shows "read_obj h' p = read_obj h p" and "obj_vars h' p = obj_vars h p"
proof -
  have "vars h' p = vars h p" by (rule assms) (simp add: obj_vars_def)
  then have p: "load_struct h' p = load_struct h p" by (simp add: load_struct_def)
  have frame: "read_struct h' s = read_struct h s" "body_vars h' (os_body s) = body_vars h (os_body s)"
    if "load_struct h p = Some s" for s
    using read_struct_frame [of h s h'] assms that by (auto simp: obj_vars_def)
  show "read_obj h' p = read_obj h p" "obj_vars h' p = obj_vars h p"
    using p frame by (simp_all add: read_obj_def obj_vars_def split: option.split)
qed

lemma read_obj_struct:
  "read_obj h p = Some ob \<longleftrightarrow> (\<exists>s. load_struct h p = Some s \<and> read_struct h s = Some ob)"
  by (simp add: read_obj_def split: option.split)

lemma obj_vars_struct:
  "load_struct h p = Some s \<Longrightarrow> obj_vars h p = insert p (body_vars h (os_body s))"
  by (simp add: obj_vars_def)

lemma obj_vars_dom: "read_obj h p = Some ob \<Longrightarrow> obj_vars h p \<subseteq> dom (vars h)"
  using read_struct_vars by (fastforce simp: read_obj_struct obj_vars_struct load_struct_iff)

lemma obj_vars_separate:
  assumes "read_obj h p = Some ob" and "load_struct h a = Some t" and "a \<in> obj_vars h p"
  shows "a = p"
  using assms read_struct_vars by (fastforce simp: read_obj_struct obj_vars_struct load_struct_iff)

lemma read_struct_type: "read_struct h s = Some ob \<Longrightarrow> otype ob = os_type s"
  by (auto simp: read_struct_def split: option.splits)

text \<open>An object in an older part of the heap stays as it was.\<close>

lemma read_obj_mono:
  assumes "read_obj h p = Some ob" and "vars h \<subseteq>\<^sub>m vars h'"
  shows "read_obj h' p = Some ob" and "obj_vars h' p = obj_vars h p"
proof -
  have same: "vars h' a = vars h a" if "a \<in> obj_vars h p" for a
    using that obj_vars_dom [OF assms(1)] assms(2) unfolding map_le_def by (metis subsetD)
  show "read_obj h' p = Some ob" "obj_vars h' p = obj_vars h p"
    using read_obj_frame [of h p h', OF same] assms(1) by simp_all
qed

lemma obj_heap_ok_mono: "obj_heap_ok h \<Longrightarrow> dom (vars h') = dom (vars h) \<Longrightarrow> next_var h' = next_var h \<Longrightarrow> obj_heap_ok h'"
  by (simp add: obj_heap_ok_def)

section \<open>Writing the GroupVersionKind\<close>

text \<open>
  \<open>SetGroupVersionKind\<close> changes that field of the object only, keeps the variables it is made
  of, and touches no other.
\<close>

lemma set_gvk_Inline:
  assumes "load_struct h p = Some s" and "os_body s = Inline f"
  shows "set_gvk p g h = set_var p (StructVar (s\<lparr>os_body := Inline (f\<lparr>f_gvk := g\<rparr>)\<rparr>)) h"
  using assms by (simp add: set_gvk_def)

lemma set_gvk_Behind:
  assumes "load_struct h p = Some s" and "os_body s = Behind a" and "vars h a = Some (FieldsVar f)"
  shows "set_gvk p g h = set_var a (FieldsVar (f\<lparr>f_gvk := g\<rparr>)) h"
  using assms by (simp add: set_gvk_def)

lemma field_vars_gvk [simp]: "field_vars (f\<lparr>f_gvk := g\<rparr>) = field_vars f"
  by (simp add: field_vars_def)

lemma set_gvk_spec:
  assumes "read_obj h p = Some ob"
  shows "read_obj (set_gvk p g h) p = Some (ob\<lparr>ogvk := g\<rparr>) \<and> obj_vars (set_gvk p g h) p = obj_vars h p \<and>
    (\<forall>a. a \<notin> obj_vars h p \<longrightarrow> vars (set_gvk p g h) a = vars h a) \<and>
    dom (vars (set_gvk p g h)) = dom (vars h) \<and> next_var (set_gvk p g h) = next_var h"
proof -
  obtain s f m d where s: "load_struct h p = Some s" "struct_fields h (os_body s) = Some f"
    and r: "load_meta h (f_meta f) = Some m" "load_data h (f_data f) = Some d"
    and ob: "ob = \<lparr>otype = os_type s, ogvk = f_gvk f, ometa = m, odata = d\<rparr>"
    using assms unfolding read_obj_struct read_struct_Some by blast
  have keep: "load_meta h' (f_meta f) = Some m \<and> load_data h' (f_data f) = Some d"
    if "\<And>a. a \<in> field_vars f \<Longrightarrow> vars h' a = vars h a" for h'
    using load_meta_frame [of "f_meta f" h' h] load_data_frame [of "f_data f" h' h] that r
    by (simp add: field_vars_def)
  note typed = field_vars_typed [OF r]
  have p: "vars h p = Some (StructVar s)" using s(1) by (simp add: load_struct_iff)
  show ?thesis
  proof (cases "os_body s")
    case (Inline f')
    then have f': "f' = f" using s(2) by simp
    let ?s = "s\<lparr>os_body := Inline (f\<lparr>f_gvk := g\<rparr>)\<rparr>" and ?h = "set_gvk p g h"
    have h: "?h = set_var p (StructVar ?s) h" using set_gvk_Inline [OF s(1) Inline] f' by simp
    have "p \<notin> field_vars f" using typed [of p] p by auto
    then have "load_meta ?h (f_meta f) = Some m \<and> load_data ?h (f_data f) = Some d"
      by (intro keep) (auto simp: h)
    moreover have "load_struct ?h p = Some ?s" by (simp add: h load_struct_iff)
    ultimately show ?thesis using s(1) Inline f' ob p
      by (auto simp: h read_obj_struct read_struct_Some obj_vars_struct)
  next
    case (Behind a)
    then have a: "vars h a = Some (FieldsVar f)" using s(2) by (simp split: option.splits var.splits)
    let ?h = "set_gvk p g h"
    have h: "?h = set_var a (FieldsVar (f\<lparr>f_gvk := g\<rparr>)) h" by (rule set_gvk_Behind [OF s(1) Behind a])
    have "a \<notin> field_vars f" using typed [of a] a by auto
    then have "load_meta ?h (f_meta f) = Some m \<and> load_data ?h (f_data f) = Some d"
      by (intro keep) (auto simp: h)
    moreover have "load_struct ?h p = Some s" using p a by (auto simp: h load_struct_iff)
    ultimately show ?thesis using s(1) Behind ob a
      by (auto simp: h read_obj_struct read_struct_Some obj_vars_struct)
  qed
qed

section \<open>Copies\<close>

lemma deep_copyD:
  assumes "deep_copy_ok dc" and "obj_heap_ok h" and "read_obj h p = Some ob" and "dc p h = (q, h')"
  shows "obj_heap_ok h'" and "vars h \<subseteq>\<^sub>m vars h'" and "read_obj h' q = Some ob" and "obj_vars h' q \<inter> dom (vars h) = {}"
  using assms unfolding deep_copy_ok_def by blast+

text \<open>Assigning a struct: the target has the value, and refers to what the source refers to.\<close>

lemma assign_spec:
  assumes "load_struct h q = Some s" and "read_struct h s = Some ob" and "load_struct h out = Some t"
  shows "read_obj (set_var out (StructVar s) h) out = Some ob"
    and "obj_vars (set_var out (StructVar s) h) out = insert out (body_vars h (os_body s))"
proof -
  let ?h = "set_var out (StructVar s) h"
  have "out \<notin> body_vars h (os_body s)"
    using read_struct_vars [OF assms(2), of out] assms(3) by (auto simp: load_struct_iff)
  then have "vars ?h a = vars h a" if "a \<in> body_vars h (os_body s)" for a
    using that by auto
  note same = read_struct_frame [of h s ?h, OF this]
  have "load_struct ?h out = Some s" by (simp add: load_struct_iff)
  then show "read_obj ?h out = Some ob" "obj_vars ?h out = insert out (body_vars h (os_body s))"
    using same assms(2) by (simp_all add: read_obj_struct obj_vars_struct)
qed

lemma separate_objects:
  assumes "read_obj h p = Some ob" and "p \<noteq> out" and "read_obj h out = Some v"
    and "vars h |` (- {out}) \<subseteq>\<^sub>m vars h'" and "obj_vars h' out \<inter> dom (vars h) = {out}"
  shows "read_obj h' p = Some ob" and "obj_vars h' p \<inter> obj_vars h' out = {}"
proof -
  obtain t where "load_struct h out = Some t" using assms(3) by (auto simp: read_obj_struct)
  then have out: "out \<notin> obj_vars h p" using obj_vars_separate [OF assms(1)] assms(2) by blast
  have dom: "obj_vars h p \<subseteq> dom (vars h)" by (rule obj_vars_dom [OF assms(1)])
  have "vars h' a = vars h a" if "a \<in> obj_vars h p" for a
  proof -
    have "a \<in> dom (vars h |` (- {out}))" using that out dom by auto
    then show ?thesis using assms(4) that out by (metis Compl_iff map_le_def restrict_in singletonD)
  qed
  note same = read_obj_frame [of h p h', OF this]
  show "read_obj h' p = Some ob" using same(1) assms(1) by simp
  show "obj_vars h' p \<inter> obj_vars h' out = {}" using same(2) dom out assms(5) by auto
qed

text \<open>One copy of the loop, with the GroupVersionKind set.\<close>

lemma copy_gvk_spec:
  assumes "deep_copy_ok dc" and "obj_heap_ok h" and "read_obj h p = Some ob" and "dc p h = (q, h1)"
  shows "obj_heap_ok (set_gvk q g h1)" and "vars h \<subseteq>\<^sub>m vars (set_gvk q g h1)"
    and "read_obj (set_gvk q g h1) q = Some (ob\<lparr>ogvk := g\<rparr>)"
    and "obj_vars (set_gvk q g h1) q \<inter> dom (vars h) = {}"
proof -
  note copy = deep_copyD [OF assms]
  note gvk = set_gvk_spec [OF copy(3), of g]
  have vars: "vars (set_gvk q g h1) a = vars h1 a" if "a \<notin> obj_vars h1 q" for a
    using gvk that by blast
  show "obj_heap_ok (set_gvk q g h1)" by (rule obj_heap_ok_mono [OF copy(1)]) (simp_all add: gvk)
  show "read_obj (set_gvk q g h1) q = Some (ob\<lparr>ogvk := g\<rparr>)" by (simp add: gvk)
  show "obj_vars (set_gvk q g h1) q \<inter> dom (vars h) = {}" using copy(4) gvk by metis
  have "vars h a = vars (set_gvk q g h1) a" if "a \<in> dom (vars h)" for a
  proof -
    have "vars h a = vars h1 a" using copy(2) that by (simp add: map_le_def)
    moreover have "a \<notin> obj_vars h1 q" using copy(4) that by blast
    ultimately show ?thesis by (simp add: vars)
  qed
  then show "vars h \<subseteq>\<^sub>m vars (set_gvk q g h1)" by (simp add: map_le_def)
qed

section \<open>A deep copy\<close>

text \<open>A copy function that does what \<open>DeepCopyObject\<close> documents, for the witnesses.\<close>

fun copy_var :: "nat option \<Rightarrow> obj_heap \<Rightarrow> nat option \<times> obj_heap" where
  "copy_var None h = (None, h)"
| "copy_var (Some a) h =
     (case vars h a of None \<Rightarrow> (None, h) | Some x \<Rightarrow> (let (b, h) = new_var x h in (Some b, h)))"

fun copy_meta :: "meta_fields option \<Rightarrow> obj_heap \<Rightarrow> meta_fields option \<times> obj_heap" where
  "copy_meta None h = (None, h)"
| "copy_meta (Some m) h =
     (let (ls, h) = copy_var (mf_labels m) h; (as, h) = copy_var (mf_annotations m) h
      in (Some (m\<lparr>mf_labels := ls, mf_annotations := as\<rparr>), h))"

fun copy_body :: "body \<Rightarrow> fields \<Rightarrow> obj_heap \<Rightarrow> body \<times> obj_heap" where
  "copy_body (Inline g) f h = (Inline f, h)"
| "copy_body (Behind a) f h = (let (b, h) = new_var (FieldsVar f) h in (Behind b, h))"

definition copy_object :: deep_copy where
  "copy_object p h =
     (case load_struct h p of
        None \<Rightarrow> (p, h)
      | Some s \<Rightarrow>
          (case struct_fields h (os_body s) of
             None \<Rightarrow> (p, h)
           | Some f \<Rightarrow>
               (let (m, h) = copy_meta (f_meta f) h;
                    (d, h) = copy_var (f_data f) h;
                    (b, h) = copy_body (os_body s) (f\<lparr>f_meta := m, f_data := d\<rparr>) h
                in new_var (StructVar (s\<lparr>os_body := b\<rparr>)) h)))"

text \<open>Allocation extends the heap by one fresh variable.\<close>

definition grows :: "obj_heap \<Rightarrow> obj_heap \<Rightarrow> bool" where
  "grows h h' \<longleftrightarrow> obj_heap_ok h' \<and> vars h \<subseteq>\<^sub>m vars h'"

lemma grows_trans: "grows h h1 \<Longrightarrow> grows h1 h2 \<Longrightarrow> grows h h2"
  unfolding grows_def by (blast intro: map_le_trans)

lemma fresh_var: "obj_heap_ok h \<Longrightarrow> next_var h \<notin> dom (vars h)"
  by (auto simp: obj_heap_ok_def)

lemma new_var_grows: "obj_heap_ok h \<Longrightarrow> new_var x h = (a, h') \<Longrightarrow> grows h h' \<and> vars h' a = Some x \<and> a \<notin> dom (vars h)"
  using fresh_var [of h] by (auto simp: new_var_def grows_def obj_heap_ok_def map_le_def less_Suc_eq split: if_splits)

lemma map_of_var_mono: "grows h h' \<Longrightarrow> vars h a = Some x \<Longrightarrow> vars h' a = Some x"
  unfolding grows_def by (blast intro: map_le_Some)

lemma grows_same: "grows h h' \<Longrightarrow> a \<in> dom (vars h) \<Longrightarrow> vars h' a = vars h a"
  unfolding grows_def map_le_def by metis

lemma grows_dom: "grows h h' \<Longrightarrow> dom (vars h) \<subseteq> dom (vars h')"
  by (simp add: grows_def map_le_implies_dom_le)

lemma copy_var_spec:
  assumes "obj_heap_ok h" and "copy_var r h = (r', h')" and "set_option r \<subseteq> dom (vars h)"
  shows "grows h h' \<and> set_option r' \<inter> dom (vars h) = {} \<and> set_option r' \<subseteq> dom (vars h') \<and>
    load_map h' r' = load_map h r \<and> load_data h' r' = load_data h r"
proof (cases r)
  case None
  then show ?thesis using assms by (auto simp: grows_def)
next
  case (Some a)
  then obtain x where "vars h a = Some x" using assms(3) by auto
  then show ?thesis using assms(2) Some new_var_grows [OF assms(1), of x]
    by (auto split: prod.splits)
qed

lemma copy_meta_spec:
  assumes "obj_heap_ok h" and "copy_meta m h = (m', h')" and "meta_vars m \<subseteq> dom (vars h)"
  shows "grows h h' \<and> meta_vars m' \<inter> dom (vars h) = {} \<and> meta_vars m' \<subseteq> dom (vars h') \<and>
    load_meta h' m' = load_meta h m"
proof (cases m)
  case None
  then show ?thesis using assms by (auto simp: grows_def)
next
  case (Some x)
  obtain ls h1 where ls: "copy_var (mf_labels x) h = (ls, h1)" by fastforce
  obtain as h2 where as: "copy_var (mf_annotations x) h1 = (as, h2)" by fastforce
  have sub: "set_option (mf_labels x) \<subseteq> dom (vars h)" "set_option (mf_annotations x) \<subseteq> dom (vars h)"
    using assms(3) Some by auto
  note 1 = copy_var_spec [OF assms(1) ls sub(1)]
  have sub1: "set_option (mf_annotations x) \<subseteq> dom (vars h1)" using sub(2) 1 grows_dom by blast
  have "obj_heap_ok h1" using 1 by (simp add: grows_def)
  note 2 = copy_var_spec [OF this as sub1]
  have "load_map h2 ls = load_map h1 ls"
    by (rule load_map_frame) (use 1 2 grows_same in blast)
  then have ls2: "load_map h2 ls = load_map h (mf_labels x)" using 1 by simp
  have "load_map h1 (mf_annotations x) = load_map h (mf_annotations x)"
    by (rule load_map_frame) (use sub(2) 1 grows_same in blast)
  then have as2: "load_map h2 as = load_map h (mf_annotations x)" using 2 by simp
  have m': "m' = Some (x\<lparr>mf_labels := ls, mf_annotations := as\<rparr>)" "h' = h2"
    using assms(2) Some ls as by auto
  then have "load_meta h' m' = load_meta h m" by (simp add: Some ls2 as2 split: option.split)
  moreover have "grows h h2" using 1 2 grows_trans by blast
  moreover have "set_option as \<inter> dom (vars h) = {}" "set_option ls \<subseteq> dom (vars h2)"
    using 1 2 grows_dom by blast+
  ultimately show ?thesis using 1 2 m' by simp blast
qed

lemma copy_body_spec:
  assumes "obj_heap_ok h" and "copy_body b f h = (b', h')"
    and "D \<subseteq> dom (vars h)" and "field_vars f \<subseteq> dom (vars h)" and "field_vars f \<inter> D = {}"
  shows "grows h h' \<and> struct_fields h' b' = Some f \<and> body_vars h' b' \<inter> D = {} \<and> body_vars h' b' \<subseteq> dom (vars h')"
proof (cases b)
  case (Inline g)
  then show ?thesis using assms by (auto simp: grows_def)
next
  case (Behind a)
  obtain c h1 where c: "new_var (FieldsVar f) h = (c, h1)" by fastforce
  note new = new_var_grows [OF assms(1) c]
  have "b' = Behind c" "h' = h1" using assms(2) Behind c by auto
  moreover have "insert c (field_vars f) \<subseteq> dom (vars h1)" using new grows_dom assms(4) by blast
  ultimately show ?thesis using new assms(3,5) by auto
qed

lemma copy_fields_spec:
  fixes f :: fields
  assumes "obj_heap_ok h" and "load_meta h (f_meta f) = Some x" and "load_data h (f_data f) = Some d"
    and "copy_meta (f_meta f) h = (m, h1)" and "copy_var (f_data f) h1 = (e, h2)"
  shows "grows h h2 \<and> meta_vars m \<union> set_option e \<subseteq> dom (vars h2) \<and>
    (meta_vars m \<union> set_option e) \<inter> dom (vars h) = {} \<and> load_meta h2 m = Some x \<and> load_data h2 e = Some d"
proof -
  have sub: "meta_vars (f_meta f) \<subseteq> dom (vars h)" "set_option (f_data f) \<subseteq> dom (vars h)"
    using field_vars_typed [OF assms(2,3)] unfolding field_vars_def by blast+
  note 1 = copy_meta_spec [OF assms(1,4) sub(1)]
  have "obj_heap_ok h1" using 1 by (simp add: grows_def)
  moreover have "set_option (f_data f) \<subseteq> dom (vars h1)" using 1 sub(2) grows_dom by blast
  ultimately have 2: "grows h1 h2 \<and> set_option e \<inter> dom (vars h1) = {} \<and> set_option e \<subseteq> dom (vars h2) \<and>
      load_map h2 e = load_map h1 (f_data f) \<and> load_data h2 e = load_data h1 (f_data f)"
    by (rule copy_var_spec [OF _ assms(5)])
  have "load_meta h2 m = load_meta h1 m"
    by (rule load_meta_frame) (use 1 2 grows_same in blast)
  moreover have "load_data h1 (f_data f) = load_data h (f_data f)"
    by (rule load_data_frame) (use sub(2) 1 grows_same in blast)
  moreover have "grows h h2" using 1 2 grows_trans by blast
  moreover have "set_option e \<inter> dom (vars h) = {}" "meta_vars m \<subseteq> dom (vars h2)"
    using 1 2 grows_dom by blast+
  ultimately show ?thesis using 1 2 assms(2,3) by auto
qed

lemma copy_object_ok: "deep_copy_ok copy_object"
  unfolding deep_copy_ok_def
proof (intro allI impI)
  fix h p ob q h'
  assume ok: "obj_heap_ok h" and ob: "read_obj h p = Some ob" and copy: "copy_object p h = (q, h')"
  obtain s f x d where s: "load_struct h p = Some s" "struct_fields h (os_body s) = Some f"
    and r: "load_meta h (f_meta f) = Some x" "load_data h (f_data f) = Some d"
    and val: "ob = \<lparr>otype = os_type s, ogvk = f_gvk f, ometa = x, odata = d\<rparr>"
    using ob unfolding read_obj_struct read_struct_Some by blast
  obtain m h1 where m: "copy_meta (f_meta f) h = (m, h1)" by fastforce
  obtain e h2 where e: "copy_var (f_data f) h1 = (e, h2)" by fastforce
  let ?f = "f\<lparr>f_meta := m, f_data := e\<rparr>"
  obtain b h3 where b: "copy_body (os_body s) ?f h2 = (b, h3)" by fastforce
  let ?s = "s\<lparr>os_body := b\<rparr>"
  have h': "new_var (StructVar ?s) h3 = (q, h')" using copy s m e b by (simp add: copy_object_def)
  note 2 = copy_fields_spec [OF ok r m e]
  have f: "field_vars ?f \<subseteq> dom (vars h2)" "field_vars ?f \<inter> dom (vars h) = {}"
    using 2 by (auto simp: field_vars_def)
  have ok2: "obj_heap_ok h2" using 2 by (simp add: grows_def)
  note 3 = copy_body_spec [OF ok2 b grows_dom [OF 2 [THEN conjunct1]] f]
  have "obj_heap_ok h3" using 3 by (simp add: grows_def)
  note 4 = new_var_grows [OF this h']
  have ext: "grows h h'" "grows h2 h3" "grows h3 h'" using 2 3 4 grows_trans by blast+
  have q: "load_struct h' q = Some ?s" using 4 by (simp add: load_struct_iff)
  have "load_meta h3 m = load_meta h2 m" "load_data h3 e = load_data h2 e"
    by (rule load_meta_frame load_data_frame; use 2 grows_same [OF ext(2)] in blast)+
  then have "read_struct h3 ?s = Some ob" using 2 3 val by (simp add: read_struct_Some)
  moreover have sub: "body_vars h3 b \<subseteq> dom (vars h3)" using 3 by blast
  have "vars h' a = vars h3 a" if "a \<in> body_vars h3 (os_body ?s)" for a
    by (rule grows_same [OF ext(3)], rule subsetD [OF sub]) (use that in simp)
  note same = read_struct_frame [of h3 ?s h', OF this]
  ultimately have "read_obj h' q = Some ob" using q by (simp add: read_obj_struct)
  moreover have "q \<notin> dom (vars h)" using 4 2 ext(2) grows_dom by blast
  then have "obj_vars h' q \<inter> dom (vars h) = {}" using 3 same(2) by (simp add: obj_vars_struct [OF q])
  ultimately show "obj_heap_ok h' \<and> vars h \<subseteq>\<^sub>m vars h' \<and> read_obj h' q = Some ob \<and> obj_vars h' q \<inter> dom (vars h) = {}"
    using ext(1) by (simp add: grows_def)
qed

section \<open>Writing labels\<close>

text \<open>A write into the labels shows in every object that refers to the same map.\<close>

lemma labels_var_Some:
  "labels_var h p = Some a \<longleftrightarrow>
     (\<exists>s f m. load_struct h p = Some s \<and> struct_fields h (os_body s) = Some f \<and> f_meta f = Some m \<and> mf_labels m = Some a)"
  by (simp add: labels_var_def split: option.split)

lemma labels_var_obj_vars:
  assumes "labels_var h p = Some a"
  shows "a \<in> obj_vars h p"
proof -
  obtain s f m where "load_struct h p = Some s" "struct_fields h (os_body s) = Some f" "f_meta f = Some m" "mf_labels m = Some a"
    using assms unfolding labels_var_Some by blast
  then show ?thesis
    by (cases "os_body s") (auto simp: obj_vars_struct field_vars_def split: option.splits var.splits)
qed

lemma set_label_vars: "a \<notin> obj_vars h p \<Longrightarrow> vars (set_label p k v h) a = vars h a"
  using labels_var_obj_vars [of h p] by (auto simp: set_label_def split: option.split var.split)

lemma load_map_write:
  assumes "load_map h r \<noteq> None" and "vars h a = Some (MapVar m)"
  shows "load_map (set_var a (MapVar m') h) r \<noteq> None"
  using assms by (cases r) (auto split: option.splits var.splits)

lemma set_label_read:
  assumes "read_obj h p = Some ob" and "labels_var h p = Some a" and "labels_var h q = Some a"
  shows "\<exists>ob' m. read_obj (set_label q k v h) p = Some ob' \<and> ometa ob' = Some m \<and> mlabels m k = Some v"
proof -
  obtain s f m where s: "load_struct h p = Some s" "struct_fields h (os_body s) = Some f"
    and m: "f_meta f = Some m" "mf_labels m = Some a"
    using assms(2) unfolding labels_var_Some by blast
  obtain x d where x: "load_meta h (f_meta f) = Some x" and d: "load_data h (f_data f) = Some d"
    using assms(1) s unfolding read_obj_struct read_struct_Some by auto
  obtain ls where ls: "vars h a = Some (MapVar ls)"
    using x m by (auto split: option.splits var.splits)
  let ?h = "set_var a (MapVar (ls(k \<mapsto> v))) h"
  have h: "set_label q k v h = ?h" using assms(3) ls by (simp add: set_label_def)
  have "load_map h (mf_annotations m) \<noteq> None" using x m by (auto split: option.splits)
  then obtain as where as: "load_map ?h (mf_annotations m) = Some as" using load_map_write ls by blast
  have "a \<notin> set_option (f_data f)" using load_data_SomeD [OF d, of a] ls by auto
  then have "load_data ?h (f_data f) = Some d" using d by (cases "f_data f") auto
  moreover have "load_struct ?h p = Some s" using s(1) ls by (auto simp: load_struct_iff)
  moreover have "struct_fields ?h (os_body s) = Some f"
    using s(2) ls by (cases "os_body s") (auto split: option.splits var.splits)
  ultimately show ?thesis using m as unfolding h read_obj_struct read_struct_Some by auto
qed

end
