(* ===== verification/Reader_Heap.thy ===== *)
theory Reader_Heap
  imports Object_Heap
begin

text \<open>
  Deep copies and aliasing in the cache reader of \<open>virtualworkspace/forked_cache_reader.go\<close>.
  \<open>Cache_Reader\<close> takes objects for values; here they are structs on a heap, with references
  to their label and annotation maps and to their content, the store holds pointers to them
  and \<open>Get\<close> writes through the pointer it is handed. The heap reader refines the reader on
  values; what it hands out shares no memory with the store, unless deep copies are disabled.
\<close>

section \<open>The reader\<close>

text \<open>What the store holds: pointers to objects, or other values, of which only the type is seen.\<close>

datatype stored = Ptr nat | NonObject string

fun read_stored :: "obj_heap \<Rightarrow> stored \<Rightarrow> any" where
  "read_stored h (Ptr p) = (case read_obj h p of Some ob \<Rightarrow> Obj ob | None \<Rightarrow> Other nil_dereference)"
| "read_stored h (NonObject t) = Other t"

record heap_indexer =
  hi_GetIndexers :: indexers
  hi_GetByKey :: "string \<Rightarrow> stored option outcome"
  hi_ByIndex :: "string \<Rightarrow> string \<Rightarrow> stored list outcome"
  hi_IndexKeys :: "string \<Rightarrow> string \<Rightarrow> string list outcome"
  hi_ListAll :: "stored list"

record heap_reader =
  hr_indexer :: heap_indexer
  hr_gvk :: gvk
  hr_scopeName :: scope
  hr_disableDeepCopy :: bool
  hr_clusterName :: string

text \<open>The reader on values that a heap reader is at a heap.\<close>

definition indexer_at :: "obj_heap \<Rightarrow> heap_indexer \<Rightarrow> indexer" where
  "indexer_at h x =
     \<lparr>GetIndexers = hi_GetIndexers x,
      GetByKey = (\<lambda>k. map_outcome (map_option (read_stored h)) (hi_GetByKey x k)),
      ByIndex = (\<lambda>n v. map_outcome (map (read_stored h)) (hi_ByIndex x n v)),
      IndexKeys = hi_IndexKeys x,
      ListAll = map (read_stored h) (hi_ListAll x)\<rparr>"

definition reader_at :: "obj_heap \<Rightarrow> heap_reader \<Rightarrow> cacheReader" where
  "reader_at h c =
     \<lparr>cr_indexer = indexer_at h (hr_indexer c), cr_gvk = hr_gvk c, cr_scopeName = hr_scopeName c,
      cr_disableDeepCopy = hr_disableDeepCopy c, cr_clusterName = hr_clusterName c\<rparr>"

text \<open>The end of \<open>Get\<close>: the object found is copied, and its struct assigned to what \<open>out\<close> points to.\<close>

definition write_out ::
  "deep_copy \<Rightarrow> heap_reader \<Rightarrow> nat \<Rightarrow> nat \<Rightarrow> obj_heap \<Rightarrow> unit outcome \<times> obj_heap" where
  "write_out DeepCopyObject c obj out h =
     (let (obj, h) = (if hr_disableDeepCopy c then (obj, h) else DeepCopyObject obj h)
      in case (load_struct h obj, load_struct h out) of
           (Some objVal, Some outVal) \<Rightarrow>
             if os_type objVal \<noteq> os_type outVal
             then (Err (Errorf ''cache had type %s, but %s was asked for''
                          [go_type_name (os_type objVal), go_type_name (os_type outVal)]), h)
             else
               let h = set_var out (StructVar objVal) h
               in (Ok (), if hr_disableDeepCopy c then h else set_gvk out (hr_gvk c) h)
         | _ \<Rightarrow> (Panic nil_dereference, h))"

definition heap_Get ::
  "kcp_lib \<Rightarrow> deep_copy \<Rightarrow> heap_reader \<Rightarrow> object_key \<Rightarrow> nat \<Rightarrow> obj_heap \<Rightarrow> unit outcome \<times> obj_heap" where
  "heap_Get L DeepCopyObject c key out h =
     (let key = (if hr_scopeName c = RootScope then key\<lparr>knamespace := ''''\<rparr> else key);
          storeKey = objectKeyToStoreKey key;
          isClusterAware = (hi_GetIndexers (hr_indexer c) (ClusterAndNamespaceIndexName L) \<noteq> None)
      in if isClusterAware \<and> hr_clusterName c = ''''
         then (Err (Errorf ''cluster-aware cache requires a cluster in context'' []), h)
         else
           let storeKey = (if isClusterAware then hr_clusterName c @ ''|'' @ storeKey else storeKey)
           in case hi_GetByKey (hr_indexer c) storeKey of
                Err err \<Rightarrow> (Err err, h)
              | Panic p \<Rightarrow> (Panic p, h)
              | Ok None \<Rightarrow> (Err (NotFound (Group (hr_gvk c)) (Kind (hr_gvk c)) (kname key)), h)
              | Ok (Some (NonObject t)) \<Rightarrow>
                  (Err (Errorf ''cache contained %T, which is not an Object'' [t]), h)
              | Ok (Some (Ptr obj)) \<Rightarrow> write_out DeepCopyObject c obj out h)"

text \<open>The candidates of \<open>List\<close>: the lookups of the reader, over pointers.\<close>

fun heap_filter_indexed :: "obj_heap \<Rightarrow> index_fn \<Rightarrow> string \<Rightarrow> stored list \<Rightarrow> stored list outcome" where
  "heap_filter_indexed h fn indexedValue [] = Ok []"
| "heap_filter_indexed h fn indexedValue (obj # objs) =
     (case fn (read_stored h obj) of
        Err err \<Rightarrow> Err err
      | Panic p \<Rightarrow> Panic p
      | Ok vals \<Rightarrow>
          (case heap_filter_indexed h fn indexedValue objs of
             Ok filteredObjects \<Rightarrow>
               Ok (if indexedValue \<in> set vals then obj # filteredObjects else filteredObjects)
           | Err err \<Rightarrow> Err err
           | Panic p \<Rightarrow> Panic p))"

fun heap_byIndexes_loop ::
  "kcp_lib \<Rightarrow> obj_heap \<Rightarrow> heap_indexer \<Rightarrow> string \<Rightarrow> string \<Rightarrow> nat \<Rightarrow> requirement list \<Rightarrow> stored list \<Rightarrow>
   stored list outcome" where
  "heap_byIndexes_loop L h x clusterName namespace idx [] objs = Ok objs"
| "heap_byIndexes_loop L h x clusterName namespace idx (req # requires) objs =
     (let indexName = fieldIndexName (req_Field req);
          indexedValue =
            (if hi_GetIndexers x (ClusterAndNamespaceIndexName L) \<noteq> None
             then keyToClusteredKey clusterName namespace (req_Value req)
             else keyToNamespacedKey namespace (req_Value req))
      in if idx = 0 then
           (case hi_ByIndex x indexName indexedValue of
              Err err \<Rightarrow> Err err
            | Panic p \<Rightarrow> Panic p
            | Ok objs' \<Rightarrow>
                if objs' = [] then Ok []
                else heap_byIndexes_loop L h x clusterName namespace (Suc idx) requires objs')
         else
           (case hi_GetIndexers x indexName of
              None \<Rightarrow> Err (Errorf ''index with name %s does not exist'' [indexName])
            | Some fn \<Rightarrow>
                (case heap_filter_indexed h fn indexedValue objs of
                   Err err \<Rightarrow> Err err
                 | Panic p \<Rightarrow> Panic p
                 | Ok filteredObjects \<Rightarrow>
                     if filteredObjects = [] then Ok []
                     else heap_byIndexes_loop L h x clusterName namespace (Suc idx) requires
                            filteredObjects)))"

definition heap_candidates ::
  "kcp_lib \<Rightarrow> heap_reader \<Rightarrow> list_options \<Rightarrow> obj_heap \<Rightarrow> stored list outcome" where
  "heap_candidates L c lo h =
     (let x = hr_indexer c;
          isClusterAware = (hi_GetIndexers x (ClusterAndNamespaceIndexName L) \<noteq> None)
      in case lo_FieldSelector lo of
           Some reqs \<Rightarrow>
             if \<not> requiresExactMatch reqs
             then Err (Errorf ''non-exact field matches are not supported by the cache'' [])
             else heap_byIndexes_loop L h x (hr_clusterName c) (lo_Namespace lo) 0 reqs []
         | None \<Rightarrow>
             if lo_Namespace lo \<noteq> '''' then
               (if isClusterAware \<and> hr_clusterName c \<noteq> ''''
                then hi_ByIndex x (ClusterAndNamespaceIndexName L)
                       (kc_ClusterAndNamespaceIndexKey L (hr_clusterName c) (lo_Namespace lo))
                else hi_ByIndex x (NamespaceIndex L) (lo_Namespace lo))
             else
               (if isClusterAware \<and> hr_clusterName c \<noteq> ''''
                then hi_ByIndex x (ClusterIndexName L) (kc_ClusterIndexKey L (hr_clusterName c))
                else Ok (hi_ListAll x)))"

text \<open>The loop of \<open>List\<close> over the candidates; the pointers taken so far are what \<open>SetList\<close> gets.\<close>

fun heap_list_loop ::
  "deep_copy \<Rightarrow> heap_reader \<Rightarrow> list_options \<Rightarrow> stored list \<Rightarrow> nat list \<Rightarrow> obj_heap \<Rightarrow>
   nat list outcome \<times> obj_heap" where
  "heap_list_loop DeepCopyObject c lo [] runtimeObjs h = (Ok runtimeObjs, h)"
| "heap_list_loop DeepCopyObject c lo (item # objs) runtimeObjs h =
     (if lo_Limit lo > 0 \<and> int (length runtimeObjs) \<ge> lo_Limit lo then (Ok runtimeObjs, h)
      else case item of
             NonObject t \<Rightarrow> (Err (Errorf ''cache contained %T, which is not an Object'' [t]), h)
           | Ptr obj \<Rightarrow>
               (case Accessor (read_stored h item) of
                  Err err \<Rightarrow> (Err err, h)
                | Panic p \<Rightarrow> (Panic p, h)
                | Ok meta \<Rightarrow>
                    if \<not> labels_match lo meta then heap_list_loop DeepCopyObject c lo objs runtimeObjs h
                    else if hr_disableDeepCopy c \<or> lo_UnsafeDisableDeepCopy lo = Some True
                    then heap_list_loop DeepCopyObject c lo objs (runtimeObjs @ [obj]) h
                    else
                      let (outObj, h) = DeepCopyObject obj h;
                          h = set_gvk outObj (hr_gvk c) h
                      in heap_list_loop DeepCopyObject c lo objs (runtimeObjs @ [outObj]) h))"

text \<open>
  \<open>apimeta.SetList\<close>, third-party code: it writes the structs the pointers point to into the \<open>Items\<close>
  of the caller's list, whose address is \<open>out\<close>, and nothing else.
\<close>

type_synonym set_list = "nat \<Rightarrow> nat list \<Rightarrow> obj_heap \<Rightarrow> unit outcome \<times> obj_heap"

definition set_list_ok :: "set_list \<Rightarrow> bool" where
  "set_list_ok SetList \<longleftrightarrow>
     (\<forall>out ps h old ss. vars h out = Some (ListVar old) \<longrightarrow> map (load_struct h) ps = map Some ss \<longrightarrow>
        SetList out ps h = (Ok (), set_var out (ListVar ss) h))"

definition heap_List ::
  "kcp_lib \<Rightarrow> deep_copy \<Rightarrow> set_list \<Rightarrow> heap_reader \<Rightarrow> nat \<Rightarrow> list_options \<Rightarrow> obj_heap \<Rightarrow>
   unit outcome \<times> obj_heap" where
  "heap_List L DeepCopyObject SetList c out lo h =
     (if lo_Continue lo \<noteq> ''''
      then (Err (Errorf ''continue list option is not supported by the cache'' []), h)
      else case heap_candidates L c lo h of
             Err err \<Rightarrow> (Err err, h)
           | Panic p \<Rightarrow> (Panic p, h)
           | Ok objs \<Rightarrow>
               (case heap_list_loop DeepCopyObject c lo objs [] h of
                  (Err err, h) \<Rightarrow> (Err err, h)
                | (Panic p, h) \<Rightarrow> (Panic p, h)
                | (Ok runtimeObjs, h) \<Rightarrow> SetList out runtimeObjs h))"

section \<open>Handing an object out\<close>

lemma write_out_shared:
  assumes "hr_disableDeepCopy c" and "read_obj h p = Some ob" and "read_obj h out = Some v"
  shows "if otype ob \<noteq> otype v
    then write_out dc c p out h = (Err (Errorf ''cache had type %s, but %s was asked for''
           [go_type_name (otype ob), go_type_name (otype v)]), h)
    else \<exists>h' s. write_out dc c p out h = (Ok (), h') \<and> read_obj h' out = Some ob \<and>
           load_struct h p = Some s \<and> h' = set_var out (StructVar s) h"
proof -
  obtain s where s: "load_struct h p = Some s" "read_struct h s = Some ob" using assms(2) by (auto simp: read_obj_struct)
  obtain t where t: "load_struct h out = Some t" "read_struct h t = Some v" using assms(3) by (auto simp: read_obj_struct)
  show ?thesis
    using assign_spec(1) [OF s t(1)] assms(1) s(1) t(1) read_struct_type [OF s(2)] read_struct_type [OF t(2)]
    by (simp add: write_out_def)
qed

lemma set_gvk_frame:
  assumes "vars h \<subseteq>\<^sub>m vars h1"
    and "\<And>a. a \<in> dom (vars h) \<Longrightarrow> a \<noteq> out \<Longrightarrow> vars (set_gvk out g (set_var out x h1)) a = vars (set_var out x h1) a"
  shows "vars h |` (- {out}) \<subseteq>\<^sub>m vars (set_gvk out g (set_var out x h1))"
proof -
  have "vars (set_gvk out g (set_var out x h1)) a = vars h a" if "a \<in> dom (vars h)" "a \<noteq> out" for a
    using assms(1) assms(2) [OF that] that by (simp add: map_le_def)
  then show ?thesis by (auto simp: map_le_def restrict_map_def dom_def)
qed

lemma write_out_copied:
  assumes "deep_copy_ok dc" and "obj_heap_ok h" and "\<not> hr_disableDeepCopy c"
    and "read_obj h p = Some ob" and "read_obj h out = Some v"
  shows "\<exists>h'. vars h |` (- {out}) \<subseteq>\<^sub>m vars h' \<and>
    (if otype ob \<noteq> otype v
     then write_out dc c p out h = (Err (Errorf ''cache had type %s, but %s was asked for''
            [go_type_name (otype ob), go_type_name (otype v)]), h') \<and> vars h \<subseteq>\<^sub>m vars h'
     else write_out dc c p out h = (Ok (), h') \<and> read_obj h' out = Some (ob\<lparr>ogvk := hr_gvk c\<rparr>) \<and>
            obj_vars h' out \<inter> dom (vars h) = {out})"
proof -
  obtain q h1 where dc: "dc p h = (q, h1)" by fastforce
  note copy = deep_copyD [OF assms(1,2,4) dc]
  obtain s where s: "load_struct h1 q = Some s" "read_struct h1 s = Some ob" using copy(3) by (auto simp: read_obj_struct)
  have out: "read_obj h1 out = Some v" using read_obj_mono [OF assms(5) copy(2)] by simp
  then obtain t where t: "load_struct h1 out = Some t" "read_struct h1 t = Some v" by (auto simp: read_obj_struct)
  note type = read_struct_type [OF s(2)] read_struct_type [OF t(2)]
  show ?thesis
  proof (cases "otype ob = otype v")
    case False
    then have "write_out dc c p out h = (Err (Errorf ''cache had type %s, but %s was asked for''
        [go_type_name (otype ob), go_type_name (otype v)]), h1)"
      using assms(3) dc s(1) t(1) type by (simp add: write_out_def)
    moreover have "vars h |` (- {out}) \<subseteq>\<^sub>m vars h1"
      using copy(2) by (auto simp: map_le_def)
    ultimately show ?thesis using False copy(2) by auto
  next
    case True
    let ?h = "set_var out (StructVar s) h1" and ?g = "hr_gvk c"
    note assign = assign_spec [OF s t(1)]
    note gvk = set_gvk_spec [OF assign(1), of ?g]
    have "write_out dc c p out h = (Ok (), set_gvk out ?g ?h)"
      using True assms(3) dc s(1) t(1) type by (simp add: write_out_def)
    moreover have vars: "obj_vars (set_gvk out ?g ?h) out = insert out (body_vars h1 (os_body s))"
      using gvk assign(2) by simp
    moreover have fresh: "body_vars h1 (os_body s) \<inter> dom (vars h) = {}"
      using copy(4) obj_vars_struct [OF s(1)] by auto
    moreover have "out \<in> dom (vars h)" using obj_vars_dom [OF assms(5)] by (auto simp: obj_vars_def)
    moreover have "vars h |` (- {out}) \<subseteq>\<^sub>m vars (set_gvk out ?g ?h)"
      by (rule set_gvk_frame [OF copy(2)]) (use gvk assign(2) fresh in auto)
    ultimately show ?thesis using True gvk by auto
  qed
qed

section \<open>Get\<close>

text \<open>The pointers a store can hand out, each of which points to an object.\<close>

definition stored_pointer :: "heap_indexer \<Rightarrow> nat \<Rightarrow> bool" where
  "stored_pointer x p \<longleftrightarrow>
     (\<exists>k. hi_GetByKey x k = Ok (Some (Ptr p))) \<or>
     (\<exists>n v objs. hi_ByIndex x n v = Ok objs \<and> Ptr p \<in> set objs) \<or> Ptr p \<in> set (hi_ListAll x)"

definition store_readable :: "obj_heap \<Rightarrow> heap_indexer \<Rightarrow> bool" where
  "store_readable h x \<longleftrightarrow> (\<forall>p. stored_pointer x p \<longrightarrow> read_obj h p \<noteq> None)"

lemma reader_at_sel [simp]:
  "cr_indexer (reader_at h c) = indexer_at h (hr_indexer c)" "cr_gvk (reader_at h c) = hr_gvk c"
  "cr_scopeName (reader_at h c) = hr_scopeName c" "cr_disableDeepCopy (reader_at h c) = hr_disableDeepCopy c"
  "cr_clusterName (reader_at h c) = hr_clusterName c"
  by (simp_all add: reader_at_def)

lemma indexer_at_sel [simp]:
  "GetIndexers (indexer_at h x) = hi_GetIndexers x"
  "GetByKey (indexer_at h x) k = map_outcome (map_option (read_stored h)) (hi_GetByKey x k)"
  "ByIndex (indexer_at h x) n v = map_outcome (map (read_stored h)) (hi_ByIndex x n v)"
  "ListAll (indexer_at h x) = map (read_stored h) (hi_ListAll x)"
  by (simp_all add: indexer_at_def)

text \<open>The key \<open>Get\<close> has for the object after the scope is looked at, and its key in the store.\<close>

abbreviation (input) get_key :: "heap_reader \<Rightarrow> object_key \<Rightarrow> object_key" where
  "get_key c key \<equiv> if hr_scopeName c = RootScope then key\<lparr>knamespace := ''''\<rparr> else key"

abbreviation (input) aware :: "kcp_lib \<Rightarrow> heap_reader \<Rightarrow> bool" where
  "aware L c \<equiv> hi_GetIndexers (hr_indexer c) (ClusterAndNamespaceIndexName L) \<noteq> None"

abbreviation (input) store_key_of :: "kcp_lib \<Rightarrow> heap_reader \<Rightarrow> object_key \<Rightarrow> string" where
  "store_key_of L c key \<equiv>
     if aware L c then hr_clusterName c @ ''|'' @ objectKeyToStoreKey (get_key c key)
     else objectKeyToStoreKey (get_key c key)"

lemma cacheReader_Get_at:
  assumes "\<not> (aware L c \<and> hr_clusterName c = '''')"
  shows "cacheReader_Get L (reader_at h c) key v =
    (case map_outcome (map_option (read_stored h)) (hi_GetByKey (hr_indexer c) (store_key_of L c key)) of
       Err err \<Rightarrow> Err err
     | Panic p \<Rightarrow> Panic p
     | Ok None \<Rightarrow> Err (NotFound (Group (hr_gvk c)) (Kind (hr_gvk c)) (kname (get_key c key)))
     | Ok (Some obj) \<Rightarrow>
         (case as_runtime_Object obj of
            None \<Rightarrow> Err (Errorf ''cache contained %T, which is not an Object'' [any_type_name obj])
          | Some ob \<Rightarrow>
              if otype ob \<noteq> otype v
              then Err (Errorf ''cache had type %s, but %s was asked for'' [go_type_name (otype ob), go_type_name (otype v)])
              else Ok (if hr_disableDeepCopy c then ob else ob\<lparr>ogvk := hr_gvk c\<rparr>)))"
  unfolding cacheReader_Get_def Let_def reader_at_sel indexer_at_sel if_not_P [OF assms] ..

lemma heap_Get_at:
  assumes "\<not> (aware L c \<and> hr_clusterName c = '''')"
  shows "heap_Get L dc c key out h =
    (case hi_GetByKey (hr_indexer c) (store_key_of L c key) of
       Err err \<Rightarrow> (Err err, h)
     | Panic p \<Rightarrow> (Panic p, h)
     | Ok None \<Rightarrow> (Err (NotFound (Group (hr_gvk c)) (Kind (hr_gvk c)) (kname (get_key c key))), h)
     | Ok (Some (NonObject t)) \<Rightarrow> (Err (Errorf ''cache contained %T, which is not an Object'' [t]), h)
     | Ok (Some (Ptr obj)) \<Rightarrow> write_out dc c obj out h)"
  unfolding heap_Get_def Let_def if_not_P [OF assms] ..

text \<open>
  Either \<open>Get\<close> ends at the lookup, with the same answer on values and on the heap, or the
  lookup finds a pointer and what remains is to hand its object out.
\<close>

lemma heap_Get_cases:
  assumes "store_readable h (hr_indexer c)"
  obtains (Ends) r where "heap_Get L dc c key out h = (map_outcome (\<lambda>_. ()) r, h)"
      "cacheReader_Get L (reader_at h c) key v = r" "\<not> is_Ok r"
  | (Found) p ob where "stored_pointer (hr_indexer c) p" "read_obj h p = Some ob"
      "heap_Get L dc c key out h = write_out dc c p out h"
      "cacheReader_Get L (reader_at h c) key v =
         (if otype ob \<noteq> otype v
          then Err (Errorf ''cache had type %s, but %s was asked for'' [go_type_name (otype ob), go_type_name (otype v)])
          else Ok (if hr_disableDeepCopy c then ob else ob\<lparr>ogvk := hr_gvk c\<rparr>))"
proof (cases "aware L c \<and> hr_clusterName c = ''''")
  case True
  then show thesis
    by (intro Ends [of "cacheReader_Get L (reader_at h c) key v"]) (simp_all add: heap_Get_def cacheReader_Get_def)
next
  case named: False
  obtain found where found: "hi_GetByKey (hr_indexer c) (store_key_of L c key) = found" by blast
  note at = cacheReader_Get_at [OF named, of h key v, unfolded found] heap_Get_at [OF named, of dc key out h, unfolded found]
  show thesis
  proof (cases "\<exists>p. found = Ok (Some (Ptr p))")
    case True
    then obtain p where p: "found = Ok (Some (Ptr p))" by blast
    have stored: "stored_pointer (hr_indexer c) p" using found p unfolding stored_pointer_def by blast
    then obtain ob where ob: "read_obj h p = Some ob" using assms unfolding store_readable_def by blast
    show thesis by (rule Found [OF stored ob]) (simp_all add: at p ob)
  next
    case False
    have "heap_Get L dc c key out h = (map_outcome (\<lambda>_. ()) (cacheReader_Get L (reader_at h c) key v), h) \<and>
        \<not> is_Ok (cacheReader_Get L (reader_at h c) key v)"
      using False unfolding at by (auto split: outcome.split option.split stored.split)
    then show thesis by (intro Ends) auto
  qed
qed

text \<open>Old objects other than the target are as they were, and share nothing with it.\<close>

lemma heap_Get_copied:
  assumes "deep_copy_ok dc" and "obj_heap_ok h" and "store_readable h (hr_indexer c)" and "read_obj h out = Some v"
    and "\<not> hr_disableDeepCopy c" and "heap_Get L dc c key out h = (Ok (), h')"
  shows "vars h |` (- {out}) \<subseteq>\<^sub>m vars h' \<and> obj_vars h' out \<inter> dom (vars h) = {out}"
using assms(3)
proof (cases rule: heap_Get_cases [where L = L and dc = dc and key = key and out = out and v = v])
  case (Ends r)
  then show ?thesis using assms(6) by (cases r) simp_all
next
  case (Found p ob)
  obtain g where g: "vars h |` (- {out}) \<subseteq>\<^sub>m vars g"
    "if otype ob \<noteq> otype v
     then write_out dc c p out h = (Err (Errorf ''cache had type %s, but %s was asked for''
            [go_type_name (otype ob), go_type_name (otype v)]), g) \<and> vars h \<subseteq>\<^sub>m vars g
     else write_out dc c p out h = (Ok (), g) \<and> read_obj g out = Some (ob\<lparr>ogvk := hr_gvk c\<rparr>) \<and>
            obj_vars g out \<inter> dom (vars h) = {out}"
    using write_out_copied [OF assms(1,2,5) Found(2) assms(4)] by blast
  then show ?thesis using assms(6) Found(3) by (auto split: if_splits)
qed

text \<open>
  C12. The reader on the heap refines the reader on values: whether deep copies are disabled or
  not, \<open>Get\<close> through pointers ends like \<open>Get\<close> on the values they point to, with the same
  error or panic; on success \<open>out\<close> points to the object the latter returns; and of the
  variables there were, the call writes none but the one \<open>out\<close> points to.
\<close>

theorem heap_Get_refines:
  assumes "deep_copy_ok dc" and "obj_heap_ok h" and "store_readable h (hr_indexer c)" and "read_obj h out = Some v"
  shows "fst (heap_Get L dc c key out h) =
      map_outcome (\<lambda>_. ()) (cacheReader_Get L (reader_at h c) key v) \<and>
    (case cacheReader_Get L (reader_at h c) key v of
       Ok ob \<Rightarrow> read_obj (snd (heap_Get L dc c key out h)) out = Some ob
     | _ \<Rightarrow> True) \<and>
    vars h |` (- {out}) \<subseteq>\<^sub>m vars (snd (heap_Get L dc c key out h))"
using assms(3)
proof (cases rule: heap_Get_cases [where L = L and dc = dc and key = key and out = out and v = v])
  case (Ends r)
  then show ?thesis by (auto simp: map_le_def split: outcome.split)
next
  case (Found p ob)
  show ?thesis
  proof (cases "hr_disableDeepCopy c")
    case True
    then show ?thesis using write_out_shared [OF True Found(2) assms(4), of dc] Found
      by (auto simp: map_le_def split: if_splits)
  next
    case False
    then show ?thesis using write_out_copied [OF assms(1,2) False Found(2) assms(4)] Found
      by (auto split: if_splits)
  qed
qed

text \<open>Nothing the caller does with its object, or with memory it allocates, changes another object.\<close>

lemma heap_Get_separate:
  assumes "deep_copy_ok dc" and "obj_heap_ok h" and "store_readable h (hr_indexer c)" and "read_obj h out = Some v"
    and "\<not> hr_disableDeepCopy c" and "heap_Get L dc c key out h = (Ok (), h')"
    and "read_obj h p = Some ob" and "p \<noteq> out"
    and "\<And>a. a \<in> dom (vars h') \<Longrightarrow> a \<notin> obj_vars h' out \<Longrightarrow> vars h'' a = vars h' a"
  shows "obj_vars h' p \<inter> obj_vars h' out = {}" and "read_obj h'' p = Some ob"
proof -
  have "vars h |` (- {out}) \<subseteq>\<^sub>m vars h'" "obj_vars h' out \<inter> dom (vars h) = {out}"
    using heap_Get_copied [OF assms(1-6)] by blast+
  note p = separate_objects [OF assms(7,8,4) this]
  then show "obj_vars h' p \<inter> obj_vars h' out = {}" by blast
  have "vars h'' a = vars h' a" if "a \<in> obj_vars h' p" for a
    using that p(2) obj_vars_dom [OF p(1)] by (intro assms(9)) auto
  then show "read_obj h'' p = Some ob" using p read_obj_frame(1) [of h' p h''] by simp
qed

lemma indexer_at_cong:
  assumes "\<And>p. stored_pointer x p \<Longrightarrow> read_obj h' p = read_obj h p"
  shows "indexer_at h' x = indexer_at h x"
proof -
  have same: "read_stored h' a = read_stored h a" if "\<And>p. a = Ptr p \<Longrightarrow> stored_pointer x p" for a
    using that assms by (cases a) simp_all
  have "map_outcome (map_option (read_stored h')) (hi_GetByKey x k) =
      map_outcome (map_option (read_stored h)) (hi_GetByKey x k)" for k
    by (rule outcome.map_cong0, rule option.map_cong0, rule same) (auto simp: stored_pointer_def elim!: outcome.set_cases)
  moreover have "map_outcome (map (read_stored h')) (hi_ByIndex x n v) =
      map_outcome (map (read_stored h)) (hi_ByIndex x n v)" for n v
    by (rule outcome.map_cong0, rule list.map_cong0, rule same) (auto simp: stored_pointer_def elim!: outcome.set_cases)
  moreover have "map (read_stored h') (hi_ListAll x) = map (read_stored h) (hi_ListAll x)"
    by (rule list.map_cong0, rule same) (simp add: stored_pointer_def)
  ultimately show ?thesis by (simp add: indexer_at_def)
qed

text \<open>
  C11. What \<open>Get\<close> hands out is the caller's own: unless deep copies are disabled, it shares no
  variable with any object of the store, and whatever the caller does with it, and with memory
  it allocates, every reader of that store, for whichever cluster, is afterwards what it was
  before the call.
\<close>

theorem heap_Get_isolates:
  assumes "deep_copy_ok dc" and "obj_heap_ok h" and "store_readable h (hr_indexer c)" and "read_obj h out = Some v"
    and "\<not> hr_disableDeepCopy c" and "heap_Get L dc c key out h = (Ok (), h')"
    and "\<not> stored_pointer (hr_indexer c) out"
    and "\<And>a. a \<in> dom (vars h') \<Longrightarrow> a \<notin> obj_vars h' out \<Longrightarrow> vars h'' a = vars h' a"
    and "hr_indexer c' = hr_indexer c"
  shows "(\<Union>p \<in> Collect (stored_pointer (hr_indexer c)). obj_vars h' p) \<inter> obj_vars h' out = {} \<and>
    reader_at h'' c' = reader_at h c'"
proof -
  have sep: "obj_vars h' p \<inter> obj_vars h' out = {} \<and> read_obj h'' p = read_obj h p"
    if p: "stored_pointer (hr_indexer c) p" for p
  proof -
    obtain ob where ob: "read_obj h p = Some ob" using p assms(3) by (auto simp: store_readable_def)
    have "p \<noteq> out" using p assms(7) by blast
    then show ?thesis using heap_Get_separate [OF assms(1-6) ob _ assms(8)] ob by simp
  qed
  have "indexer_at h'' (hr_indexer c) = indexer_at h (hr_indexer c)"
    by (rule indexer_at_cong) (simp add: sep)
  then show ?thesis using sep assms(9) by (auto simp: reader_at_def)
qed

text \<open>
  C14. The warning of \<open>disableDeepCopy\<close>: with it, the object handed out refers to the very maps of
  the object in the store, and a label the caller sets on its own object is set on the
  cached one.
\<close>

theorem heap_Get_shares:
  assumes "store_readable h (hr_indexer c)" and "read_obj h out = Some v"
    and "hr_disableDeepCopy c" and "heap_Get L dc c key out h = (Ok (), h')" and "labels_var h' out = Some a"
  shows "\<exists>p. stored_pointer (hr_indexer c) p \<and> read_obj h' p = read_obj h' out \<and>
    (\<exists>ob m. read_obj (set_label out l x h') p = Some ob \<and> ometa ob = Some m \<and> mlabels m l = Some x)"
using assms(1)
proof (cases rule: heap_Get_cases [where L = L and dc = dc and key = key and out = out and v = v])
  case (Ends r)
  then show ?thesis using assms(4) by (cases r) simp_all
next
  case (Found p ob)
  have w: "write_out dc c p out h = (Ok (), h')" using Found(3) assms(4) by simp
  have "if otype ob \<noteq> otype v
    then write_out dc c p out h = (Err (Errorf ''cache had type %s, but %s was asked for''
           [go_type_name (otype ob), go_type_name (otype v)]), h)
    else \<exists>h' s. write_out dc c p out h = (Ok (), h') \<and> read_obj h' out = Some ob \<and>
           load_struct h p = Some s \<and> h' = set_var out (StructVar s) h"
    by (rule write_out_shared [OF assms(3) Found(2) assms(2)])
  then obtain s where s: "read_obj h' out = Some ob" "load_struct h p = Some s" "h' = set_var out (StructVar s) h"
    using w by (auto split: if_splits)
  have "load_struct h' p = load_struct h' out" using s(2,3) by (auto simp: load_struct_def)
  then have same: "read_obj h' p = read_obj h' out" "labels_var h' p = labels_var h' out"
    by (simp_all add: read_obj_def labels_var_def)
  then show ?thesis using Found(1) set_label_read [of h' p ob a out l x] s(1) assms(5) by auto
qed

section \<open>List\<close>

text \<open>Objects on the heap with given values, apart from each other and from a set of variables.\<close>

definition own_objects :: "nat set \<Rightarrow> obj_heap \<Rightarrow> nat list \<Rightarrow> object list \<Rightarrow> bool" where
  "own_objects D h ps obs \<longleftrightarrow>
     map (read_obj h) ps = map Some obs \<and> (\<forall>p \<in> set ps. obj_vars h p \<inter> D = {}) \<and>
     sorted_wrt (\<lambda>p q. obj_vars h p \<inter> obj_vars h q = {}) ps"

lemma own_objects_readable: "own_objects D h ps obs \<Longrightarrow> p \<in> set ps \<Longrightarrow> \<exists>ob. read_obj h p = Some ob"
  unfolding own_objects_def by (metis (no_types, lifting) ex_map_conv image_eqI image_set)

lemma own_objects_mono:
  assumes "own_objects D h ps obs" and "vars h \<subseteq>\<^sub>m vars h'"
  shows "own_objects D h' ps obs"
proof -
  have same: "read_obj h' p = read_obj h p" "obj_vars h' p = obj_vars h p" if "p \<in> set ps" for p
    using read_obj_mono [OF _ assms(2), of p] own_objects_readable [OF assms(1) that] by auto
  have "map (read_obj h') ps = map (read_obj h) ps" by (rule map_cong) (simp_all add: same(1))
  then have "map (read_obj h') ps = map Some obs" using assms(1) unfolding own_objects_def by argo
  moreover have "sorted_wrt (\<lambda>p q. obj_vars h' p \<inter> obj_vars h' q = {}) ps"
    using assms(1) same(2) sorted_wrt_mono_rel [of ps "\<lambda>p q. obj_vars h p \<inter> obj_vars h q = {}"]
    unfolding own_objects_def by auto
  ultimately show ?thesis using assms(1) same(2) by (simp add: own_objects_def)
qed

lemma own_objects_snoc:
  assumes "own_objects D h ps obs" and "D \<subseteq> dom (vars h)"
    and "vars h \<subseteq>\<^sub>m vars h'" and "read_obj h' q = Some ob" and "obj_vars h' q \<inter> dom (vars h) = {}"
  shows "own_objects D h' (ps @ [q]) (obs @ [ob])"
proof -
  have own: "own_objects D h' ps obs" by (rule own_objects_mono [OF assms(1,3)])
  have "obj_vars h' p \<subseteq> dom (vars h)" if "p \<in> set ps" for p
    using own_objects_readable [OF assms(1) that] read_obj_mono(2) [OF _ assms(3)] obj_vars_dom by metis
  then have "obj_vars h' p \<inter> obj_vars h' q = {}" if "p \<in> set ps" for p
    using that assms(5) by blast
  then show ?thesis using own assms(2,4,5) unfolding own_objects_def by (auto simp: sorted_wrt_append)
qed

definition all_readable :: "obj_heap \<Rightarrow> stored list \<Rightarrow> bool" where
  "all_readable h objs \<longleftrightarrow> (\<forall>p. Ptr p \<in> set objs \<longrightarrow> read_obj h p \<noteq> None)"

lemma all_readable_mono:
  assumes "all_readable h objs" and "vars h \<subseteq>\<^sub>m vars h'"
  shows "all_readable h' objs" and "map (read_stored h') objs = map (read_stored h) objs"
proof -
  have same: "read_obj h' p = read_obj h p" if "Ptr p \<in> set objs" for p
    using assms that read_obj_mono(1) [OF _ assms(2), of p] by (auto simp: all_readable_def)
  then show "all_readable h' objs" using assms(1) by (simp add: all_readable_def)
  have "read_stored h' x = read_stored h x" if "x \<in> set objs" for x
  proof (cases x)
    case (Ptr p)
    then show ?thesis using same [of p] that by simp
  qed simp
  then show "map (read_stored h') objs = map (read_stored h) objs" by simp
qed

text \<open>The loop with copies does on the heap what the loop on values does, and keeps what there was.\<close>

definition loop_agrees ::
  "nat set \<Rightarrow> obj_heap \<Rightarrow> object list outcome \<Rightarrow> nat list outcome \<times> obj_heap \<Rightarrow> bool" where
  "loop_agrees D h r res \<longleftrightarrow>
     vars h \<subseteq>\<^sub>m vars (snd res) \<and>
     (case r of
        Ok obs \<Rightarrow> \<exists>ps. fst res = Ok ps \<and> own_objects D (snd res) ps obs
      | Err e \<Rightarrow> fst res = Err e
      | Panic e \<Rightarrow> fst res = Panic e)"

lemma loop_agrees_trans: "vars h \<subseteq>\<^sub>m vars h1 \<Longrightarrow> loop_agrees D h1 r res \<Longrightarrow> loop_agrees D h r res"
  unfolding loop_agrees_def by (blast intro: map_le_trans)

lemma heap_list_loop_copied:
  assumes "deep_copy_ok dc" and "\<not> skipDeepCopy (reader_at h0 c) lo"
  shows "obj_heap_ok h \<Longrightarrow> all_readable h objs \<Longrightarrow> own_objects D h rs obs \<Longrightarrow> D \<subseteq> dom (vars h) \<Longrightarrow>
    loop_agrees D h (list_loop (reader_at h0 c) lo (map (read_stored h) objs) obs) (heap_list_loop dc c lo objs rs h)"
proof (induction objs arbitrary: rs obs h)
  case Nil
  then show ?case by (simp add: loop_agrees_def)
next
  case (Cons item objs)
  have len: "length rs = length obs" using Cons.prems(3) by (metis own_objects_def map_eq_imp_length_eq)
  have skip: "\<not> (hr_disableDeepCopy c \<or> lo_UnsafeDisableDeepCopy lo = Some True)"
    using assms(2) by (simp add: skipDeepCopy_def)
  have rest: "all_readable h objs" using Cons.prems(2) by (simp add: all_readable_def)
  note IH = Cons.IH [OF Cons.prems(1) rest Cons.prems(3,4)]
  show ?case
  proof (cases item)
    case (NonObject t)
    then show ?thesis using Cons.prems(3) len by (auto simp: loop_agrees_def)
  next
    case (Ptr p)
    obtain ob where ob: "read_obj h p = Some ob" using Cons.prems(2) Ptr by (auto simp: all_readable_def)
    obtain q h1 where dc: "dc p h = (q, h1)" by fastforce
    let ?h = "set_gvk q (hr_gvk c) h1"
    note copy = copy_gvk_spec [OF assms(1) Cons.prems(1) ob dc, of "hr_gvk c"]
    note mono = all_readable_mono [OF rest copy(2)]
    have D: "D \<subseteq> dom (vars ?h)" using Cons.prems(4) map_le_implies_dom_le [OF copy(2)] by blast
    note step = loop_agrees_trans [OF copy(2) Cons.IH [OF copy(1) mono(1)
          own_objects_snoc [OF Cons.prems(3,4) copy(2-4)] D, unfolded mono(2)]]
    show ?thesis using Ptr ob dc IH step Cons.prems(3) len skip assms(2)
      by (auto simp: loop_agrees_def list_output_def split: outcome.split)
  qed
qed

text \<open>The candidates on the heap point to the candidates of the reader on values.\<close>

lemma heap_filter_indexed_at:
  "map_outcome (map (read_stored h)) (heap_filter_indexed h fn v objs) = filter_indexed fn v (map (read_stored h) objs)"
  by (induction objs) (auto split: outcome.split)

lemma heap_byIndexes_at:
  "map_outcome (map (read_stored h)) (heap_byIndexes_loop L h x cl ns idx reqs objs) =
     byIndexes_loop L (indexer_at h x) cl ns idx reqs (map (read_stored h) objs)"
proof (induction reqs arbitrary: idx objs)
  case (Cons req reqs)
  show ?case
  proof (cases "idx = 0")
    case True
    then show ?thesis
      by (cases "hi_ByIndex x (fieldIndexName (req_Field req)) (indexed_value L (indexer_at h x) cl ns req)")
        (auto simp: indexed_value_def Let_def Cons.IH)
  next
    case False
    show ?thesis
    proof (cases "hi_GetIndexers x (fieldIndexName (req_Field req))")
      case (Some fn)
      let ?v = "indexed_value L (indexer_at h x) cl ns req"
      show ?thesis using False Some heap_filter_indexed_at [of h fn ?v objs, symmetric]
        by (cases "heap_filter_indexed h fn ?v objs") (auto simp: indexed_value_def Let_def Cons.IH)
    qed (use False in \<open>simp add: Let_def\<close>)
  qed
qed simp

lemma heap_candidates_at:
  "map_outcome (map (read_stored h)) (heap_candidates L c lo h) = cacheReader_candidates L (reader_at h c) lo"
  by (auto simp: heap_candidates_def cacheReader_candidates_def Let_def byIndexes_def heap_byIndexes_at split: option.split)

lemma heap_filter_indexed_subset:
  "heap_filter_indexed h fn v objs = Ok objs' \<Longrightarrow> set objs' \<subseteq> set objs"
  by (induction objs arbitrary: objs') (fastforce split: outcome.splits if_splits)+

lemma heap_byIndexes_step:
  "heap_byIndexes_loop L h x cl ns idx (req # reqs) objs = Ok objs' \<Longrightarrow>
     \<exists>os. (if idx = 0 then hi_ByIndex x (fieldIndexName (req_Field req)) (indexed_value L (indexer_at h x) cl ns req) = Ok os
           else \<exists>fn. heap_filter_indexed h fn (indexed_value L (indexer_at h x) cl ns req) objs = Ok os) \<and>
       (os = [] \<and> objs' = [] \<or> heap_byIndexes_loop L h x cl ns (Suc idx) reqs os = Ok objs')"
  unfolding heap_byIndexes_loop.simps Let_def indexed_value_def indexer_at_sel
  by (split if_split_asm; split outcome.split_asm option.split_asm; (split outcome.split_asm)?) (auto split: if_split_asm)

lemma heap_byIndexes_stored:
  "heap_byIndexes_loop L h x cl ns idx reqs objs = Ok objs' \<Longrightarrow> (\<And>q. Ptr q \<in> set objs \<Longrightarrow> stored_pointer x q) \<Longrightarrow>
   Ptr p \<in> set objs' \<Longrightarrow> stored_pointer x p"
proof (induction reqs arbitrary: idx objs)
  case (Cons req reqs)
  let ?v = "indexed_value L (indexer_at h x) cl ns req"
  obtain os where os: "if idx = 0 then hi_ByIndex x (fieldIndexName (req_Field req)) ?v = Ok os
      else \<exists>fn. heap_filter_indexed h fn ?v objs = Ok os"
    and rest: "os = [] \<and> objs' = [] \<or> heap_byIndexes_loop L h x cl ns (Suc idx) reqs os = Ok objs'"
    using heap_byIndexes_step [OF Cons.prems(1)] by blast
  have "stored_pointer x q" if q: "Ptr q \<in> set os" for q
  proof (cases "idx = 0")
    case True
    then have "hi_ByIndex x (fieldIndexName (req_Field req)) ?v = Ok os" using os by presburger
    then show ?thesis using q unfolding stored_pointer_def by blast
  next
    case False
    then obtain fn where "heap_filter_indexed h fn ?v objs = Ok os" using os by presburger
    then show ?thesis using q heap_filter_indexed_subset Cons.prems(2) by blast
  qed
  then show ?case using rest Cons.IH Cons.prems(3) by (metis empty_iff list.set(1))
qed simp

lemma heap_candidates_stored:
  assumes "heap_candidates L c lo h = Ok objs" and "Ptr p \<in> set objs"
  shows "stored_pointer (hr_indexer c) p"
proof (cases "lo_FieldSelector lo")
  case (Some reqs)
  then have "heap_byIndexes_loop L h (hr_indexer c) (hr_clusterName c) (lo_Namespace lo) 0 reqs [] = Ok objs"
    using assms(1) by (auto simp: heap_candidates_def Let_def split: if_splits)
  then show ?thesis using heap_byIndexes_stored assms(2) by fastforce
next
  case None
  then show ?thesis using assms unfolding stored_pointer_def
    by (auto simp: heap_candidates_def Let_def split: if_splits)
qed

text \<open>The structs behind pointers to objects, in a list variable.\<close>

lemma those_structs:
  assumes "own_objects D h ps obs"
  shows "\<exists>ss. map (load_struct h) ps = map Some ss \<and> map (read_struct h) ss = map Some obs \<and>
    (\<forall>s \<in> set ss. body_vars h (os_body s) \<inter> D = {}) \<and>
    sorted_wrt (\<lambda>s t. body_vars h (os_body s) \<inter> body_vars h (os_body t) = {}) ss"
  using assms
proof (induction ps arbitrary: obs)
  case (Cons p ps)
  then obtain ob obs' where obs: "obs = ob # obs'" and p: "read_obj h p = Some ob" "obj_vars h p \<inter> D = {}"
    and apart: "\<forall>q \<in> set ps. obj_vars h p \<inter> obj_vars h q = {}" and rest: "own_objects D h ps obs'"
    by (auto simp: own_objects_def)
  obtain s where s: "load_struct h p = Some s" "read_struct h s = Some ob" using p(1) by (auto simp: read_obj_struct)
  obtain ss where ss: "map (load_struct h) ps = map Some ss" "map (read_struct h) ss = map Some obs'"
    "\<forall>s \<in> set ss. body_vars h (os_body s) \<inter> D = {}"
    "sorted_wrt (\<lambda>s t. body_vars h (os_body s) \<inter> body_vars h (os_body t) = {}) ss"
    using Cons.IH [OF rest] by blast
  have "body_vars h (os_body s) \<inter> body_vars h (os_body t) = {}" if "t \<in> set ss" for t
  proof -
    have "Some t \<in> set (map (load_struct h) ps)" unfolding ss(1) using that by simp
    then obtain q where "q \<in> set ps" "load_struct h q = Some t" by auto
    then show ?thesis using apart obj_vars_struct [OF s(1)] obj_vars_struct [of h _ t] by blast
  qed
  then show ?case
    using s ss p(2) obs by (intro exI [of _ "s # ss"]) (auto simp: obj_vars_struct)
qed (simp add: own_objects_def)

text \<open>The end of \<open>List\<close>: the result of the loop goes into the caller's list.\<close>

definition list_result :: "set_list \<Rightarrow> nat \<Rightarrow> nat list outcome \<times> obj_heap \<Rightarrow> unit outcome \<times> obj_heap" where
  "list_result SetList out res =
     (case res of
        (Err err, h) \<Rightarrow> (Err err, h)
      | (Panic p, h) \<Rightarrow> (Panic p, h)
      | (Ok runtimeObjs, h) \<Rightarrow> SetList out runtimeObjs h)"

lemma map_restrict_le: "m |` A \<subseteq>\<^sub>m m"
  by (auto simp: map_le_def)

lemma list_result_agrees:
  assumes sl: "set_list_ok sl" and out: "vars h out = Some (ListVar old)"
    and agrees: "loop_agrees (dom (vars h)) h r res"
  shows "vars h |` (- {out}) \<subseteq>\<^sub>m vars (snd (list_result sl out res)) \<and>
    (case r of
       Ok obs \<Rightarrow> \<exists>h' ss. list_result sl out res = (Ok (), h') \<and> vars h' out = Some (ListVar ss) \<and>
         map (read_struct h') ss = map Some obs \<and>
         (\<Union>s \<in> set ss. body_vars h' (os_body s)) \<inter> dom (vars h) = {} \<and>
         sorted_wrt (\<lambda>s t. body_vars h' (os_body s) \<inter> body_vars h' (os_body t) = {}) ss
     | Err e \<Rightarrow> \<exists>h'. list_result sl out res = (Err e, h') \<and> vars h' out = Some (ListVar old)
     | Panic e \<Rightarrow> fst (list_result sl out res) = Panic e)"
proof -
  obtain f h1 where res: "res = (f, h1)" by fastforce
  have grow: "vars h \<subseteq>\<^sub>m vars h1" using agrees by (simp add: loop_agrees_def res)
  then have out1: "vars h1 out = Some (ListVar old)" using out unfolding map_le_def by (metis domI)
  show ?thesis
  proof (cases r)
    case (Ok obs)
    then obtain ps where ps: "f = Ok ps" "own_objects (dom (vars h)) h1 ps obs"
      using agrees by (auto simp: loop_agrees_def res)
    obtain ss where ss: "map (load_struct h1) ps = map Some ss" "map (read_struct h1) ss = map Some obs"
      "\<forall>s \<in> set ss. body_vars h1 (os_body s) \<inter> dom (vars h) = {}"
      "sorted_wrt (\<lambda>s t. body_vars h1 (os_body s) \<inter> body_vars h1 (os_body t) = {}) ss"
      using those_structs [OF ps(2)] by blast
    let ?h = "set_var out (ListVar ss) h1"
    have result: "list_result sl out res = (Ok (), ?h)"
      using sl out1 ss(1) ps(1) by (simp add: list_result_def res set_list_ok_def)
    have frame: "read_struct ?h s = read_struct h1 s \<and> body_vars ?h (os_body s) = body_vars h1 (os_body s)"
      if "s \<in> set ss" for s
    proof -
      have "out \<notin> body_vars h1 (os_body s)" using ss(3) out that by blast
      then have "vars ?h a = vars h1 a" if "a \<in> body_vars h1 (os_body s)" for a
        using that by (cases "a = out") simp_all
      then show ?thesis using read_struct_frame [of h1 s ?h] by blast
    qed
    have "map (read_struct ?h) ss = map Some obs" using ss(2) frame by (metis (no_types, lifting) map_eq_conv)
    moreover have "sorted_wrt (\<lambda>s t. body_vars ?h (os_body s) \<inter> body_vars ?h (os_body t) = {}) ss"
      using ss(4) by (rule sorted_wrt_mono_rel [rotated]) (simp add: frame)
    moreover have "(\<Union>s \<in> set ss. body_vars ?h (os_body s)) \<inter> dom (vars h) = {}" using ss(3) frame by blast
    moreover have "vars h |` (- {out}) \<subseteq>\<^sub>m vars ?h"
      using grow by (auto simp: map_le_def restrict_map_def split: if_splits)
    ultimately show ?thesis using result Ok by auto
  next
    case (Err e)
    then have "f = Err e" using agrees by (simp add: loop_agrees_def res)
    then show ?thesis using Err out1 grow
      by (auto simp: list_result_def res map_le_def restrict_map_def split: if_splits)
  next
    case (Panic e)
    then have "f = Panic e" using agrees by (simp add: loop_agrees_def res)
    then show ?thesis using Panic grow
      by (auto simp: list_result_def res map_le_def restrict_map_def split: if_splits)
  qed
qed

text \<open>
  C13. \<open>List\<close> on the heap refines \<open>List\<close> on values, and what it hands out is the caller's own: with
  deep copies on it ends with the same error or panic and leaves the caller's list alone, or the
  list has exactly the values of the result, made of variables that belong to no object there was
  and not to each other; and of the variables there were it writes none but the list.
\<close>

theorem heap_List_refines:
  assumes "deep_copy_ok dc" and "set_list_ok sl" and "obj_heap_ok h" and "lib_ok L"
    and "store_readable h (hr_indexer c)" and "\<not> skipDeepCopy (reader_at h c) lo"
    and "vars h out = Some (ListVar old)"
  shows "vars h |` (- {out}) \<subseteq>\<^sub>m vars (snd (heap_List L dc sl c out lo h)) \<and>
    (case cacheReader_List L (reader_at h c) lst lo of
       Ok res \<Rightarrow> \<exists>h' ss. heap_List L dc sl c out lo h = (Ok (), h') \<and> vars h' out = Some (ListVar ss) \<and>
         map (read_struct h') ss = map Some (litems res) \<and>
         (\<Union>s \<in> set ss. body_vars h' (os_body s)) \<inter> dom (vars h) = {} \<and>
         sorted_wrt (\<lambda>s t. body_vars h' (os_body s) \<inter> body_vars h' (os_body t) = {}) ss
     | Err e \<Rightarrow> \<exists>h'. heap_List L dc sl c out lo h = (Err e, h') \<and> vars h' out = Some (ListVar old)
     | Panic e \<Rightarrow> fst (heap_List L dc sl c out lo h) = Panic e)"
proof (cases "lo_Continue lo = ''''")
  case True
  note at = heap_candidates_at [of h L c lo, symmetric]
  show ?thesis
  proof (cases "heap_candidates L c lo h")
    case (Ok objs)
    have "all_readable h objs"
      using heap_candidates_stored [OF Ok] assms(5) by (simp add: all_readable_def store_readable_def)
    moreover have "own_objects (dom (vars h)) h [] []" by (simp add: own_objects_def)
    ultimately have agrees: "loop_agrees (dom (vars h)) h
        (list_loop (reader_at h c) lo (map (read_stored h) objs) []) (heap_list_loop dc c lo objs [] h)"
      using heap_list_loop_copied [OF assms(1,6,3)] by blast
    have "heap_List L dc sl c out lo h = list_result sl out (heap_list_loop dc c lo objs [] h)"
      using Ok True by (simp add: heap_List_def list_result_def)
    moreover have "cacheReader_List L (reader_at h c) lst lo =
        (case list_loop (reader_at h c) lo (map (read_stored h) objs) [] of
           Err err \<Rightarrow> Err err | Panic p \<Rightarrow> Panic p | Ok xs \<Rightarrow> Ok (lst\<lparr>litems := xs\<rparr>))"
      using Ok True at assms(4) by (simp add: cacheReader_List_def lib_ok_def split: outcome.split)
    ultimately show ?thesis using list_result_agrees [OF assms(2,7) agrees]
      by (cases "list_loop (reader_at h c) lo (map (read_stored h) objs) []") simp_all
  qed (use True at assms(7) in \<open>simp_all add: heap_List_def cacheReader_List_def map_restrict_le\<close>)
qed (use assms(7) in \<open>simp add: heap_List_def cacheReader_List_def map_restrict_le\<close>)

text \<open>Without copies the pointers of the store themselves are handed out.\<close>

lemma heap_list_loop_shared:
  assumes "skipDeepCopy (reader_at h c) lo" and "heap_list_loop dc c lo objs rs h = (Ok ps, h')"
  shows "h' = h \<and> (\<forall>p \<in> set ps. p \<in> set rs \<or> Ptr p \<in> set objs)"
  using assms(2)
proof (induction objs arbitrary: rs)
  case (Cons item objs)
  have skip: "hr_disableDeepCopy c \<or> lo_UnsafeDisableDeepCopy lo = Some True"
    using assms(1) by (simp add: skipDeepCopy_def)
  show ?case
  proof (cases item)
    case (Ptr p)
    then show ?thesis using Cons.prems Cons.IH [of rs] Cons.IH [of "rs @ [p]"] skip
      by (auto split: outcome.splits if_splits simp del: read_stored.simps)
  qed (use Cons.prems in \<open>auto split: if_splits\<close>)
qed auto

section \<open>A store on the heap\<close>

text \<open>
  A ConfigMap of cluster \<open>c1\<close> at 0, with its labels at 1 and its annotations at 2, and the
  caller's empty one at 3.
\<close>

definition stored_struct :: obj_struct where
  "stored_struct =
     \<lparr>os_type = TypedT ''*v1.ConfigMap'',
      os_body = Inline \<lparr>f_gvk = configmap_gvk,
        f_meta = Some \<lparr>mf_name = ''cm'', mf_namespace = ''default'', mf_labels = Some 1, mf_annotations = Some 2\<rparr>,
        f_data = None\<rparr>\<rparr>"

definition callers_struct :: obj_struct where
  "callers_struct =
     \<lparr>os_type = TypedT ''*v1.ConfigMap'',
      os_body = Inline \<lparr>f_gvk = \<lparr>Group = '''', Version = '''', Kind = ''''\<rparr>, f_meta = None, f_data = None\<rparr>\<rparr>"

definition sample_obj_heap :: obj_heap where
  "sample_obj_heap =
     \<lparr>vars = [0 \<mapsto> StructVar stored_struct, 1 \<mapsto> MapVar [''app'' \<mapsto> ''x''],
              2 \<mapsto> MapVar [''kcp.io/cluster'' \<mapsto> ''c1''], 3 \<mapsto> StructVar callers_struct],
      next_var = 4\<rparr>"

definition sample_heap_reader :: heap_reader where
  "sample_heap_reader =
     \<lparr>hr_indexer =
        \<lparr>hi_GetIndexers = cluster_indexers documented_lib,
         hi_GetByKey = (\<lambda>k. if k = ''c1|default/cm'' then Ok (Some (Ptr 0)) else Ok None),
         hi_ByIndex = (\<lambda>n v. if (n, v) \<in> {(''cluster'', ''c1''), (''cluster-and-namespace'', ''c1/default'')}
                              then Ok [Ptr 0] else Ok []),
         hi_IndexKeys = (\<lambda>n v. if (n, v) \<in> {(''cluster'', ''c1''), (''cluster-and-namespace'', ''c1/default'')}
                              then Ok [''c1|default/cm''] else Ok []),
         hi_ListAll = [Ptr 0]\<rparr>,
      hr_gvk = configmap_gvk, hr_scopeName = NamespaceScope, hr_disableDeepCopy = False, hr_clusterName = ''c1''\<rparr>"

definition labelled_object :: object where
  "labelled_object = (sample_object ''c1'' ''default'' ''cm'')
     \<lparr>ometa := Some ((sample_meta ''c1'' ''default'' ''cm'')\<lparr>mlabels := [''app'' \<mapsto> ''x'']\<rparr>)\<rparr>"

abbreviation sample_key :: object_key where
  "sample_key \<equiv> \<lparr>knamespace = ''default'', kname = ''cm''\<rparr>"

text \<open>The same heap with the caller's list at 4, and \<open>SetList\<close> as documented.\<close>

definition heap_with_list :: obj_heap where
  "heap_with_list = sample_obj_heap\<lparr>vars := (vars sample_obj_heap)(4 \<mapsto> ListVar []), next_var := 5\<rparr>"

definition set_items :: set_list where
  "set_items out ps h = (Ok (), set_var out (ListVar (List.map_filter (load_struct h) ps)) h)"

lemma set_items_ok: "set_list_ok set_items"
proof -
  have "List.map_filter (load_struct h) ps = ss" if "map (load_struct h) ps = map Some ss" for h ps ss
    using that by (induction ps arbitrary: ss) auto
  then show ?thesis by (simp add: set_list_ok_def set_items_def)
qed

lemma sample_obj_heap_ok: "obj_heap_ok sample_obj_heap"
  by (simp add: obj_heap_ok_def sample_obj_heap_def)

lemma sample_obj_heap_reads:
  "read_obj sample_obj_heap 0 = Some labelled_object" "\<exists>v. read_obj sample_obj_heap 3 = Some v"
  by (simp_all add: read_obj_def load_struct_def read_struct_def sample_obj_heap_def stored_struct_def callers_struct_def
      labelled_object_def sample_object_def sample_meta_def)

lemma sample_store_readable:
  "store_readable sample_obj_heap (hr_indexer sample_heap_reader)" "\<not> stored_pointer (hr_indexer sample_heap_reader) 3"
  using sample_obj_heap_reads(1) by (auto simp: store_readable_def stored_pointer_def sample_heap_reader_def split: if_splits)

lemma sample_lookup:
  "heap_Get documented_lib copy_object (sample_heap_reader\<lparr>hr_disableDeepCopy := b\<rparr>) sample_key 3 sample_obj_heap =
     write_out copy_object (sample_heap_reader\<lparr>hr_disableDeepCopy := b\<rparr>) 0 3 sample_obj_heap"
  by (simp add: heap_Get_def sample_heap_reader_def objectKeyToStoreKey_def cluster_indexers_def)

lemma sample_copied:
  "\<exists>h'. heap_Get documented_lib copy_object sample_heap_reader sample_key 3 sample_obj_heap = (Ok (), h') \<and>
     labels_var h' 3 = Some 4 \<and> vars h' 4 = Some (MapVar [''app'' \<mapsto> ''x''])"
proof -
  have "sample_heap_reader\<lparr>hr_disableDeepCopy := False\<rparr> = sample_heap_reader" by (simp add: sample_heap_reader_def)
  then show ?thesis using sample_lookup [of False]
    by (simp add: write_out_def sample_heap_reader_def copy_object_def load_struct_def sample_obj_heap_def stored_struct_def
        callers_struct_def new_var_def set_gvk_def set_var_def labels_var_def)
qed

lemma sample_shared:
  "\<exists>h'. heap_Get documented_lib copy_object (sample_heap_reader\<lparr>hr_disableDeepCopy := True\<rparr>) sample_key 3 sample_obj_heap =
      (Ok (), h') \<and> labels_var h' 3 = Some 1"
  unfolding sample_lookup
  by (simp add: write_out_def sample_heap_reader_def load_struct_def sample_obj_heap_def stored_struct_def
      callers_struct_def set_var_def labels_var_def)

theorem heap_Get_refines_witness:
  "read_obj (snd (heap_Get documented_lib copy_object sample_heap_reader sample_key 3 sample_obj_heap)) 3 =
     Some labelled_object"
proof -
  obtain v where v: "read_obj sample_obj_heap 3 = Some v" using sample_obj_heap_reads(2) by blast
  have "otype v = otype labelled_object"
    using v by (auto simp: read_obj_def load_struct_def read_struct_def sample_obj_heap_def callers_struct_def
        labelled_object_def sample_object_def)
  moreover have "labelled_object\<lparr>ogvk := configmap_gvk\<rparr> = labelled_object"
    by (simp add: labelled_object_def sample_object_def)
  ultimately have "cacheReader_Get documented_lib (reader_at sample_obj_heap sample_heap_reader) sample_key v = Ok labelled_object"
    using sample_obj_heap_reads(1)
    by (simp add: cacheReader_Get_def Let_def sample_heap_reader_def objectKeyToStoreKey_def cluster_indexers_def)
  then show ?thesis
    using heap_Get_refines [OF copy_object_ok sample_obj_heap_ok sample_store_readable(1) v, of documented_lib sample_key] by simp
qed

theorem heap_Get_isolates_witness:
  "\<exists>h'. heap_Get documented_lib copy_object sample_heap_reader sample_key 3 sample_obj_heap = (Ok (), h') \<and>
     labels_var h' 3 = Some 4 \<and>
     reader_at (set_label 3 ''app'' ''y'' h') (sample_heap_reader\<lparr>hr_clusterName := ''c2''\<rparr>) =
       reader_at sample_obj_heap (sample_heap_reader\<lparr>hr_clusterName := ''c2''\<rparr>)"
proof -
  obtain v where v: "read_obj sample_obj_heap 3 = Some v" using sample_obj_heap_reads(2) by blast
  obtain h' where h': "heap_Get documented_lib copy_object sample_heap_reader sample_key 3 sample_obj_heap = (Ok (), h')"
    "labels_var h' 3 = Some 4"
    using sample_copied by blast
  have "\<not> hr_disableDeepCopy sample_heap_reader"
    "hr_indexer (sample_heap_reader\<lparr>hr_clusterName := ''c2''\<rparr>) = hr_indexer sample_heap_reader"
    by (simp_all add: sample_heap_reader_def)
  from heap_Get_isolates [OF copy_object_ok sample_obj_heap_ok sample_store_readable(1) v this(1) h'(1)
      sample_store_readable(2) set_label_vars this(2)]
  show ?thesis using h' by blast
qed

theorem heap_Get_shares_witness:
  "\<exists>h' p ob m. heap_Get documented_lib copy_object (sample_heap_reader\<lparr>hr_disableDeepCopy := True\<rparr>) sample_key 3
      sample_obj_heap = (Ok (), h') \<and>
     stored_pointer (hr_indexer sample_heap_reader) p \<and>
     read_obj (set_label 3 ''app'' ''y'' h') p = Some ob \<and> ometa ob = Some m \<and> mlabels m ''app'' = Some ''y''"
proof -
  obtain v where v: "read_obj sample_obj_heap 3 = Some v" using sample_obj_heap_reads(2) by blast
  obtain h' where h': "heap_Get documented_lib copy_object (sample_heap_reader\<lparr>hr_disableDeepCopy := True\<rparr>) sample_key 3
      sample_obj_heap = (Ok (), h')" "labels_var h' 3 = Some 1"
    using sample_shared by blast
  have "hr_disableDeepCopy (sample_heap_reader\<lparr>hr_disableDeepCopy := True\<rparr>)" by simp
  moreover have "hr_indexer (sample_heap_reader\<lparr>hr_disableDeepCopy := True\<rparr>) = hr_indexer sample_heap_reader" by simp
  ultimately show ?thesis
    using heap_Get_shares [OF _ v _ h', of "''app''" "''y''"] sample_store_readable(1) h'(1) by metis
qed

lemma heap_with_list_reads:
  "obj_heap_ok heap_with_list" "read_obj heap_with_list 0 = Some labelled_object"
  "vars heap_with_list 4 = Some (ListVar [])" "dom (vars heap_with_list) = {0, 1, 2, 3, 4}"
  by (auto simp: obj_heap_ok_def heap_with_list_def sample_obj_heap_def read_obj_def load_struct_def read_struct_def
      stored_struct_def labelled_object_def sample_object_def sample_meta_def)

theorem heap_List_refines_witness:
  "\<exists>s h'. heap_List documented_lib copy_object set_items sample_heap_reader 4 sample_list_options heap_with_list =
       (Ok (), h') \<and> vars h' 4 = Some (ListVar [s]) \<and>
     read_struct h' s = Some labelled_object \<and> body_vars h' (os_body s) \<inter> {0, 1, 2, 3, 4} = {}"
proof -
  let ?r = "reader_at heap_with_list sample_heap_reader"
  have gvk: "labelled_object\<lparr>ogvk := configmap_gvk\<rparr> = labelled_object"
    and meta: "\<exists>m. ometa labelled_object = Some m"
    by (simp_all add: labelled_object_def sample_object_def)
  have readable: "store_readable heap_with_list (hr_indexer sample_heap_reader)"
    using heap_with_list_reads(2)
    by (auto simp: store_readable_def stored_pointer_def sample_heap_reader_def split: if_splits)
  have "cacheReader_candidates documented_lib ?r sample_list_options = Ok (map (read_stored heap_with_list) [Ptr 0])"
    by (simp add: cacheReader_candidates_def sample_list_options_def sample_heap_reader_def cluster_indexers_def)
  moreover have copy: "\<not> skipDeepCopy ?r sample_list_options"
    by (simp add: skipDeepCopy_def sample_list_options_def sample_heap_reader_def)
  ultimately have res: "cacheReader_List documented_lib ?r sample_list sample_list_options = Ok (sample_list\<lparr>litems := [labelled_object]\<rparr>)"
    using heap_with_list_reads(2) gvk meta
    by (auto simp: cacheReader_List_def sample_list_options_def list_output_def labels_match_def sample_heap_reader_def)
  from heap_List_refines [OF copy_object_ok set_items_ok heap_with_list_reads(1) documented_lib_ok readable copy
      heap_with_list_reads(3), of sample_list, unfolded heap_with_list_reads(4) res outcome.case]
  obtain h' ss where h': "heap_List documented_lib copy_object set_items sample_heap_reader 4 sample_list_options
      heap_with_list = (Ok (), h')" "vars h' 4 = Some (ListVar ss)" "map (read_struct h') ss = [Some labelled_object]"
    "(\<Union>s \<in> set ss. body_vars h' (os_body s)) \<inter> {0, 1, 2, 3, 4} = {}"
    by auto
  then obtain s where "ss = [s]" "read_struct h' s = Some labelled_object" by auto
  with h' show ?thesis by (intro exI [of _ s] exI [of _ h']) simp
qed

end
