(* ===== verification/App_Retry.thy ===== *)
theory App_Retry
  imports App_Controller
begin

text \<open>
  Failed reconciliations of the application controller of the CRD example
  (\<open>examples/crd/internal/controller/application_controller.go\<close>). A reconciliation can break
  off at each of its calls, with or without the effect of that call. The controller is called
  again after an error; here it is shown that failed attempts leave nothing behind that the first
  attempt that goes through would not have made.
\<close>

section \<open>Clients that may fail\<close>

text \<open>
  A read that succeeds returns what it returns with working clients; a write that succeeds has
  its effect, and one that fails or panics may have had it.
\<close>

definition may_fail :: "app_lib \<Rightarrow> app_lib \<Rightarrow> bool" where
  "may_fail A F \<longleftrightarrow>
     (\<forall>k w. is_Ok (Client_GetApplication F k w) \<longrightarrow> Client_GetApplication F k w = Client_GetApplication A k w) \<and>
     (\<forall>k w. is_Ok (Client_GetSecret F k w) \<longrightarrow> Client_GetSecret F k w = Client_GetSecret A k w) \<and>
     (\<forall>r w. snd (CreateOrUpdate F (\<lambda>r. Ok r) r w) = create_missing r w \<or>
        snd (CreateOrUpdate F (\<lambda>r. Ok r) r w) = w \<and> \<not> is_Ok (fst (CreateOrUpdate F (\<lambda>r. Ok r) r w))) \<and>
     (\<forall>a w. snd (Status_Update F a w) = snd (update_status a w) \<or>
        snd (Status_Update F a w) = w \<and> \<not> is_Ok (fst (Status_Update F a w))) \<and>
     json_escaped F = json_escaped A"

text \<open>The worlds between the one an application was first reconciled in and the one in which it is ready.\<close>

definition on_the_way :: "app_lib \<Rightarrow> object_key \<Rightarrow> application \<Rightarrow> string \<Rightarrow> app_world \<Rightarrow> app_world \<Rightarrow> bool" where
  "on_the_way A req app ns w v \<longleftrightarrow>
     provided w \<subseteq>\<^sub>m provided v \<and> provided v \<subseteq>\<^sub>m provided (fold create_missing (desired A app ns) w) \<and>
     secrets v = secrets w \<and>
     (applications v = applications w \<or> applications v = (applications w)(req \<mapsto> ready_app app ns))"

lemma on_the_way_refl: "on_the_way A req app ns w w"
  by (auto simp: on_the_way_def map_le_def provided_fold_create split: option.split)

lemma find_distinct_map: "distinct (map f xs) \<Longrightarrow> x \<in> set xs \<Longrightarrow> find (\<lambda>y. f y = f x) xs = Some x"
  by (induction xs) force+

lemma desired_find: "r \<in> set (desired A app ns) \<Longrightarrow> find (\<lambda>r'. res_key r' = res_key r) (desired A app ns) = Some r"
  by (rule find_distinct_map) (simp_all add: desired_keys)

lemma on_the_way_create:
  assumes "on_the_way A req app ns w v" and "r \<in> set (desired A app ns)"
  shows "on_the_way A req app ns w (create_missing r v)"
proof -
  let ?goal = "provided (fold create_missing (desired A app ns) w)"
  have sub: "provided w \<subseteq>\<^sub>m provided v" "provided v \<subseteq>\<^sub>m ?goal" using assms(1) by (simp_all add: on_the_way_def)
  have "provided w (res_key r) = None" if "provided v (res_key r) = None"
    using sub(1) that map_le_Some [of "provided w" "provided v" "res_key r"] by (cases "provided w (res_key r)") auto
  then have goal: "provided v (res_key r) = None \<Longrightarrow> ?goal (res_key r) = Some r"
    using desired_find [OF assms(2)] by (simp add: provided_fold_create)
  have "provided v \<subseteq>\<^sub>m provided (create_missing r v)" by (auto simp: create_missing_def map_le_def)
  then have "provided w \<subseteq>\<^sub>m provided (create_missing r v)" using sub(1) map_le_trans by blast
  moreover have "provided (create_missing r v) \<subseteq>\<^sub>m ?goal"
    using sub(2) goal by (auto simp: create_missing_def map_le_def)
  ultimately show ?thesis using assms(1) by (simp add: on_the_way_def)
qed

section \<open>One attempt\<close>

text \<open>What an attempt builds does not depend on the status an earlier one may have written.\<close>

lemma ready_app_sel [simp]:
  "app_Name (ready_app app ns) = app_Name app" "app_Namespace (ready_app app ns) = app_Namespace app"
  "app_Annotations (ready_app app ns) = app_Annotations app"
  "DatabaseSecretRef (ready_app app ns) = DatabaseSecretRef app" "DatabaseRef (ready_app app ns) = DatabaseRef app"
  "app_key (ready_app app ns) = app_key app" "ready_app (ready_app app ns) ns = ready_app app ns"
  "desired A (ready_app app ns) ns = desired A app ns"
  by (simp_all add: ready_app_def app_key_def desired_def getApplicationDeployment_def getApplicationService_def
      getServerJson_def serverSecret_def)

lemma may_fail_create:
  assumes "may_fail A F" and "on_the_way A req app ns w v" and "r \<in> set (desired A app ns)"
    and "\<And>v. on_the_way A req app ns w v \<Longrightarrow> on_the_way A req app ns w (snd (k v))"
  shows "on_the_way A req app ns w (snd (continue (CreateOrUpdate F (\<lambda>r. Ok r) r v) k))"
proof -
  obtain o1 v' where res: "CreateOrUpdate F (\<lambda>r. Ok r) r v = (o1, v')" by fastforce
  have "v' = create_missing r v \<or> v' = v" using assms(1) res unfolding may_fail_def by (metis snd_conv)
  then have "on_the_way A req app ns w v'" using on_the_way_create [OF assms(2,3)] assms(2) by blast
  then show ?thesis using assms(4) by (cases o1) (simp_all add: res continue_def)
qed

lemma may_fail_status:
  assumes "may_fail A F" and "on_the_way A req app ns w v" and "applications w req = Some app" and "app_key app = req"
  shows "on_the_way A req app ns w (snd (continue (Status_Update F (ready_app app ns) v) (\<lambda>w. (Ok (False, None), w))))"
proof -
  obtain o1 v' where res: "Status_Update F (ready_app app ns) v = (o1, v')" by fastforce
  have "v' = snd (update_status (ready_app app ns) v) \<or> v' = v" using assms(1) res unfolding may_fail_def by (metis snd_conv)
  moreover have "on_the_way A req app ns w (snd (update_status (ready_app app ns) v))"
    using assms(2-4) by (auto simp: on_the_way_def update_status_def ready_app_def app_key_def)
  ultimately have "on_the_way A req app ns w v'" using assms(2) by blast
  then show ?thesis by (cases o1) (simp_all add: res continue_def)
qed

lemma may_fail_attempt:
  assumes "api_ok A" and "may_fail A F" and "on_the_way A req app ns w v"
    and "applications w req = Some app" and "app_key app = req"
    and "app_Annotations app ''kcp.io/cluster'' = Some ns"
  shows "on_the_way A req app ns w (snd (Reconcile F req v))"
proof -
  obtain app' where app': "applications v req = Some app'" "app' = app \<or> app' = ready_app app ns"
    using assms(3,4) by (auto simp: on_the_way_def)
  have same: "app_Name app' = app_Name app" "app_Annotations app' = app_Annotations app"
    "desired A app' ns = desired A app ns" "ready_app app' ns = ready_app app ns"
    using app'(2) by auto
  obtain d s j where d: "getApplicationDeployment app' ns = Ok d" "getApplicationService app' ns = Ok s"
    and desired: "\<And>sec. getServerJson (json_escaped F) app' sec = Ok j"
      "desired A app ns = [d, s, serverSecret app' ns j]"
    using assms(2) same(3)
    by (auto simp: desired_def getApplicationDeployment_def getApplicationService_def getServerJson_def may_fail_def)
  have mem: "d \<in> set (desired A app ns)" "s \<in> set (desired A app ns)" "serverSecret app' ns j \<in> set (desired A app ns)"
    by (simp_all add: desired(2))
  note step = may_fail_create [OF assms(2)] may_fail_status [OF assms(2) _ assms(4,5)]
  have read: "Client_GetApplication F req v = Ok app' \<or> \<not> is_Ok (Client_GetApplication F req v)"
    using assms(2) api_okD(1) [OF assms(1) app'(1)] unfolding may_fail_def by metis
  show ?thesis
  proof (cases "Client_GetApplication F req v")
    case (Ok a)
    then have a: "a = app'" using read by simp
    let ?create = "\<lambda>r. CreateOrUpdate F (\<lambda>r. Ok r) r"
    show ?thesis
    proof (cases "Client_GetSecret F \<lparr>knamespace = knamespace req, kname = ref_Name (DatabaseSecretRef app')\<rparr> v")
      case secret: (Ok sec)
      have "Reconcile F req v = continue (?create d v) (\<lambda>w. continue (?create s w) (\<lambda>w.
          continue (?create (serverSecret app' ns j) w) (\<lambda>w.
          continue (Status_Update F (ready_app app' ns) w) (\<lambda>w. (Ok (False, None), w)))))"
        using assms(6) same(2) by (simp add: Reconcile_def Ok a secret d desired(1) with_value_def ready_app_def Let_def)
      then show ?thesis unfolding same(4) by (simp add: step mem assms(3))
    qed (use assms(3) Ok a in \<open>simp_all add: Reconcile_def\<close>)
  qed (use assms(3) in \<open>simp_all add: Reconcile_def\<close>)
qed

section \<open>Attempts until one goes through\<close>

lemma on_the_way_finish:
  assumes "api_ok A" and "on_the_way A req app ns w v"
    and "applications w req = Some app" and "app_key app = req"
    and "secrets w \<lparr>knamespace = knamespace req, kname = ref_Name (DatabaseSecretRef app)\<rparr> = Some sec"
    and "app_Annotations app ''kcp.io/cluster'' = Some ns"
  shows "Reconcile A req v = Reconcile A req w"
proof -
  let ?D = "desired A app ns"
  obtain app' where app': "applications v req = Some app'" "app' = app \<or> app' = ready_app app ns"
    using assms(2,3) by (auto simp: on_the_way_def)
  have "Reconcile A req v =
      (Ok (False, None), (fold create_missing (desired A app' ns) v)\<lparr>applications := (applications v)(req \<mapsto> ready_app app' ns)\<rparr>)"
    by (rule Reconcile_run [OF assms(1) app'(1)]) (use app'(2) assms(2,4-6) in \<open>auto simp: on_the_way_def\<close>)
  moreover have "desired A app' ns = ?D" "ready_app app' ns = ready_app app ns" using app'(2) by auto
  moreover have "(applications v)(req \<mapsto> ready_app app ns) = (applications w)(req \<mapsto> ready_app app ns)"
    using assms(2) by (auto simp: on_the_way_def)
  moreover have "provided (fold create_missing ?D v) = provided (fold create_missing ?D w)"
  proof
    fix k
    have sub: "provided w \<subseteq>\<^sub>m provided v" "provided v \<subseteq>\<^sub>m provided (fold create_missing ?D w)"
      using assms(2) by (simp_all add: on_the_way_def)
    show "provided (fold create_missing ?D v) k = provided (fold create_missing ?D w) k"
    proof (cases "provided v k")
      case None
      then have "provided w k = None" using sub(1) map_le_Some [of "provided w" "provided v" k] by (cases "provided w k") auto
      then show ?thesis using None by (simp add: provided_fold_create)
    next
      case (Some r)
      then have "provided (fold create_missing ?D w) k = Some r" using sub(2) map_le_Some by metis
      then show ?thesis using Some by (simp add: provided_fold_create)
    qed
  qed
  moreover have "secrets v = secrets w" using assms(2) by (simp add: on_the_way_def)
  ultimately show ?thesis unfolding Reconcile_run [OF assms(1,3-6)] by simp
qed

text \<open>
  C40. Failed attempts do no harm: after any number of reconciliations, each broken off at any
  of its calls, before or after the call had its effect, the next reconciliation with working
  clients ends the same way and in the same world as if it had been the first.
\<close>

theorem Reconcile_retries:
  assumes "api_ok A" and "\<forall>F \<in> set Fs. may_fail A F"
    and "applications w req = Some app" and "app_key app = req"
    and "secrets w \<lparr>knamespace = knamespace req, kname = ref_Name (DatabaseSecretRef app)\<rparr> = Some sec"
    and "app_Annotations app ''kcp.io/cluster'' = Some ns"
  shows "Reconcile A req (fold (\<lambda>F v. snd (Reconcile F req v)) Fs w) = Reconcile A req w"
proof -
  have "on_the_way A req app ns w (fold (\<lambda>F v. snd (Reconcile F req v)) Fs w)"
    by (rule fold_invariant [where Q = "may_fail A"])
      (use assms(2) on_the_way_refl may_fail_attempt [OF assms(1) _ _ assms(3,4,6)] in blast)+
  then show ?thesis by (rule on_the_way_finish [OF assms(1) _ assms(3-6)])
qed

text \<open>Clients of which the second write fails after its effect, or the status update without one.\<close>

definition lost_answer :: app_lib where
  "lost_answer = working_clients\<lparr>CreateOrUpdate := (\<lambda>f r w.
     (if res_key r \<in> dom (provided w) then Ok () else Err (External ''timeout''), create_missing r w))\<rparr>"

definition conflict :: app_lib where
  "conflict = working_clients\<lparr>Status_Update := (\<lambda>a w. (Err (External ''conflict''), w))\<rparr>"

lemma failing_clients: "\<forall>F \<in> set [lost_answer, conflict]. may_fail working_clients F"
  by (simp add: may_fail_def lost_answer_def conflict_def working_clients_def)

theorem Reconcile_retries_witness:
  "Reconcile working_clients sample_req (snd (Reconcile conflict sample_req (snd (Reconcile lost_answer sample_req sample_world)))) =
     Reconcile working_clients sample_req sample_world"
  using Reconcile_retries [OF working_clients_ok failing_clients sample_world_facts] by simp

end
