(* ===== verification/Test_Utils.thy ===== *)
theory Test_Utils
  imports Prelude
begin

text \<open>
  The helpers of \<open>examples/crd/test/utils/utils.go\<close>: the commands the end-to-end tests run, the
  questions they ask of their output, and the rewriting of a file that takes the comment
  prefix off a piece of its text. Commands and files are the environment: a command is
  answered by a function of the commands run before.
\<close>

section \<open>Strings\<close>

abbreviation newline :: char where "newline \<equiv> CHR 0x0A"
abbreviation carriage_return :: char where "carriage_return \<equiv> CHR 0x0D"

text \<open>\<open>strings.Split\<close> at line breaks, \<open>strings.Join\<close>, \<open>strings.TrimPrefix\<close>, \<open>strings.Index\<close> and
  \<open>strings.Contains\<close>.\<close>

fun split_lines :: "string \<Rightarrow> string list" where
  "split_lines [] = [[]]"
| "split_lines (c # cs) =
     (if c = newline then [] # split_lines cs
      else (case split_lines cs of [] \<Rightarrow> [[c]] | l # ls \<Rightarrow> (c # l) # ls))"

fun Join :: "string list \<Rightarrow> string \<Rightarrow> string" where
  "Join [] sep = ''''"
| "Join [x] sep = x"
| "Join (x # y # zs) sep = x @ sep @ Join (y # zs) sep"

definition TrimPrefix :: "string \<Rightarrow> string \<Rightarrow> string" where
  "TrimPrefix s p = (if prefix p s then drop (length p) s else s)"

fun Index :: "string \<Rightarrow> string \<Rightarrow> nat option" where
  "Index [] sub = (if sub = [] then Some 0 else None)"
| "Index (c # cs) sub = (if prefix sub (c # cs) then Some 0 else map_option Suc (Index cs sub))"

definition Contains :: "string \<Rightarrow> string \<Rightarrow> bool" where
  "Contains s sub \<longleftrightarrow> Index s sub \<noteq> None"

lemma Index_Some:
  "Index s sub = Some i \<Longrightarrow> i + length sub \<le> length s \<and> take (length sub) (drop i s) = sub"
proof (induction s arbitrary: i)
  case (Cons c cs)
  show ?case
  proof (cases "prefix sub (c # cs)")
    case True
    then obtain zs where zs: "c # cs = sub @ zs" by (rule prefixE)
    have "i = 0" using Cons.prems True by simp
    then show ?thesis unfolding zs by simp
  next
    case False
    then show ?thesis using Cons by auto
  qed
qed (auto split: if_splits)

lemma Index_None: "Index s sub = None \<longleftrightarrow> \<not> sublist sub s"
  by (induction s) (auto simp: sublist_Cons_right split: if_splits)

lemma Contains_iff: "Contains s sub \<longleftrightarrow> sublist sub s"
  by (simp add: Contains_def Index_None)

section \<open>The project directory\<close>

text \<open>
  \<open>strings.Replace\<close> with all occurrences of a non-empty text taken out, left to right, and
  \<open>GetProjectDir\<close>, the working directory without \<open>/test/e2e\<close>; \<open>wd\<close> is what \<open>os.Getwd\<close> returns.
\<close>

function Replace_all :: "string \<Rightarrow> string \<Rightarrow> string \<Rightarrow> string" where
  "Replace_all s old new =
     (if old = '''' then s
      else case Index s old of
             None \<Rightarrow> s
           | Some i \<Rightarrow> take i s @ new @ Replace_all (drop (i + length old) s) old new)"
  by pat_completeness auto

termination Replace_all
proof (relation "measure (\<lambda>(s, old, new). length s)")
  fix s old new :: string and i
  assume "old \<noteq> ''''" and "Index s old = Some i"
  then show "((drop (i + length old) s, old, new), s, old, new) \<in> measure (\<lambda>(s, old, new). length s)"
    using Index_Some [of s old i] by (cases old) auto
qed simp

declare Replace_all.simps [simp del]

definition GetProjectDir :: "string \<times> go_error option \<Rightarrow> string \<times> go_error option" where
  "GetProjectDir wd =
     (case wd of
        (dir, Some err) \<Rightarrow> (dir, Some err)
      | (dir, None) \<Rightarrow> (Replace_all dir ''/test/e2e'' '''', None))"

section \<open>Commands\<close>

text \<open>
  What the helpers change: the commands run so far, each with its arguments, directory and
  environment variables, the working directory of the process, and what was printed to
  \<open>GinkgoWriter\<close>, as the format and its argument.
\<close>

type_synonym command = "string list"

record execution =
  Args :: command
  Dir :: string
  Env :: "string list"

datatype printed = Fprintf string string | Fprintf_error string go_error

record test_process =
  executed :: "execution list"
  working_dir :: string
  GinkgoWriter :: "printed list"

text \<open>
  The machine is the environment. It answers a command, given those run before, with its
  combined output and the text of the error, if it failed; its \<open>os.Getwd\<close> and \<open>os.Chdir\<close> may fail.
\<close>

record machine =
  CombinedOutput :: "execution list \<Rightarrow> execution \<Rightarrow> string \<times> string option"
  Getwd :: "string \<Rightarrow> string \<times> go_error option"
  Chdir :: "string \<Rightarrow> string option"
  Environ :: "string list"

definition LookupEnv :: "machine \<Rightarrow> string \<Rightarrow> string option" where
  "LookupEnv env k = map_option (drop (length k + 1)) (find (prefix (k @ ''='')) (Environ env))"

definition print :: "printed \<Rightarrow> test_process \<Rightarrow> test_process" where
  "print l s = s\<lparr>GinkgoWriter := GinkgoWriter s @ [l]\<rparr>"

definition warnError :: "go_error \<Rightarrow> test_process \<Rightarrow> test_process" where
  "warnError err s = print (Fprintf_error ''warning: %v'' err) s"

text \<open>
  \<open>Run_command\<close>, for \<open>Run\<close>: it drops the error of \<open>GetProjectDir\<close> and only prints that of
  \<open>os.Chdir\<close>. It returns the output and the error.
\<close>

definition Run_command :: "machine \<Rightarrow> command \<Rightarrow> test_process \<Rightarrow> (string \<times> go_error option) \<times> test_process" where
  "Run_command env args s =
     (let dir = fst (GetProjectDir (Getwd env (working_dir s)));
          s = (case Chdir env dir of
                 Some err \<Rightarrow> print (Fprintf ''chdir dir: %s'' err) s
               | None \<Rightarrow> s\<lparr>working_dir := dir\<rparr>);
          cmd = \<lparr>Args = args, Dir = dir, Env = Environ env @ [''GO111MODULE=on'']\<rparr>;
          command = Join args '' '';
          s = print (Fprintf ''running: %s'' command) s;
          (output, err) = CombinedOutput env (executed s) cmd;
          s = s\<lparr>executed := executed s @ [cmd]\<rparr>
      in ((output, (case err of
             Some e \<Rightarrow> Some (Errorf ''%s failed with error: (%v) %s'' [command, e, output])
           | None \<Rightarrow> None)), s))"

definition prometheusOperatorURL :: string where
  "prometheusOperatorURL =
     ''https://github.com/prometheus-operator/prometheus-operator/releases/download/v0.77.1/bundle.yaml''"

definition certmanagerURL :: string where
  "certmanagerURL =
     ''https://github.com/cert-manager/cert-manager/releases/download/v1.16.3/cert-manager.yaml''"

definition InstallPrometheusOperator :: "machine \<Rightarrow> test_process \<Rightarrow> go_error option \<times> test_process" where
  "InstallPrometheusOperator env s =
     (let ((output, err), s) = Run_command env [''kubectl'', ''create'', ''-f'', prometheusOperatorURL] s
      in (err, s))"

text \<open>The two functions that return nothing warn of the error.\<close>

definition UninstallPrometheusOperator :: "machine \<Rightarrow> test_process \<Rightarrow> test_process" where
  "UninstallPrometheusOperator env s =
     (let ((output, err), s) = Run_command env [''kubectl'', ''delete'', ''-f'', prometheusOperatorURL] s
      in (case err of Some e \<Rightarrow> warnError e s | None \<Rightarrow> s))"

definition UninstallCertManager :: "machine \<Rightarrow> test_process \<Rightarrow> test_process" where
  "UninstallCertManager env s =
     (let ((output, err), s) = Run_command env [''kubectl'', ''delete'', ''-f'', certmanagerURL] s
      in (case err of Some e \<Rightarrow> warnError e s | None \<Rightarrow> s))"

definition InstallCertManager :: "machine \<Rightarrow> test_process \<Rightarrow> go_error option \<times> test_process" where
  "InstallCertManager env s =
     (let ((output, err), s) = Run_command env [''kubectl'', ''apply'', ''-f'', certmanagerURL] s
      in case err of
           Some e \<Rightarrow> (Some e, s)
         | None \<Rightarrow>
             (let ((output, err), s) =
                Run_command env [''kubectl'', ''wait'', ''deployment.apps/cert-manager-webhook'',
                  ''--for'', ''condition=Available'', ''--namespace'', ''cert-manager'',
                  ''--timeout'', ''5m''] s
              in (err, s)))"

definition LoadImageToKindClusterWithName ::
  "machine \<Rightarrow> string \<Rightarrow> test_process \<Rightarrow> go_error option \<times> test_process" where
  "LoadImageToKindClusterWithName env name s =
     (let cluster = (case LookupEnv env ''KIND_CLUSTER'' of Some v \<Rightarrow> v | None \<Rightarrow> ''kind'');
          ((output, err), s) =
            Run_command env [''kind'', ''load'', ''docker-image'', name, ''--name'', cluster] s
      in (err, s))"

section \<open>Questions about installed CRDs\<close>

fun non_empty :: "string list \<Rightarrow> string list \<Rightarrow> string list" where
  "non_empty [] res = res"
| "non_empty (e # es) res = non_empty es (if e \<noteq> '''' then res @ [e] else res)"

definition GetNonEmptyLines :: "string \<Rightarrow> string list" where
  "GetNonEmptyLines output = non_empty (split_lines output) []"

fun any_line :: "string \<Rightarrow> string list \<Rightarrow> bool" where
  "any_line crd [] = False"
| "any_line crd (line # ls) = (if Contains line crd then True else any_line crd ls)"

fun any_crd :: "string list \<Rightarrow> string list \<Rightarrow> bool" where
  "any_crd [] crdList = False"
| "any_crd (crd # crds) crdList = (if any_line crd crdList then True else any_crd crds crdList)"

definition prometheusCRDs :: "string list" where
  "prometheusCRDs =
     [''prometheuses.monitoring.coreos.com'', ''prometheusrules.monitoring.coreos.com'',
      ''prometheusagents.monitoring.coreos.com'']"

definition certManagerCRDs :: "string list" where
  "certManagerCRDs =
     [''certificates.cert-manager.io'', ''issuers.cert-manager.io'', ''clusterissuers.cert-manager.io'',
      ''certificaterequests.cert-manager.io'', ''orders.acme.cert-manager.io'',
      ''challenges.acme.cert-manager.io'']"

definition IsPrometheusCRDsInstalled :: "machine \<Rightarrow> test_process \<Rightarrow> bool \<times> test_process" where
  "IsPrometheusCRDsInstalled env s =
     (let ((output, err), s) =
        Run_command env [''kubectl'', ''get'', ''crds'', ''-o'', ''custom-columns=NAME:.metadata.name''] s
      in (if err \<noteq> None then False else any_crd prometheusCRDs (GetNonEmptyLines output), s))"

definition IsCertManagerCRDsInstalled :: "machine \<Rightarrow> test_process \<Rightarrow> bool \<times> test_process" where
  "IsCertManagerCRDsInstalled env s =
     (let ((output, err), s) = Run_command env [''kubectl'', ''get'', ''crds''] s
      in (if err \<noteq> None then False else any_crd certManagerCRDs (GetNonEmptyLines output), s))"

lemma non_empty_filter: "non_empty es res = res @ filter (\<lambda>e. e \<noteq> '''') es"
  by (induction es arbitrary: res) auto

lemma GetNonEmptyLines_filter: "GetNonEmptyLines output = filter (\<lambda>l. l \<noteq> '''') (split_lines output)"
  by (simp add: GetNonEmptyLines_def non_empty_filter)

lemma any_line_iff: "any_line crd ls \<longleftrightarrow> (\<exists>l \<in> set ls. sublist crd l)"
  by (induction ls) (auto simp: Contains_iff)

lemma any_crd_iff: "any_crd crds ls \<longleftrightarrow> (\<exists>c \<in> set crds. \<exists>l \<in> set ls. sublist c l)"
  by (induction crds) (auto simp: any_line_iff)

section \<open>Uncommenting code\<close>

text \<open>
  \<open>bufio.Scanner\<close> over the lines of a text: a line ends at a line break or at the end of the
  text, a carriage return before the break is dropped, nothing follows a final break, and
  scanning stops at a line of 65536 bytes or more, the scanner's buffer.
\<close>

definition MaxScanTokenSize :: nat where
  "MaxScanTokenSize = 65536"

definition drop_return :: "string \<Rightarrow> string" where
  "drop_return l = (if l \<noteq> '''' \<and> last l = carriage_return then butlast l else l)"

definition scan_tokens :: "string \<Rightarrow> string list" where
  "scan_tokens s = (let ls = split_lines s in if last ls = '''' then butlast ls else ls)"

definition scan_lines :: "string \<Rightarrow> string list" where
  "scan_lines s = map drop_return (takeWhile (\<lambda>l. length l < MaxScanTokenSize) (scan_tokens s))"

text \<open>
  The loop writes each scanned line without its prefix, and a line break between two lines.
  The results are the new content to write, \<open>None\<close> where the function returns without an
  error before it writes the file.
\<close>

fun uncomment_lines :: "string \<Rightarrow> string list \<Rightarrow> string" where
  "uncomment_lines p [] = ''''"
| "uncomment_lines p [l] = TrimPrefix l p"
| "uncomment_lines p (l # l' # ls) = TrimPrefix l p @ [newline] @ uncomment_lines p (l' # ls)"

definition uncomment :: "string \<Rightarrow> string \<Rightarrow> string \<Rightarrow> string option outcome" where
  "uncomment content target p =
     (case Index content target of
        None \<Rightarrow> Err (Errorf ''unable to find the code %s to be uncomment'' [target])
      | Some idx \<Rightarrow>
          if scan_lines target = [] then Ok None
          else Ok (Some (take idx content @ uncomment_lines p (scan_lines target) @
                         drop (idx + length target) content)))"

text \<open>A file system of readable files; \<open>writable\<close> says what a write would return.\<close>

type_synonym files = "string \<rightharpoonup> string"

definition UncommentCode ::
  "(string \<Rightarrow> go_error option) \<Rightarrow> string \<Rightarrow> string \<Rightarrow> string \<Rightarrow> files \<Rightarrow> go_error option \<times> files" where
  "UncommentCode writable filename target p fs =
     (case fs filename of
        None \<Rightarrow> (Some (External ''open: no such file or directory''), fs)
      | Some content \<Rightarrow>
          (case uncomment content target p of
             Err err \<Rightarrow> (Some err, fs)
           | Panic e \<Rightarrow> (Some (External e), fs)
           | Ok None \<Rightarrow> (None, fs)
           | Ok (Some out) \<Rightarrow>
               (case writable filename of
                  Some err \<Rightarrow> (Some err, fs)
                | None \<Rightarrow> (None, fs(filename \<mapsto> out)))))"

text \<open>A commented text: its lines with the prefix, joined by line breaks.\<close>

definition commented :: "string \<Rightarrow> string list \<Rightarrow> string" where
  "commented p ls = Join (map (\<lambda>l. p @ l) ls) [newline]"

definition code_lines :: "string \<Rightarrow> string list \<Rightarrow> bool" where
  "code_lines p ls \<longleftrightarrow> ls \<noteq> [] \<and> p \<noteq> '''' \<and> newline \<notin> set p \<and> carriage_return \<notin> set p \<and>
     (\<forall>l \<in> set ls. newline \<notin> set l \<and> carriage_return \<notin> set l \<and>
        length p + length l < MaxScanTokenSize)"

lemma split_lines_nonempty [simp]: "split_lines s \<noteq> []"
  by (cases s) (auto split: list.split)

lemma split_lines_line: "newline \<notin> set l \<Longrightarrow> split_lines l = [l]"
  by (induction l) auto

lemma split_lines_append: "split_lines (x @ newline # y) = split_lines x @ split_lines y"
  by (induction x) (auto split: list.split)

lemma split_lines_Join:
  "ls \<noteq> [] \<Longrightarrow> \<forall>l \<in> set ls. newline \<notin> set l \<Longrightarrow> split_lines (Join ls [newline]) = ls"
proof (induction ls)
  case (Cons l ls)
  then show ?case by (cases ls) (auto simp: split_lines_line split_lines_append)
qed simp

text \<open>The same lines without the bound on their length.\<close>

definition clean_lines :: "string \<Rightarrow> string list \<Rightarrow> bool" where
  "clean_lines p ls \<longleftrightarrow> ls \<noteq> [] \<and> p \<noteq> '''' \<and> newline \<notin> set p \<and> carriage_return \<notin> set p \<and>
     (\<forall>l \<in> set ls. newline \<notin> set l \<and> carriage_return \<notin> set l)"

lemma scan_lines_long:
  assumes "clean_lines p ls"
  shows "scan_lines (commented p ls) =
    map (\<lambda>l. p @ l) (takeWhile (\<lambda>l. length p + length l < MaxScanTokenSize) ls)"
proof -
  let ?ls = "map (\<lambda>l. p @ l) ls"
  have ne: "ls \<noteq> []" "p \<noteq> ''''" using assms by (auto simp: clean_lines_def)
  have split: "split_lines (commented p ls) = ?ls"
    unfolding commented_def by (rule split_lines_Join) (use assms in \<open>auto simp: clean_lines_def\<close>)
  have "last ?ls \<noteq> ''''" using ne by (simp add: last_map)
  then have tokens: "scan_tokens (commented p ls) = ?ls" by (simp add: scan_tokens_def split)
  have drop: "drop_return l = l" if "l \<in> set ?ls" for l
    using that assms last_in_set [of l] unfolding clean_lines_def drop_return_def by fastforce
  let ?short = "takeWhile (\<lambda>l. length l < MaxScanTokenSize) ?ls"
  have "map drop_return ?short = ?short"
    by (intro map_idI drop) (blast dest: set_takeWhileD)
  then show ?thesis unfolding scan_lines_def tokens by (simp add: takeWhile_map comp_def)
qed

lemma scan_lines_commented:
  assumes "code_lines p ls"
  shows "scan_lines (commented p ls) = map (\<lambda>l. p @ l) ls"
proof -
  have clean: "clean_lines p ls" and all: "takeWhile (\<lambda>l. length p + length l < MaxScanTokenSize) ls = ls"
    using assms by (auto simp: code_lines_def clean_lines_def)
  show ?thesis using scan_lines_long [OF clean] by (simp only: all)
qed

lemma uncomment_lines_commented: "ls \<noteq> [] \<Longrightarrow> uncomment_lines p (map (\<lambda>l. p @ l) ls) = Join ls [newline]"
proof (induction ls)
  case (Cons l ls)
  then show ?case by (cases ls) (simp_all add: TrimPrefix_def)
qed simp

text \<open>
  Uncommenting undoes commenting. If the first occurrence in a readable and writable file
  of a text whose lines all carry the prefix is at a place, the call writes the same file
  with the prefix taken off each line of that occurrence, every line break kept, and touches
  no other file. The lines are free of carriage returns and shorter than the scanner's
  buffer.
\<close>

lemma UncommentCode_uncomments:
  assumes "code_lines p ls" and "fs filename = Some content"
    and "Index content (commented p ls) = Some i" and "writable filename = None"
  shows "\<exists>before after. content = before @ commented p ls @ after \<and> length before = i \<and>
    UncommentCode writable filename (commented p ls) p fs =
      (None, fs(filename \<mapsto> before @ Join ls [newline] @ after))"
proof (intro exI conjI)
  let ?t = "commented p ls"
  let ?before = "take i content" and ?after = "drop (i + length ?t) content"
  note at = Index_Some [OF assms(3)]
  show "length ?before = i" using at by simp
  have "drop i content = ?t @ drop (length ?t) (drop i content)"
    using at append_take_drop_id [of "length ?t" "drop i content"] by simp
  then show "content = ?before @ ?t @ ?after"
    using append_take_drop_id [of i content] by (metis drop_drop add.commute)
  have "scan_lines ?t = map (\<lambda>l. p @ l) ls" using assms(1) by (rule scan_lines_commented)
  moreover have "ls \<noteq> []" using assms(1) by (simp add: code_lines_def)
  ultimately have "uncomment content ?t p = Ok (Some (?before @ Join ls [newline] @ ?after))"
    by (simp add: uncomment_def assms(3) uncomment_lines_commented)
  then show "UncommentCode writable filename ?t p fs =
      (None, fs(filename \<mapsto> ?before @ Join ls [newline] @ ?after))"
    by (simp add: UncommentCode_def assms(2,4))
qed

lemma UncommentCode_uncomments_witness:
  "\<exists>fs'. UncommentCode (\<lambda>f. None) ''f'' (commented ''#'' [''a'', ''b'']) ''#'' [''f'' \<mapsto> ''x#a'' @ [newline] @ ''#by''] =
     (None, fs') \<and> fs' ''f'' = Some (''xa'' @ [newline] @ ''by'')"
proof -
  have ok: "code_lines ''#'' [''a'', ''b'']" by (simp add: code_lines_def MaxScanTokenSize_def)
  have t: "commented ''#'' [''a'', ''b''] = ''#a'' @ [newline] @ ''#b''" by (simp add: commented_def)
  have i: "Index (''x#a'' @ [newline] @ ''#by'') (commented ''#'' [''a'', ''b'']) = Some 1" by (simp add: t)
  show ?thesis
    using UncommentCode_uncomments [OF ok _ i, of "[''f'' \<mapsto> ''x#a'' @ [newline] @ ''#by'']" "''f''" "\<lambda>f. None"]
    by (auto simp: t length_Suc_conv)
qed

text \<open>
  C38. The scanner's buffer bounds what \<open>UncommentCode\<close> keeps. Whatever the length of the
  lines, the call reports success, but only the lines before the first one of 65536 bytes or
  more, prefix included, are kept: that line and all lines of the text after it disappear
  from the file, and if it is the first line the file is left as it is.
\<close>

theorem UncommentCode_line_bound:
  assumes "clean_lines p ls" and "fs filename = Some content"
    and "Index content (commented p ls) = Some i" and "writable filename = None"
    and "kept = takeWhile (\<lambda>l. length p + length l < 65536) ls"
  shows "UncommentCode writable filename (commented p ls) p fs =
    (None, if kept = [] then fs
           else fs(filename \<mapsto> take i content @ Join kept [newline] @ drop (i + length (commented p ls)) content))"
proof -
  have "scan_lines (commented p ls) = map (\<lambda>l. p @ l) kept"
    using scan_lines_long [OF assms(1)] by (simp add: assms(5) MaxScanTokenSize_def)
  then show ?thesis
    using uncomment_lines_commented [of kept p]
    by (simp add: UncommentCode_def uncomment_def assms(2-4))
qed

theorem UncommentCode_line_bound_witness:
  "\<exists>fs'. UncommentCode (\<lambda>f. None) ''f'' (commented ''#'' [''a'', replicate 65535 CHR ''b'', ''c'']) ''#''
       [''f'' \<mapsto> commented ''#'' [''a'', replicate 65535 CHR ''b'', ''c'']] = (None, fs') \<and>
     fs' ''f'' = Some ''a''"
proof -
  let ?ls = "[''a'', replicate 65535 CHR ''b'', ''c'']"
  have ok: "clean_lines ''#'' ?ls" by (auto simp: clean_lines_def)
  have i: "Index (commented ''#'' ?ls) (commented ''#'' ?ls) = Some 0"
    by (simp add: commented_def)
  have kept: "[''a''] = takeWhile (\<lambda>l. length ''#'' + length l < 65536) ?ls" by simp
  from UncommentCode_line_bound [OF ok _ i _ kept, of "[''f'' \<mapsto> commented ''#'' ?ls]" "''f''" "\<lambda>f. None"]
  show ?thesis by simp
qed

section \<open>Where the commands run\<close>

lemma GetProjectDir_outside: "\<not> sublist ''/test/e2e'' dir \<Longrightarrow> GetProjectDir (dir, None) = (dir, None)"
  using Index_None [of dir "''/test/e2e''"] by (simp add: GetProjectDir_def Replace_all.simps)

lemma Index_suffix: "\<not> sublist sub (butlast (s @ sub)) \<Longrightarrow> sub \<noteq> [] \<Longrightarrow> Index (s @ sub) sub = Some (length s)"
proof (induction s)
  case (Cons c s)
  have "\<not> prefix sub (c # s @ sub)"
  proof
    assume "prefix sub (c # s @ sub)"
    then obtain zs where zs: "c # s @ sub = sub @ zs" by (rule prefixE)
    then have "length zs = Suc (length s)" by (metis add_diff_cancel_left' length_Cons length_append add_Suc_right add.commute)
    then obtain z where "zs = butlast zs @ [z]" by (metis append_butlast_last_id list.size(3) nat.distinct(1))
    then have "butlast (c # s @ sub) = sub @ butlast zs" unfolding zs by (metis butlast_append snoc_eq_iff_butlast)
    then show False using Cons.prems(1) by (metis append_Cons sublist_appendI append_Nil)
  qed
  moreover have "\<not> sublist sub (butlast (s @ sub))"
    using Cons.prems by (auto simp: sublist_Cons_right split: if_splits)
  ultimately show ?case using Cons.IH Cons.prems(2) by simp
qed (cases sub; simp)

text \<open>In the directory of the end-to-end tests it is the project's root.\<close>

lemma GetProjectDir_tests:
  assumes "\<not> sublist ''/test/e2e'' (butlast (root @ ''/test/e2e''))"
  shows "GetProjectDir (root @ ''/test/e2e'', None) = (root, None)"
  using Index_suffix [OF assms]
  by (simp add: GetProjectDir_def Replace_all.simps)

text \<open>
  On a machine whose directories can be read and entered, every command of a series runs in the
  project's root, whether the process starts there or in the directory of the end-to-end tests,
  with modules switched on; the first one takes the process there.
\<close>

definition plain_machine :: "machine \<Rightarrow> bool" where
  "plain_machine env \<longleftrightarrow> (\<forall>d. Getwd env d = (d, None) \<and> Chdir env d = None)"

definition run_all :: "machine \<Rightarrow> command list \<Rightarrow> test_process \<Rightarrow> test_process" where
  "run_all env cmds s = fold (\<lambda>args s. snd (Run_command env args s)) cmds s"

lemma Run_command_plain:
  assumes "plain_machine env" and "fst (GetProjectDir (working_dir s, None)) = root"
  shows "working_dir (snd (Run_command env args s)) = root"
    and "executed (snd (Run_command env args s)) =
      executed s @ [\<lparr>Args = args, Dir = root, Env = Environ env @ [''GO111MODULE=on'']\<rparr>]"
  using assms by (auto simp: plain_machine_def Run_command_def print_def Let_def split: prod.split)

lemma run_all_in_root:
  assumes "plain_machine env" and "\<not> sublist ''/test/e2e'' root"
    and "fst (GetProjectDir (working_dir s, None)) = root"
  shows "executed (run_all env cmds s) = executed s @
    map (\<lambda>args. \<lparr>Args = args, Dir = root, Env = Environ env @ [''GO111MODULE=on'']\<rparr>) cmds"
  using assms(3)
proof (induction cmds arbitrary: s)
  case (Cons args cmds)
  note first = Run_command_plain [OF assms(1) Cons.prems, of args]
  have "fst (GetProjectDir (working_dir (snd (Run_command env args s)), None)) = root"
    by (simp add: first(1) GetProjectDir_outside [OF assms(2)])
  from Cons.IH [OF this] show ?case by (simp add: run_all_def first(2))
qed (simp add: run_all_def)

text \<open>\<open>InstallCertManager\<close> waits for the webhook only if the manifests could be applied.\<close>

lemma Run_command_grows:
  "plain_machine env \<Longrightarrow> Run_command env args s = ((out, err), s') \<Longrightarrow>
   \<exists>cmd. Args cmd = args \<and> executed s' = executed s @ [cmd]"
  using Run_command_plain(2) [of env s _ args] by fastforce

lemma InstallCertManager_commands:
  assumes "plain_machine env" and "InstallCertManager env s = (err, s')"
  shows "\<exists>cmds. executed s' = executed s @ cmds \<and> (length cmds = 1 \<and> err \<noteq> None \<or> length cmds = 2)"
proof -
  obtain out1 e1 s1 where r1: "Run_command env [''kubectl'', ''apply'', ''-f'', certmanagerURL] s = ((out1, e1), s1)"
    by (metis prod.collapse)
  obtain out2 e2 s2 where r2: "Run_command env [''kubectl'', ''wait'', ''deployment.apps/cert-manager-webhook'',
      ''--for'', ''condition=Available'', ''--namespace'', ''cert-manager'', ''--timeout'', ''5m''] s1 = ((out2, e2), s2)"
    by (metis prod.collapse)
  show ?thesis
    using assms(2) Run_command_grows [OF assms(1) r1] Run_command_grows [OF assms(1) r2]
    by (cases e1) (auto simp: InstallCertManager_def Let_def r1 r2)
qed

end
