(* ===== verification/Unit_Tests.thy ===== *)
theory Unit_Tests
  imports Indexer App_Controller
begin

text \<open>
  The unit tests of the index functions, \<open>virtualworkspace/indexes_test.go\<close>, run on the model:
  the tables of the two tests, what each test requires of an entry, and that every entry
  passes; and the test of the application controller, run against the reconciler. The other test
  suites of the repository need a cluster.
\<close>

text \<open>An entry is a \<open>*metav1.ObjectMeta\<close>, by namespace, name and cluster, with the desired index value.\<close>

definition entry :: "string \<Rightarrow> string \<Rightarrow> string \<Rightarrow> string \<Rightarrow> objmeta \<times> string" where
  "entry namespace name cluster want = (sample_meta cluster namespace name, want)"

definition TestClusterIndexFunc_tests :: "(objmeta \<times> string) list" where
  "TestClusterIndexFunc_tests =
     [entry '''' ''name'' ''test'' ''test'',
      entry ''namespace'' ''name'' ''test'' ''test'',
      entry '''' ''name'' ''test-with-dashes'' ''test-with-dashes'']"

definition TestClusterIndexFunc :: "objmeta \<times> string \<Rightarrow> bool" where
  "TestClusterIndexFunc tt =
     (case ClusterIndexFunc documented_lib (Meta (fst tt)) of
        Ok result \<Rightarrow> length result = 1 \<and> result ! 0 = snd tt \<and>
          result ! 0 = ClusterIndexKey (lc_From documented_lib (fst tt))
      | _ \<Rightarrow> False)"

definition TestClusterAndNamespaceIndexFunc_tests :: "(objmeta \<times> string) list" where
  "TestClusterAndNamespaceIndexFunc_tests =
     [entry '''' ''name'' ''test'' ''test/'', entry ''testing'' ''name'' ''test'' ''test/testing'']"

definition TestClusterAndNamespaceIndexFunc :: "objmeta \<times> string \<Rightarrow> bool" where
  "TestClusterAndNamespaceIndexFunc tt =
     (case ClusterAndNamespaceIndexFunc documented_lib (Meta (fst tt)) of
        Ok result \<Rightarrow> length result = 1 \<and> result ! 0 = snd tt \<and>
          result ! 0 = ClusterAndNamespaceIndexKey (lc_From documented_lib (fst tt)) (mnamespace (fst tt))
      | _ \<Rightarrow> False)"

lemma index_tests_pass:
  "list_all TestClusterIndexFunc TestClusterIndexFunc_tests"
  "list_all TestClusterAndNamespaceIndexFunc TestClusterAndNamespaceIndexFunc_tests"
  by code_simp+

section \<open>The test of the application controller\<close>

text \<open>
  \<open>application_controller_test.go\<close>: the application \<open>BeforeEach\<close> creates unless it is there, and the
  test, which reconciles it and expects no error. It fails with every API server that behaves
  as documented and whatever else is in the cluster, since the application has no cluster
  annotation (nor a secret).
\<close>

definition test_resource :: application where
  "test_resource =
     \<lparr>app_Name = ''test-resource'', app_Namespace = ''default'', app_Annotations = Map.empty,
      DatabaseRef = '''', DatabaseSecretRef = \<lparr>ref_Name = '''', ref_Namespace = ''''\<rparr>,
      Status = '''', ConnectionString = ''''\<rparr>"

definition controller_BeforeEach :: "app_world \<Rightarrow> app_world" where
  "controller_BeforeEach w =
     (let typeNamespacedName = \<lparr>knamespace = ''default'', kname = ''test-resource''\<rparr>
      in if applications w typeNamespacedName = None
         then w\<lparr>applications := (applications w)(typeNamespacedName \<mapsto> test_resource)\<rparr> else w)"

definition controller_test :: "app_lib \<Rightarrow> app_world \<Rightarrow> bool" where
  "controller_test A w =
     (case fst (Reconcile A \<lparr>knamespace = ''default'', kname = ''test-resource''\<rparr> w) of
        Ok (requeue, err) \<Rightarrow> err = None
      | _ \<Rightarrow> False)"

lemma controller_test_fails:
  assumes "api_ok A" and "applications w \<lparr>knamespace = ''default'', kname = ''test-resource''\<rparr> = None"
  shows "\<not> controller_test A (controller_BeforeEach w)"
  using Reconcile_without_annotation [OF assms(1), of "controller_BeforeEach w"
      "\<lparr>knamespace = ''default'', kname = ''test-resource''\<rparr>" test_resource] assms(2)
  by (auto simp: controller_test_def controller_BeforeEach_def test_resource_def Let_def)

end
