(* ===== verification/Spec2Isabelle.thy ===== *)
theory Spec2Isabelle
  imports Provider_Sync Provider_Spec Provider_Locks Provider_Lifecycle ConfigMap_Example API_Types Reader_Heap App_Retry Test_Utils Unit_Tests
begin

text \<open>
  A verification development for the kcp multicluster provider: the Go package
  \<open>virtualworkspace\<close>, which connects a multi-cluster controller manager to all logical clusters
  behind one kcp virtual workspace, and the two example programs built on it.

  How the program works. One wildcard cache (\<open>wildcard.go\<close>) watches the objects of all logical
  clusters at the endpoint \<open>base/clusters/*\<close>. Its informers carry two indexes, by cluster and by
  cluster and namespace (\<open>indexes.go\<close>). The provider (\<open>provider.go\<close>) registers event handlers for
  one type: the first object of a cluster makes a scoped cluster (\<open>cluster.go\<close>), stores it with
  a cancel function and engages it with the manager; when the last object is gone the cluster
  is cancelled and forgotten. A scoped cluster has clients for \<open>base/clusters/name\<close>, and a scoped
  cache (\<open>cache.go\<close>) that reads the shared informers through a reader which adds the cluster
  to every key (\<open>forked_cache_reader.go\<close>). The examples set a provider and a manager up and
  reconcile ConfigMaps or Applications.

  The theories, each with the Go files it models, in the order they build on each other:

    \<^item> \<open>Prelude\<close>: Go errors and the result of a Go call (a value, an error or a panic), shared
      lemmas. \<open>Objects\<close>: Kubernetes objects, the values informers hand out, and the third-party
      functions on them as a record of parameters with their documented behaviour.
    \<^item> \<open>Index_Keys\<close> (\<open>indexes.go\<close>, the key functions of \<open>forked_cache_reader.go\<close>): index functions
      and composite keys; a locale for key codecs, injectivity of every key.
    \<^item> \<open>Indexer\<close>: client-go's indexed store, a locale for what the readers need of it, interpreted
      on a store with the code's index functions.
    \<^item> \<open>Cache_Reader\<close> (\<open>forked_cache_reader.go\<close>): \<open>Get\<close>, \<open>List\<close>, \<open>byIndexes\<close> on
      objects as values; \<open>Object_Heap\<close> and \<open>Reader_Heap\<close>: the same operations on a heap of structs and
      maps, with their deep copies, and the refinement between the two. \<open>Wildcard\<close>
      (\<open>wildcard.go\<close>): construction, the informer tracker and its lock, \<open>IndexField\<close>.
    \<^item> \<open>Scoped_Informer\<close>, \<open>Scoped_Cache\<close> (\<open>cache.go\<close>), \<open>Go_URL\<close> (\<open>url.JoinPath\<close> of Go's
      library), \<open>Scoped_Cluster\<close> (\<open>cluster.go\<close>).
    \<^item> \<open>Step_Systems\<close>: reachability, and locales for invariants and refinement. \<open>Provider\<close>
      (\<open>provider.go\<close>): state, construction, handlers, \<open>Run\<close>. \<open>Provider_Concurrent\<close>: the handlers
      as threads that interleave at their critical sections. \<open>Provider_Locks\<close>: the handlers and
      \<open>Get\<close> as goroutines on the read-write mutex, with every call of it and every access to the
      maps a step, refining those threads. \<open>Provider_Spec\<close>: the abstract registry the threads
      refine. \<open>Provider_Sync\<close>: the handlers against a changing store. \<open>Provider_Lifecycle\<close>: \<open>Run\<close> as
      a process beside the handlers, with its error group, the goroutine of the cache, the tree of
      contexts, a clock and the timeout of the sync; infinite executions of it.
    \<^item> \<open>App_Controller\<close>, \<open>App_Retry\<close>, \<open>API_Types\<close>, \<open>Go_Flag\<close>, \<open>Manager_Main\<close>, \<open>Test_Utils\<close>
      (\<open>examples/crd\<close>: the controller, its failed attempts, the API types with their copy functions on a heap, Go's flag package, the
      command, the helpers of its tests with the commands they run) and \<open>ConfigMap_Example\<close> (\<open>examples/configmap\<close>).
      \<open>Unit_Tests\<close>: the repository's tests of the index functions and of the controller, run
      on the model.

  Correspondence. A Go function keeps its name, with its receiver's name in front of it where
  the name alone is taken (\<open>scopedCache_Get\<close> is \<open>scopedCache.Get\<close>); a struct is a record with its
  fields. A function that changes state takes and returns the state. A call of third-party
  code is an argument, or a field of a record of parameters; theorems that need its documented
  behaviour name it as a hypothesis (\<open>lib_ok\<close>, \<open>store_ready\<close>, \<open>api_ok\<close>, \<open>copies_ok\<close>,
  \<open>deep_copy_ok\<close>, \<open>set_list_ok\<close>, \<open>errgroup_ok\<close>, \<open>rwmutex_ok\<close>, and of an execution
  \<open>time_passes\<close>, \<open>scheduled\<close>, \<open>Start_returns\<close>), and each such theorem has a witness with a
  concrete instance. In \<open>Provider_Concurrent\<close> and the theories on it the code between \<open>Lock\<close> and
  \<open>Unlock\<close> is one step of a thread, which \<open>sections_are_atomic\<close> justifies. A scoped cache holds
  the wildcard cache as a value, as it is when it is read, where the code has a pointer.

  What is shown. Isolation: a cluster the provider returns reads objects of its own cluster
  only, by \<open>Get\<close> and by \<open>List\<close>, its results do not depend on other clusters, and its clients talk to its own endpoint,
  from the command line of the examples to their reconcilers. Exactness: \<open>Get\<close>, \<open>List\<close> and
  \<open>byIndexes\<close> return exactly the objects asked for. The registry: under all interleavings
  contexts do not leak, at most one engagement of a cluster is live, refused engagements leave
  nothing behind, and the provider refines a table of engagements; when the handlers
  have caught up, the registered clusters are those with objects in the store. The mutex: it is
  always given back, so no handler and no call of \<open>Get\<close> waits for ever. The life of \<open>Run\<close>:
  the context of a registered cluster ends with the run and not before, the wait for the sync
  ends by its timeout, \<open>Run\<close> comes to an end once its cache or its caller does, and a sync that
  fails leaves the provider running. Copies share no
  memory with their original, and so neither do the objects the reader hands out with the cache,
  unless deep copies are disabled. A reconciliation of an application that failed at some call
  can be repeated without harm. The error behaviour is part of the model, and some theorems
  state that the code fails: \<open>scopedCache.List\<close> never succeeds, \<open>IndexField\<close> never matches,
  hosts of the form \<open>host:port\<close> lose the cluster, existing resources are never updated, long
  lines disappear from uncommented code.

  Bounds and fuel. \<open>run_alone\<close> runs a thread with fuel; four steps are enough for both handlers
  (\<open>threads_are_handlers\<close>). With the calls of the mutex and the accesses to the maps counted, a
  handler takes at most 19 steps and a call of \<open>Get\<close> three (\<open>handlers_never_deadlock\<close>).
  \<open>handlers_catch_up\<close> bounds the handlers' steps by two for each notification in the queue,
  plus one. The sync times out 30 ticks of the clock after it began. Every other
  recursion is structural or, for \<open>Parse\<close> and \<open>Replace_all\<close>, has a proved measure. List limits
  and counts are integers of unbounded size, which they never leave: they are compared with
  lengths of lists only. The buffer of \<open>bufio.Scanner\<close> is modelled with its 65536 bytes.

  Not modelled, and why. The implementations of client-go, controller-runtime, kcp's packages
  and the multi-cluster manager are not part of the repository: they are parameters. Contexts
  of clusters are known by number, and cancellation by the set of cancelled ones; their parents,
  the contexts of the error group and of the caller, are flags of the process in
  \<open>Provider_Lifecycle\<close>. Of time there is a clock of seconds, for the timeout of the sync. The
  ConfigMap example does not compile, for the statement that assigns a transport to a field the
  provider does not have; \<open>configmap_setup\<close> reads it as an assignment to the configuration the
  provider and the manager share. Outside \<open>API_Types\<close>,
  \<open>Object_Heap\<close> and \<open>Reader_Heap\<close> objects are values. Log
  output is modelled where it tells which failure happened, in the provider and the test helpers. Escaped
  characters, queries and IPv6 literals of URLs are left to a parameter of \<open>JoinPath\<close>. The tests that
  need a cluster, build files and manifests are not programs of their own.
\<close>

section \<open>From the provider to the objects\<close>

text \<open>
  C5. End to end isolation: whatever interleaving of handlers led here, the API reader of a
  cluster the provider returns for a name gives out nothing but objects of the logical
  cluster of that name, from the store its informer shares with all other clusters. \<open>Get\<close> gives
  out the object under the requested key; every item of a \<open>List\<close>, with or without label and
  field selectors, is an object of that cluster, as long as the field indexes it asks do not
  file objects under keys of other clusters.
\<close>

theorem provided_cluster_reads_own_objects:
  assumes "reachable (sys_init p) (sys_step L K engage) \<sigma>"
    and "Provider_Get (sys_state \<sigma>) n = Ok (ctx, cl)"
    and "store_ready L si items" and "cluster_name_ok n" and "lib_ok L"
  shows "(informer_ready (sc_base (scopedCluster_GetAPIReader cl)) (otype obj) (ogvk obj) g sc si \<and>
      object_key_ok (scoped_key sc key) \<and>
      scopedCache_Get L (scopedCluster_GetAPIReader cl) key obj = Ok res \<longrightarrow>
      (\<exists>ob \<in> objects_of L n items. \<exists>m. ometa ob = Some m \<and> lc_From L m = n \<and>
         meta_key m = scoped_key sc key \<and> res = ob\<lparr>ogvk := g\<rparr>)) \<and>
    (informer_ready (sc_base (scopedCluster_GetAPIReader cl)) (ltype out) (lgvk out) g sc si \<and>
      (\<forall>reqs. lo_FieldSelector lo = Some reqs \<longrightarrow>
         (\<forall>r \<in> set reqs. field_keys_own L (GetIndexer si) items (req_Field r))) \<and>
      scopedCache_List L (scopedCluster_GetAPIReader cl) out lo = Ok lst \<longrightarrow>
      (\<forall>item \<in> set (litems lst). \<exists>ob \<in> objects_of L n items.
         item = (if lo_UnsafeDisableDeepCopy lo = Some True then ob else ob\<lparr>ogvk := g\<rparr>)))"
proof -
  have "registry_ok (sys_state \<sigma>)"
    using conc.inv_reachable [OF assms(1)] by (simp add: sys_inv_def)
  moreover have "clusters (sys_state \<sigma>) n = Some (ctx, cl)"
    using assms(2) by (simp add: Provider_Get_def split: option.splits)
  ultimately have "cl_cache cl = \<lparr>sc_base = pcache (sys_state \<sigma>), sc_clusterName = n\<rparr>"
    using registry_okD(6) by blast
  then have name: "sc_clusterName (scopedCluster_GetAPIReader cl) = n"
    by (simp add: scopedCluster_getters)
  show ?thesis
    using scopedCache_Get_own [of "scopedCluster_GetAPIReader cl" obj g sc si L items key res]
      scopedCache_List_own [of "scopedCluster_GetAPIReader cl" out g sc si L items lo lst] assms(3-5)
    unfolding name by blast
qed

text \<open>A provider over a wildcard cache that has a ConfigMap informer, with one cluster engaged.\<close>

definition tracking_provider :: Provider where
  "tracking_provider = sample_provider\<lparr>pcache := sc_base sample_scoped_cache\<rparr>"

definition tracking_cluster :: scopedCluster where
  "tracking_cluster = (sample_cluster ''c1'')\<lparr>cl_cache := sample_scoped_cache\<rparr>"

lemma tracking_newScopedCluster:
  "newScopedCluster documented_lib sample_cluster_lib sample_url_config ''c1''
     (sc_base sample_scoped_cache) sample_scheme = Ok tracking_cluster"
  using JoinPath_cluster [OF sample_endpoint_ok sample_url_name_ok(1) sample_request_path_ok, of "Host sample_url_config"
      "JoinPath_escaped sample_cluster_lib"]
  by (simp add: newScopedCluster_def sample_cluster_lib_def tracking_cluster_def sample_cluster_def Let_def
      endpoint_def sample_url_config_def sample_scoped_cache_def)

lemma tracking_run:
  "\<exists>\<sigma>. reachable (sys_init tracking_provider)
       (sys_step documented_lib sample_cluster_lib picky_manager) \<sigma> \<and>
     Provider_Get (sys_state \<sigma>) ''c1'' = Ok (0, tracking_cluster)"
proof -
  let ?\<sigma>0 = "\<lparr>sys_state = start_state tracking_provider, sys_threads = []\<rparr>"
  let ?ms = "[StartAdd (Obj (sample_object ''c1'' ''d'' ''a'')), StepThread 0 None, StepThread 0 None]"
  have "sys_init tracking_provider ?\<sigma>0" by (simp add: sys_init_def tracking_provider_def)
  moreover obtain \<sigma> where "run_schedule documented_lib sample_cluster_lib picky_manager ?ms ?\<sigma>0 = Some \<sigma>"
    and "clusters (sys_state \<sigma>) ''c1'' = Some (0, tracking_cluster)"
    using tracking_newScopedCluster
    by (simp add: add_slow_cases tracking_provider_def add_known_def)
  ultimately show ?thesis
    using run_schedule_reachable by (fastforce simp: Provider_Get_def)
qed

theorem provided_cluster_reads_own_objects_witness:
  "(\<exists>ob \<in> objects_of documented_lib ''c1'' sample_items. \<exists>m. ometa ob = Some m \<and>
      annotation_From m = ''c1'' \<and> mname m = ''cm'') \<and>
   (\<exists>lst. scopedCache_List documented_lib sample_scoped_cache sample_list sample_list_options = Ok lst \<and>
      length (litems lst) = 1 \<and>
      set (litems lst) \<subseteq> (\<lambda>ob. ob\<lparr>ogvk := configmap_gvk\<rparr>) ` objects_of documented_lib ''c1'' sample_items)"
proof -
  obtain \<sigma> where reach: "reachable (sys_init tracking_provider)
      (sys_step documented_lib sample_cluster_lib picky_manager) \<sigma>"
    and get: "Provider_Get (sys_state \<sigma>) ''c1'' = Ok (0, tracking_cluster)"
    using tracking_run by blast
  let ?key = "\<lparr>knamespace = ''default'', kname = ''cm''\<rparr>"
  have reader: "scopedCluster_GetAPIReader tracking_cluster = sample_scoped_cache"
    by (simp add: scopedCluster_getters tracking_cluster_def)
  have name: "cluster_name_ok ''c1''" and key: "object_key_ok (scoped_key NamespaceScope ?key)"
    by (simp_all add: cluster_name_ok_def object_key_ok_def scoped_key_def)
  note own = provided_cluster_reads_own_objects [OF reach get sample_store_ready name documented_lib_ok, unfolded reader]
  have "\<exists>ob \<in> objects_of documented_lib ''c1'' sample_items. \<exists>m. ometa ob = Some m \<and>
      lc_From documented_lib m = ''c1'' \<and> meta_key m = scoped_key NamespaceScope ?key \<and>
      sample_object ''c1'' ''default'' ''cm'' = ob\<lparr>ogvk := configmap_gvk\<rparr>"
    using own [THEN conjunct1, rule_format, of "sample_object '''' '''' ''''" configmap_gvk NamespaceScope ?key]
      sample_informer_ready key sample_scoped_Get by simp
  moreover have "set (litems (sample_list\<lparr>litems := [sample_object ''c1'' ''default'' ''cm'']\<rparr>)) \<subseteq>
      (\<lambda>ob. ob\<lparr>ogvk := configmap_gvk\<rparr>) ` objects_of documented_lib ''c1'' sample_items"
    using own [THEN conjunct2, rule_format, of sample_list configmap_gvk NamespaceScope sample_list_options]
      sample_list_ready sample_scoped_List by (fastforce simp: sample_list_options_def)
  ultimately show ?thesis
    using sample_scoped_List by (fastforce simp: meta_key_def scoped_key_def)
qed

end
